(* ===== verification/Prelude.thy ===== *)
theory Prelude
  imports Main "HOL-Library.Word" "HOL-Library.Multiset" "HOL-Library.Char_ord"
    "HOL-Library.List_Lexorder"
begin

text \<open>
  Shared vocabulary of the development: the integers and errors of the Go sources, the part of
  Go's standard library (strings, strconv, sort, iteration over a map) that several components
  use, and the generic lemmas on lists and maps that carry their proofs.

  Strings are Go strings, that is byte sequences, as HOL's \<^typ>\<open>string\<close> is. \<open>ToLower\<close> maps the
  ASCII letters only: the sources apply it to annotation values and to device names.

  A Go map has no iteration order. A loop \<open>for k, v := range m\<close> takes the order the runtime
  chooses as an explicit argument, a list \<open>ks\<close> with \<open>map_order ks m\<close>; what is proved holds for
  every such list.
\<close>

named_theorems go_defs \<open>unfolding rules of the small helper operations\<close>
named_theorems inv_intros \<open>preservation of component invariants\<close>

section \<open>Integers and errors\<close>

type_synonym int32 = "32 word"
type_synonym int64 = "64 word"

datatype go_error =
    ErrNoSubConnAvailable            \<comment> \<open>internal/broker/error\<close>
  | BalancerErrNoSubConnAvailable    \<comment> \<open>google.golang.org/grpc/balancer\<close>
  | ErrPoolInit                      \<comment> \<open>pkg/endpoint/pool\<close>
  | EOF                              \<comment> \<open>io.EOF\<close>
  | ErrServerClosed                  \<comment> \<open>net/http\<close>
  | Canceled                         \<comment> \<open>context.Canceled\<close>
  | Errorf string                    \<comment> \<open>fmt.Errorf and errors.New\<close>
  | StatusErr nat string             \<comment> \<open>a gRPC status error: code and message\<close>
  | NotFound string                  \<comment> \<open>a Kubernetes API error with reason NotFound\<close>
  | AlreadyExists string             \<comment> \<open>a Kubernetes API error with reason AlreadyExists\<close>
  | OtherErr string                  \<comment> \<open>any other error of a called package\<close>
  | GoPanic string                   \<comment> \<open>a run-time panic\<close>

type_synonym 'a go_result = "go_error + 'a"

definition IsNotFound :: "go_error \<Rightarrow> bool" where
  "IsNotFound e = (case e of NotFound _ \<Rightarrow> True | _ \<Rightarrow> False)"

definition IsAlreadyExists :: "go_error \<Rightarrow> bool" where
  "IsAlreadyExists e = (case e of AlreadyExists _ \<Rightarrow> True | _ \<Rightarrow> False)"

section \<open>Strings\<close>

definition HasPrefix :: "string \<Rightarrow> string \<Rightarrow> bool" where
  "HasPrefix s p = (take (length p) s = p)"

definition HasSuffix :: "string \<Rightarrow> string \<Rightarrow> bool" where
  "HasSuffix s p = (length p \<le> length s \<and> drop (length s - length p) s = p)"

definition TrimPrefix :: "string \<Rightarrow> string \<Rightarrow> string" where
  "TrimPrefix s p = (if HasPrefix s p then drop (length p) s else s)"

definition TrimSuffix :: "string \<Rightarrow> string \<Rightarrow> string" where
  "TrimSuffix s p = (if HasSuffix s p then take (length s - length p) s else s)"

text \<open>The position of the first occurrence of \<open>p\<close>, as \<open>strings.Index\<close> (\<open>None\<close> for -1).\<close>

fun Index :: "string \<Rightarrow> string \<Rightarrow> nat option" where
  "Index [] p = (if p = [] then Some 0 else None)"
| "Index (c # s) p = (if HasPrefix (c # s) p then Some 0 else map_option Suc (Index s p))"

definition StrContains :: "string \<Rightarrow> string \<Rightarrow> bool" where
  "StrContains s p = (Index s p \<noteq> None)"

definition to_lower_char :: "char \<Rightarrow> char" where
  "to_lower_char c =
     (if 65 \<le> (of_char c :: nat) \<and> (of_char c :: nat) \<le> 90 then char_of ((of_char c :: nat) + 32)
      else c)"

definition ToLower :: "string \<Rightarrow> string" where
  "ToLower s = map to_lower_char s"

text \<open>\<open>strings.ReplaceAll\<close> with a non-empty \<open>old\<close>: non-overlapping occurrences from the left.\<close>

function ReplaceAll :: "string \<Rightarrow> string \<Rightarrow> string \<Rightarrow> string" where
  "ReplaceAll s old new =
     (if old = [] \<or> s = [] then s
      else if HasPrefix s old then new @ ReplaceAll (drop (length old) s) old new
      else hd s # ReplaceAll (tl s) old new)"
  by pat_completeness auto
termination
  by (relation "measure (\<lambda>(s, old, new). length s)") auto

declare ReplaceAll.simps [simp del]

text \<open>\<open>strings.Split\<close> with a one-character separator.\<close>

fun SplitChar :: "string \<Rightarrow> char \<Rightarrow> string list" where
  "SplitChar [] c = [[]]"
| "SplitChar (x # xs) c =
     (if x = c then [] # SplitChar xs c
      else (case SplitChar xs c of [] \<Rightarrow> [[x]] | w # ws \<Rightarrow> (x # w) # ws))"

fun Join :: "string list \<Rightarrow> string \<Rightarrow> string" where
  "Join [] sep = []"
| "Join [w] sep = w"
| "Join (w # v # ws) sep = w @ sep @ Join (v # ws) sep"

section \<open>Decimal numbers\<close>

definition digit_char :: "nat \<Rightarrow> char" where
  "digit_char d = char_of (48 + d)"

fun show_nat :: "nat \<Rightarrow> string" where
  "show_nat n = (if n < 10 then [digit_char n] else show_nat (n div 10) @ [digit_char (n mod 10)])"

declare show_nat.simps [simp del]

lemma digit_char_eval [simp]:
  "digit_char 0 = CHR ''0''" "digit_char (Suc 0) = CHR ''1''" "digit_char 1 = CHR ''1''"
  "digit_char 2 = CHR ''2''" "digit_char 3 = CHR ''3''" "digit_char 4 = CHR ''4''" "digit_char 5 = CHR ''5''"
  "digit_char 6 = CHR ''6''" "digit_char 7 = CHR ''7''" "digit_char 8 = CHR ''8''" "digit_char 9 = CHR ''9''"
  by code_simp+

definition show_int :: "int \<Rightarrow> string" where
  "show_int i = (if i < 0 then CHR ''-'' # show_nat (nat (- i)) else show_nat (nat i))"

definition is_digit :: "char \<Rightarrow> bool" where
  "is_digit c = (48 \<le> (of_char c :: nat) \<and> (of_char c :: nat) \<le> 57)"

definition digit_val :: "char \<Rightarrow> nat" where
  "digit_val c = of_char c - 48"

definition parse_nat :: "string \<Rightarrow> nat option" where
  "parse_nat s = (if s \<noteq> [] \<and> list_all is_digit s
                  then Some (foldl (\<lambda>a c. 10 * a + digit_val c) 0 s) else None)"

text \<open>
  \<open>strconv.Atoi\<close>: an optional sign, decimal digits, and a value in the range of a 64-bit
  \<open>int\<close>; every error is \<open>None\<close>, since no caller looks at which error it is.
\<close>

definition Atoi :: "string \<Rightarrow> int option" where
  "Atoi s =
     (let (neg, ds) = (case s of [] \<Rightarrow> (False, [])
                       | c # cs \<Rightarrow> if c = CHR ''-'' then (True, cs)
                                   else if c = CHR ''+'' then (False, cs) else (False, s))
      in case parse_nat ds of None \<Rightarrow> None
         | Some n \<Rightarrow>
             (let v = (if neg then - int n else int n)
              in if - (2 ^ 63) \<le> v \<and> v < 2 ^ 63 then Some v else None))"

definition ParseBool :: "string \<Rightarrow> bool option" where
  "ParseBool s =
     (if s \<in> {''1'', ''t'', ''T'', ''TRUE'', ''true'', ''True''} then Some True
      else if s \<in> {''0'', ''f'', ''F'', ''FALSE'', ''false'', ''False''} then Some False
      else None)"

section \<open>Iteration over a map\<close>

definition map_order :: "'k list \<Rightarrow> ('k \<rightharpoonup> 'v) \<Rightarrow> bool" where
  "map_order ks m \<longleftrightarrow> distinct ks \<and> set ks = dom m"

section \<open>Lemmas\<close>

lemma map_orderD:
  "map_order ks m \<Longrightarrow> k \<in> set ks \<Longrightarrow> \<exists>v. m k = Some v"
  by (auto simp: map_order_def)

lemma map_order_distinct: "map_order ks m \<Longrightarrow> distinct ks"
  by (simp add: map_order_def)

lemma map_order_finite: "map_order ks m \<Longrightarrow> finite (dom m)"
  by (metis List.finite_set map_order_def)

lemma map_order_exists: "finite (dom m) \<Longrightarrow> \<exists>ks. map_order ks m"
  using finite_distinct_list [of "dom m"] by (auto simp: map_order_def)

lemma map_order_length: "map_order ks m \<Longrightarrow> length ks = card (dom m)"
  by (metis distinct_card map_order_def)

lemma map_order_perm:
  "map_order ks m \<Longrightarrow> map_order ks' m \<Longrightarrow> mset ks = mset ks'"
  by (metis map_order_def set_eq_iff_mset_eq_distinct)

lemma HasPrefix_append [simp]: "HasPrefix (p @ s) p"
  by (simp add: HasPrefix_def)

lemma HasSuffix_append [simp]: "HasSuffix (s @ p) p"
  by (simp add: HasSuffix_def)

lemma HasSuffix_iff: "HasSuffix s p \<longleftrightarrow> (\<exists>t. s = t @ p)"
  by (metis HasSuffix_append HasSuffix_def append_take_drop_id)

lemma HasPrefix_iff: "HasPrefix s p \<longleftrightarrow> (\<exists>t. s = p @ t)"
  by (metis HasPrefix_append HasPrefix_def append_take_drop_id)

lemma TrimSuffix_append [simp]: "TrimSuffix (s @ p) p = s"
  by (simp add: TrimSuffix_def)

lemma TrimPrefix_append [simp]: "TrimPrefix (p @ s) p = s"
  by (simp add: TrimPrefix_def)

lemma Index_Some_split: "Index s p = Some i \<Longrightarrow> \<exists>t. s = take i s @ p @ t"
proof (induction s arbitrary: i)
  case Nil
  then show ?case by (auto split: if_splits)
next
  case (Cons c s)
  then show ?case by (auto simp: HasPrefix_iff split: if_splits)
qed

lemma Index_append_ex: "Index (u @ p @ t) p \<noteq> None"
  by (induction u) (use HasPrefix_append in \<open>cases p; cases t; auto simp: HasPrefix_def\<close>)+

lemma StrContains_iff: "StrContains s p \<longleftrightarrow> (\<exists>u t. s = u @ p @ t)"
  unfolding StrContains_def using Index_Some_split Index_append_ex by blast

lemma length_ReplaceAll_le:
  "length new \<le> length old \<Longrightarrow> length (ReplaceAll s old new) \<le> length s"
proof (induction s old new rule: ReplaceAll.induct)
  case (1 s old new)
  consider "old = [] \<or> s = []" | "\<not> (old = [] \<or> s = [])" "HasPrefix s old"
    | "\<not> (old = [] \<or> s = [])" "\<not> HasPrefix s old" by blast
  then show ?case
  proof cases
    case 1
    then show ?thesis by (simp add: ReplaceAll.simps [of s])
  next
    case 2
    then have "length old \<le> length s" by (auto simp: HasPrefix_iff)
    with 2 "1.IH"(1) "1.prems" show ?thesis by (simp add: ReplaceAll.simps [of s])
  next
    case 3
    then obtain c s' where "s = c # s'" by (cases s) auto
    with 3 "1.IH"(2) "1.prems" show ?thesis by (simp add: ReplaceAll.simps [of "c # s'"])
  qed
qed

lemma SplitChar_ne [simp]: "SplitChar s c \<noteq> []"
  by (cases s) (auto split: list.splits)

lemma Join_Cons_head: "Join ((x # w) # ws) sep = x # Join (w # ws) sep"
  by (cases ws) auto

lemma Join_SplitChar: "Join (SplitChar s c) [c] = s"
proof (induction s)
  case (Cons x xs)
  then obtain w ws where "SplitChar xs c = w # ws" by (cases "SplitChar xs c") auto
  with Cons show ?case by (auto simp: Join_Cons_head)
qed simp

section \<open>Step systems\<close>

text \<open>
  The contract of every step relation of the development with its reachability: reachable states are closed under
  steps, and nothing else is reachable. Inside it: transitivity, invariants, invariants up to a flag that stays, and
  a goal reached by steps that decrease a measure.
\<close>

locale step_system =
  fixes step :: "'s \<Rightarrow> 's \<Rightarrow> bool" and reach :: "'s \<Rightarrow> 's \<Rightarrow> bool"
  assumes reach_refl: "reach s s"
    and reach_step: "reach a b \<Longrightarrow> step b c \<Longrightarrow> reach a c"
    and reach_least: "reach a b \<Longrightarrow> P a \<Longrightarrow> (\<And>x y. P x \<Longrightarrow> step x y \<Longrightarrow> P y) \<Longrightarrow> P b"
begin

lemma reach_one: "step a b \<Longrightarrow> reach a b"
  using reach_step [OF reach_refl] .

lemma reach_trans: "reach b c \<Longrightarrow> reach a b \<Longrightarrow> reach a c"
  by (erule reach_least [where P = "\<lambda>x. reach a x"]) (auto intro: reach_step)

lemma reach_invariant: "reach a b \<Longrightarrow> I a \<Longrightarrow> (\<And>x y. step x y \<Longrightarrow> I x \<Longrightarrow> I y) \<Longrightarrow> I b"
  by (erule reach_least [where P = I]) auto

lemma reach_invariant_until:
  assumes "reach a b" and "\<not> B b" and "I a"
    and "\<And>x y. step x y \<Longrightarrow> B x \<Longrightarrow> B y" and "\<And>x y. step x y \<Longrightarrow> \<not> B y \<Longrightarrow> I x \<Longrightarrow> I y"
  shows "I b"
  using reach_least [OF assms(1), where P = "\<lambda>x. B x \<or> I x"] assms(2-5) by blast

lemma reach_goal_runs:
  assumes "Q a" and "\<And>x. Q x \<Longrightarrow> \<not> goal x \<Longrightarrow> \<exists>y. reach x y \<and> Q y \<and> m y < (m x :: nat)"
  shows "\<exists>b. reach a b \<and> Q b \<and> goal b"
  using assms(1)
proof (induction "m a" arbitrary: a rule: less_induct)
  case less
  show ?case
  proof (cases "goal a")
    case False
    then obtain y where "reach a y" "Q y" "m y < m a" using assms(2) [OF less.prems] by blast
    with less.hyps [of y] show ?thesis using reach_trans by meson
  qed (use less.prems reach_refl in blast)
qed

lemma reach_goal:
  assumes "Q a" and "\<And>x. Q x \<Longrightarrow> \<not> goal x \<Longrightarrow> \<exists>y. step x y \<and> Q y \<and> m y < (m x :: nat)"
  shows "\<exists>b. reach a b \<and> Q b \<and> goal b"
  by (rule reach_goal_runs [where Q = Q and m = m]) (use assms in \<open>meson reach_one\<close>)+

end

text \<open>
  A step system that simulates itself through a map of its states, under an invariant: what can be reached is mapped to what can be
  reached.
\<close>

locale self_simulation = step_system step reach
  for step :: "'s \<Rightarrow> 's \<Rightarrow> bool" and reach +
  fixes I :: "'s \<Rightarrow> bool" and f :: "'s \<Rightarrow> 's"
  assumes I_step: "I x \<Longrightarrow> step x y \<Longrightarrow> I y"
    and step_sim: "I x \<Longrightarrow> step x y \<Longrightarrow> step (f x) (f y)"
begin

lemma reach_sim:
  assumes "reach a b" and "I a" shows "reach (f a) (f b)"
proof -
  have "I b \<and> reach (f a) (f b)"
    using assms(1)
    by (rule reach_invariant [where I = "\<lambda>x. I x \<and> reach (f a) (f x)"])
      (auto intro: assms(2) reach_refl I_step reach_step [OF _ step_sim])
  then show ?thesis ..
qed

end

end
