(* ===== verification/Priority_Queue.thy ===== *)
theory Priority_Queue
  imports Prelude
begin

text \<open>
  \<open>internal/broker/picker/priorityqueue\<close>: a priority queue of \<open>*Item\<close> on top of Go's
  \<open>container/heap\<close>. Items are shared with the callers through pointers and carry their own position
  (\<open>queueIndex\<close>), which \<open>UpdateItem\<close> and \<open>RemoveItem\<close> read back; so the model has an explicit store
  from addresses to items, and the queue holds addresses. \<open>up\<close>, \<open>down\<close>, \<open>Fix\<close>, \<open>Remove\<close>,
  \<open>Push\<close>, \<open>Pop\<close> and \<open>Init\<close> are those of the standard library over the methods of the queue.
\<close>

section \<open>State and the methods of heap.Interface\<close>

record Item =
  it_Val :: int
  it_Index :: int
  it_queueIndex :: int

record PriorityQueue =
  pq_items :: "nat list"
  pq_store :: "nat \<Rightarrow> Item"

definition pq_Len :: "PriorityQueue \<Rightarrow> nat" where
  "pq_Len pq = length (pq_items pq)"

definition pq_val :: "PriorityQueue \<Rightarrow> nat \<Rightarrow> int" where
  "pq_val pq i = it_Val (pq_store pq (pq_items pq ! i))"

definition pq_Less :: "PriorityQueue \<Rightarrow> nat \<Rightarrow> nat \<Rightarrow> bool" where
  "pq_Less pq i j = (pq_val pq i < pq_val pq j)"

definition set_queueIndex :: "PriorityQueue \<Rightarrow> nat \<Rightarrow> int \<Rightarrow> PriorityQueue" where
  "set_queueIndex pq a v = pq\<lparr>pq_store := (pq_store pq)(a := (pq_store pq a)\<lparr>it_queueIndex := v\<rparr>)\<rparr>"

definition pq_Swap :: "PriorityQueue \<Rightarrow> nat \<Rightarrow> nat \<Rightarrow> PriorityQueue" where
  "pq_Swap pq i j =
     (let xs = pq_items pq;
          pq1 = pq\<lparr>pq_items := xs[i := xs ! j, j := xs ! i]\<rparr>;
          pq2 = set_queueIndex pq1 (pq_items pq1 ! i) (int i)
      in set_queueIndex pq2 (pq_items pq2 ! j) (int j))"

definition pq_Push :: "PriorityQueue \<Rightarrow> nat \<Rightarrow> PriorityQueue" where
  "pq_Push pq a =
     (let pq1 = set_queueIndex pq a (int (length (pq_items pq)))
      in pq1\<lparr>pq_items := pq_items pq1 @ [a]\<rparr>)"

definition pq_Pop :: "PriorityQueue \<Rightarrow> nat \<times> PriorityQueue" where
  "pq_Pop pq =
     (let old = pq_items pq; a = last old; pq1 = set_queueIndex pq a (- 1)
      in (a, pq1\<lparr>pq_items := butlast old\<rparr>))"

section \<open>container/heap\<close>

function heap_up :: "PriorityQueue \<Rightarrow> nat \<Rightarrow> PriorityQueue" where
  "heap_up h j =
     (let i = (j - 1) div 2
      in if i = j \<or> \<not> pq_Less h j i then h else heap_up (pq_Swap h i j) i)"
  by pat_completeness auto
termination
  by (relation "measure (\<lambda>(h, j). j)") (auto simp: pq_Less_def)

text \<open>\<open>down\<close> returns the queue and the final position; the standard library's result is \<open>i > i0\<close>.\<close>

definition least_child :: "PriorityQueue \<Rightarrow> nat \<Rightarrow> nat \<Rightarrow> nat" where
  "least_child h i n =
     (let j1 = 2 * i + 1; j2 = j1 + 1 in if j2 < n \<and> pq_Less h j2 j1 then j2 else j1)"

function heap_down_loop :: "PriorityQueue \<Rightarrow> nat \<Rightarrow> nat \<Rightarrow> PriorityQueue \<times> nat" where
  "heap_down_loop h i n =
     (if 2 * i + 1 \<ge> n then (h, i)
      else let j = least_child h i n
           in if \<not> pq_Less h j i then (h, i) else heap_down_loop (pq_Swap h i j) j n)"
  by pat_completeness auto
termination
  by (relation "measure (\<lambda>(h, i, n). n - i)") (auto simp: least_child_def Let_def)

declare heap_up.simps [simp del] heap_down_loop.simps [simp del]

definition heap_down :: "PriorityQueue \<Rightarrow> nat \<Rightarrow> nat \<Rightarrow> bool \<times> PriorityQueue" where
  "heap_down h i0 n = (let (h', i) = heap_down_loop h i0 n in (i > i0, h'))"

fun heap_init_loop :: "PriorityQueue \<Rightarrow> nat \<Rightarrow> nat \<Rightarrow> PriorityQueue" where
  "heap_init_loop h 0 n = h"
| "heap_init_loop h (Suc i) n = heap_init_loop (snd (heap_down h i n)) i n"

definition heap_Init :: "PriorityQueue \<Rightarrow> PriorityQueue" where
  "heap_Init h = heap_init_loop h (pq_Len h div 2) (pq_Len h)"

definition heap_Push :: "PriorityQueue \<Rightarrow> nat \<Rightarrow> PriorityQueue" where
  "heap_Push h a = (let h1 = pq_Push h a in heap_up h1 (pq_Len h1 - 1))"

definition heap_Pop :: "PriorityQueue \<Rightarrow> nat \<times> PriorityQueue" where
  "heap_Pop h = (let n = pq_Len h - 1; h1 = pq_Swap h 0 n; h2 = snd (heap_down h1 0 n) in pq_Pop h2)"

definition heap_FixAt :: "PriorityQueue \<Rightarrow> nat \<Rightarrow> nat \<Rightarrow> PriorityQueue" where
  "heap_FixAt h i n = (let (moved, h1) = heap_down h i n in if moved then h1 else heap_up h1 i)"

definition heap_Remove :: "PriorityQueue \<Rightarrow> nat \<Rightarrow> nat \<times> PriorityQueue" where
  "heap_Remove h i =
     (let n = pq_Len h - 1; h1 = (if n \<noteq> i then heap_FixAt (pq_Swap h i n) i n else h) in pq_Pop h1)"

section \<open>The exported operations\<close>

definition NewPriorityQueue :: "(nat \<Rightarrow> Item) \<Rightarrow> PriorityQueue" where
  "NewPriorityQueue st = heap_Init \<lparr>pq_items = [], pq_store = st\<rparr>"

definition PushItem :: "PriorityQueue \<Rightarrow> nat \<Rightarrow> PriorityQueue" where
  "PushItem pq item = heap_Push pq item"

definition PopItem :: "PriorityQueue \<Rightarrow> nat option \<times> PriorityQueue" where
  "PopItem pq = (if pq_Len pq = 0 then (None, pq)
                 else let (a, pq') = heap_Pop pq in (Some a, pq'))"

text \<open>
  \<open>UpdateItem\<close> at index -1 (an item that is not queued) changes nothing: \<open>down\<close> stops at a negative
  child index and \<open>up\<close> at \<open>(-1 - 1) / 2 = -1\<close>. \<open>RemoveItem\<close> at an index that is out of range panics.
\<close>

definition UpdateItem :: "PriorityQueue \<Rightarrow> nat \<Rightarrow> PriorityQueue" where
  "UpdateItem pq item =
     (let i = it_queueIndex (pq_store pq item)
      in if i < 0 then pq else heap_FixAt pq (nat i) (pq_Len pq))"

definition RemoveItem :: "PriorityQueue \<Rightarrow> nat \<Rightarrow> PriorityQueue go_result" where
  "RemoveItem pq item =
     (let i = it_queueIndex (pq_store pq item)
      in if i < 0 \<or> int (pq_Len pq) \<le> i then Inl (GoPanic ''index out of range'')
         else Inr (snd (heap_Remove pq (nat i))))"

definition pq_Min :: "PriorityQueue \<Rightarrow> nat go_result" where
  "pq_Min pq = (case pq_items pq of [] \<Rightarrow> Inl (GoPanic ''index out of range'') | a # _ \<Rightarrow> Inr a)"

text \<open>The caller's write to a field of an item it shares with the queue.\<close>

definition set_Val :: "PriorityQueue \<Rightarrow> nat \<Rightarrow> int \<Rightarrow> PriorityQueue" where
  "set_Val pq a v = pq\<lparr>pq_store := (pq_store pq)(a := (pq_store pq a)\<lparr>it_Val := v\<rparr>)\<rparr>"

section \<open>Invariants\<close>

definition pair_ok :: "PriorityQueue \<Rightarrow> nat \<Rightarrow> bool" where
  "pair_ok h k \<longleftrightarrow> pq_val h ((k - 1) div 2) \<le> pq_val h k"

definition heap_ok :: "PriorityQueue \<Rightarrow> nat \<Rightarrow> bool" where
  "heap_ok h n \<longleftrightarrow> (\<forall>k. 0 < k \<and> k < n \<longrightarrow> pair_ok h k)"

text \<open>The items are distinct objects and each knows its own position.\<close>

definition index_ok :: "PriorityQueue \<Rightarrow> bool" where
  "index_ok h \<longleftrightarrow> distinct (pq_items h) \<and>
     (\<forall>k < pq_Len h. it_queueIndex (pq_store h (pq_items h ! k)) = int k)"

definition pq_inv :: "PriorityQueue \<Rightarrow> bool" where
  "pq_inv h \<longleftrightarrow> heap_ok h (pq_Len h) \<and> index_ok h"

text \<open>\<open>hole\<close>: a heap but for the pairs at position \<open>i\<close>, whose children are not below its parent.\<close>

definition hole :: "PriorityQueue \<Rightarrow> nat \<Rightarrow> nat \<Rightarrow> bool" where
  "hole h i n \<longleftrightarrow>
     (\<forall>k. 0 < k \<and> k < n \<and> k \<noteq> i \<and> (k - 1) div 2 \<noteq> i \<longrightarrow> pair_ok h k) \<and>
     (\<forall>k. 0 < k \<and> k < n \<and> (k - 1) div 2 = i \<and> 0 < i \<longrightarrow> pq_val h ((i - 1) div 2) \<le> pq_val h k)"

section \<open>Swapping\<close>

lemma set_queueIndex_simps [simp]:
  "pq_items (set_queueIndex h a v) = pq_items h"
  "it_Val (pq_store (set_queueIndex h a v) b) = it_Val (pq_store h b)"
  "pq_val (set_queueIndex h a v) k = pq_val h k"
  by (auto simp: set_queueIndex_def pq_val_def)

lemma Swap_items: "pq_items (pq_Swap h i j) = (pq_items h)[i := pq_items h ! j, j := pq_items h ! i]"
  by (simp add: pq_Swap_def Let_def)

lemma Swap_Len [simp]: "pq_Len (pq_Swap h i j) = pq_Len h"
  by (simp add: pq_Len_def Swap_items)

lemma Swap_store_Val [simp]: "it_Val (pq_store (pq_Swap h i j) a) = it_Val (pq_store h a)"
  by (simp add: pq_Swap_def Let_def)

lemma Swap_val:
  "i < pq_Len h \<Longrightarrow> j < pq_Len h \<Longrightarrow>
   pq_val (pq_Swap h i j) k = pq_val h (if k = i then j else if k = j then i else k)"
  by (auto simp: pq_val_def Swap_items pq_Len_def nth_list_update)

lemma Swap_mset:
  "i < pq_Len h \<Longrightarrow> j < pq_Len h \<Longrightarrow> mset (pq_items (pq_Swap h i j)) = mset (pq_items h)"
  by (simp add: Swap_items pq_Len_def mset_swap)

lemma distinct_swap:
  "i < length xs \<Longrightarrow> j < length xs \<Longrightarrow> distinct (xs[i := xs ! j, j := xs ! i]) = distinct xs"
  using mset_swap [of j xs i] by (metis list_update_swap mset_eq_imp_distinct_iff)

lemma Swap_queueIndex:
  assumes "index_ok h" "i < pq_Len h" "j < pq_Len h" "k < pq_Len h"
  shows "it_queueIndex (pq_store (pq_Swap h i j) (pq_items (pq_Swap h i j) ! k)) = int k"
proof -
  define ys where "ys = (pq_items h)[i := pq_items h ! j, j := pq_items h ! i]"
  have len: "length ys = pq_Len h" by (simp add: ys_def pq_Len_def)
  have d: "distinct ys"
    using assms distinct_swap [of i "pq_items h" j] by (simp add: ys_def index_ok_def pq_Len_def)
  have eq: "ys ! k = ys ! m \<longleftrightarrow> k = m" if "m < pq_Len h" for m
    using d assms(4) that by (simp add: nth_eq_iff_index_eq len)
  have store: "pq_store (pq_Swap h i j) =
      (let s1 = (pq_store h)(ys ! i := (pq_store h (ys ! i))\<lparr>it_queueIndex := int i\<rparr>)
       in s1(ys ! j := (s1 (ys ! j))\<lparr>it_queueIndex := int j\<rparr>))"
    by (simp add: pq_Swap_def set_queueIndex_def Let_def ys_def)
  have other: "it_queueIndex (pq_store h (ys ! k)) = int k" if "k \<noteq> i" "k \<noteq> j"
    using that assms by (simp add: ys_def index_ok_def)
  have "it_queueIndex (pq_store (pq_Swap h i j) (ys ! k)) = int k"
    unfolding store using eq [OF assms(2)] eq [OF assms(3)] other by (simp add: Let_def)
  then show ?thesis by (simp add: Swap_items ys_def)
qed

lemma index_ok_Swap:
  "index_ok h \<Longrightarrow> i < pq_Len h \<Longrightarrow> j < pq_Len h \<Longrightarrow> index_ok (pq_Swap h i j)"
  unfolding index_ok_def [of "pq_Swap h i j"] Swap_Len
  by (rule conjI) (simp add: Swap_items index_ok_def pq_Len_def distinct_swap, blast intro: Swap_queueIndex)

text \<open>
  \<open>reorders h h' n\<close>: \<open>h'\<close> holds the items of \<open>h\<close> with their values, in another order below position
  \<open>n\<close>; what every sift does.
\<close>

definition reorders :: "PriorityQueue \<Rightarrow> PriorityQueue \<Rightarrow> nat \<Rightarrow> bool" where
  "reorders h h' n \<longleftrightarrow>
     mset (pq_items h') = mset (pq_items h) \<and>
     (\<forall>k \<ge> n. pq_items h' ! k = pq_items h ! k) \<and>
     (\<forall>a. it_Val (pq_store h' a) = it_Val (pq_store h a)) \<and>
     (index_ok h \<longrightarrow> index_ok h')"

lemma reorders_refl [simp]: "reorders h h n"
  by (simp add: reorders_def)

lemma reorders_trans: "reorders h1 h2 n \<Longrightarrow> reorders h2 h3 n \<Longrightarrow> reorders h1 h3 n"
  by (simp add: reorders_def)

lemma reorders_Len: "reorders h h' n \<Longrightarrow> pq_Len h' = pq_Len h"
  unfolding reorders_def pq_Len_def by (blast intro: mset_eq_length)

lemma reorders_Swap:
  "i < n \<Longrightarrow> j < n \<Longrightarrow> n \<le> pq_Len h \<Longrightarrow> reorders h (pq_Swap h i j) n"
  by (simp add: reorders_def Swap_mset index_ok_Swap) (simp add: Swap_items)

section \<open>Sifting up\<close>

definition children_ok :: "PriorityQueue \<Rightarrow> nat \<Rightarrow> nat \<Rightarrow> bool" where
  "children_ok h i n \<longleftrightarrow> (\<forall>k. 0 < k \<and> k < n \<and> (k - 1) div 2 = i \<longrightarrow> pair_ok h k)"

lemma heap_okI:
  "hole h i n \<Longrightarrow> children_ok h i n \<Longrightarrow> 0 < i \<longrightarrow> pair_ok h i \<Longrightarrow> heap_ok h n"
  unfolding heap_ok_def hole_def children_ok_def by metis

lemma parent_less: "0 < (k::nat) \<Longrightarrow> (k - 1) div 2 < k"
  by simp

lemma hole_up_step:
  assumes "hole h j n" "children_ok h j n" "0 < j" "j < n" "n \<le> pq_Len h" "pq_Less h j ((j - 1) div 2)"
  defines "i \<equiv> (j - 1) div 2"
  shows "hole (pq_Swap h i j) i n" "children_ok (pq_Swap h i j) i n"
proof -
  have ij: "i < j" using assms(3) by (simp add: i_def)
  have val: "pq_val (pq_Swap h i j) k = pq_val h (if k = i then j else if k = j then i else k)" for k
    using ij assms(4,5) by (simp add: Swap_val)
  have lt: "pq_val h j < pq_val h i" using assms(6) by (simp add: pq_Less_def i_def)
  have pairs: "pq_val h ((k - 1) div 2) \<le> pq_val h k" if "0 < k" "k < n" "k \<noteq> j" for k
    using assms(1,2) that by (auto simp: hole_def children_ok_def pair_ok_def)
  have below: "pq_val h i \<le> pq_val h k" if "0 < k" "k < n" "(k - 1) div 2 = j" for k
    using assms(1,3) that by (simp add: hole_def i_def)
  show "children_ok (pq_Swap h i j) i n"
    unfolding children_ok_def pair_ok_def val
    using pairs lt ij by (smt (verit) i_def)
  show "hole (pq_Swap h i j) i n"
    unfolding hole_def pair_ok_def val
    using pairs below lt ij parent_less by (smt (verit) i_def assms(4) order.strict_trans)
qed

lemma heap_up_ok:
  "hole h j n \<Longrightarrow> children_ok h j n \<Longrightarrow> j < n \<Longrightarrow> n \<le> pq_Len h \<Longrightarrow>
   heap_ok (heap_up h j) n \<and> reorders h (heap_up h j) n"
proof (induction h j rule: heap_up.induct)
  case (1 h j)
  let ?i = "(j - 1) div 2"
  show ?case
  proof (cases "?i = j \<or> \<not> pq_Less h j ?i")
    case True
    then have "0 < j \<longrightarrow> pair_ok h j" by (auto simp: pair_ok_def pq_Less_def)
    with True 1(2,3) show ?thesis by (simp add: heap_up.simps [of h j] heap_okI [of h j n])
  next
    case False
    then have j: "0 < j" by (cases j) auto
    from False have up: "heap_up h j = heap_up (pq_Swap h ?i j) ?i"
      by (simp add: heap_up.simps [of h j] Let_def)
    have "?i < n" using j 1(4) by simp
    moreover note hole_up_step [of h j n] j False 1
    ultimately have "heap_ok (heap_up h j) n \<and> reorders (pq_Swap h ?i j) (heap_up h j) n"
      unfolding up by auto
    then show ?thesis using reorders_Swap [of ?i n j h] \<open>?i < n\<close> 1(4,5) reorders_trans by blast
  qed
qed

section \<open>Sifting down\<close>

lemma least_child_props:
  assumes "2 * i + 1 < n"
  shows "least_child h i n < n" "i < least_child h i n" "(least_child h i n - 1) div 2 = i"
    "0 < k \<Longrightarrow> k < n \<Longrightarrow> (k - 1) div 2 = i \<Longrightarrow> pq_val h (least_child h i n) \<le> pq_val h k"
proof -
  show "least_child h i n < n" "i < least_child h i n" "(least_child h i n - 1) div 2 = i"
    using assms by (auto simp: least_child_def Let_def)
  assume "0 < k" "k < n" "(k - 1) div 2 = i"
  then have "k = 2 * i + 1 \<or> k = 2 * i + 2" by presburger
  then show "pq_val h (least_child h i n) \<le> pq_val h k"
    using \<open>k < n\<close> by (auto simp: least_child_def Let_def pq_Less_def)
qed

lemma hole_down_step:
  assumes "hole h i n" "2 * i + 1 < n" "n \<le> pq_Len h" "pq_Less h (least_child h i n) i"
  defines "j \<equiv> least_child h i n"
  shows "hole (pq_Swap h i j) j n" "pair_ok (pq_Swap h i j) j"
proof -
  note c = least_child_props [OF assms(2), where h = h, folded j_def]
  have val: "pq_val (pq_Swap h i j) k = pq_val h (if k = i then j else if k = j then i else k)" for k
    using c(1,2) assms(3) by (simp add: Swap_val)
  have lt: "pq_val h j < pq_val h i" using assms(4) by (simp add: pq_Less_def j_def)
  show "pair_ok (pq_Swap h i j) j"
    unfolding pair_ok_def val c(3) using c(2) lt by simp
  have pairs: "pq_val h ((k - 1) div 2) \<le> pq_val h k" if "0 < k" "k < n" "k \<noteq> i" "(k - 1) div 2 \<noteq> i" for k
    using assms(1) that by (auto simp: hole_def pair_ok_def)
  have top: "pq_val h ((i - 1) div 2) \<le> pq_val h j" if "0 < i"
    using assms(1) that c(1,2,3) by (simp add: hole_def)
  have up: "pq_val (pq_Swap h i j) ((k - 1) div 2) \<le> pq_val (pq_Swap h i j) k"
    if k: "0 < k" "k < n" "k \<noteq> j" "(k - 1) div 2 \<noteq> j" for k
  proof (cases "k = i")
    case True
    then have "(k - 1) div 2 < i" using k parent_less [of i] by simp
    then show ?thesis unfolding val using k top True by simp
  next
    case False
    then show ?thesis unfolding val using k pairs [of k] c(4) [of k] by simp
  qed
  have down: "pq_val h j \<le> pq_val h k" if "0 < k" "k < n" "(k - 1) div 2 = j" for k
    using pairs [of k] that c(2) parent_less [of k] by simp
  show "hole (pq_Swap h i j) j n"
    unfolding hole_def pair_ok_def c(3)
  proof (intro conjI allI impI)
    fix k assume k: "0 < k \<and> k < n \<and> (k - 1) div 2 = j \<and> 0 < j"
    then have "j < k" using parent_less [of k] by simp
    then show "pq_val (pq_Swap h i j) i \<le> pq_val (pq_Swap h i j) k"
      unfolding val using c(2) down [of k] k by simp
  qed (use up in simp)
qed

lemma heap_down_loop_ok:
  "hole h i n \<Longrightarrow> n \<le> pq_Len h \<Longrightarrow> heap_down_loop h i n = (h', i') \<Longrightarrow>
   hole h' i' n \<and> children_ok h' i' n \<and> reorders h h' n \<and> i \<le> i' \<and>
   (if i' = i then h' = h else pair_ok h' i')"
proof (induction h i n rule: heap_down_loop.induct)
  case (1 h i n)
  let ?j = "least_child h i n"
  consider "2 * i + 1 \<ge> n" | "2 * i + 1 < n" "\<not> pq_Less h ?j i" | "2 * i + 1 < n" "pq_Less h ?j i"
    by linarith
  then show ?case
  proof cases
    case 1
    have "children_ok h i n" using 1 by (auto simp: children_ok_def)
    then show ?thesis using "1.prems" 1 by (simp add: heap_down_loop.simps [of h i n])
  next
    case 2
    have "children_ok h i n"
      unfolding children_ok_def pair_ok_def
    proof (intro allI impI)
      fix k assume k: "0 < k \<and> k < n \<and> (k - 1) div 2 = i"
      then have "pq_val h ?j \<le> pq_val h k" using least_child_props(4) [OF 2(1), of k h] by blast
      then show "pq_val h ((k - 1) div 2) \<le> pq_val h k" using 2(2) k by (simp add: pq_Less_def)
    qed
    then show ?thesis using "1.prems" 2 by (simp add: heap_down_loop.simps [of h i n])
  next
    case 3
    note c = least_child_props [OF 3(1), where h = h] and step = hole_down_step [OF "1.prems"(1) 3(1) "1.prems"(2) 3(2)]
    have "heap_down_loop (pq_Swap h i ?j) ?j n = (h', i')"
      using "1.prems"(3) 3 by (simp add: heap_down_loop.simps [of h i n] Let_def)
    with "1.IH" 3 step "1.prems"(2)
    have ih: "hole h' i' n \<and> children_ok h' i' n \<and> reorders (pq_Swap h i ?j) h' n \<and> ?j \<le> i' \<and>
        (if i' = ?j then h' = pq_Swap h i ?j else pair_ok h' i')" by simp
    moreover have "reorders h (pq_Swap h i ?j) n"
      using reorders_Swap [of i n ?j h] c(1,2) "1.prems"(2) by simp
    ultimately show ?thesis using c(2) step(2) reorders_trans by (auto split: if_splits)
  qed
qed

lemma heap_down_ok:
  assumes "hole h i n" "n \<le> pq_Len h" "heap_down h i n = (moved, h')"
  shows "reorders h h' n" "moved \<Longrightarrow> heap_ok h' n" "\<not> moved \<Longrightarrow> h' = h \<and> children_ok h i n"
proof -
  obtain i' where l: "heap_down_loop h i n = (h', i')" "moved = (i < i')"
    using assms(3) by (auto simp: heap_down_def split: prod.splits)
  note ok = heap_down_loop_ok [OF assms(1,2) l(1)]
  show "reorders h h' n" using ok by simp
  show "heap_ok h' n" if moved using that l(2) ok heap_okI [of h' i' n] by simp
  show "h' = h \<and> children_ok h i n" if "\<not> moved" using that l(2) ok by auto
qed

lemma heap_FixAt_ok:
  assumes "hole h i n" "i < n" "n \<le> pq_Len h"
  shows "heap_ok (heap_FixAt h i n) n \<and> reorders h (heap_FixAt h i n) n"
proof -
  obtain moved h' where d: "heap_down h i n = (moved, h')" by (cases "heap_down h i n")
  note ok = heap_down_ok [OF assms(1,3) d]
  show ?thesis
  proof (cases moved)
    case True
    then show ?thesis using ok by (simp add: heap_FixAt_def d)
  next
    case False
    then show ?thesis using ok(3) heap_up_ok [OF assms(1) _ assms(2,3)] by (simp add: heap_FixAt_def d)
  qed
qed

lemma heap_ok_trans:
  assumes "heap_ok h n" "0 < i" "k < n" "0 < k" "(k - 1) div 2 = i"
  shows "pq_val h ((i - 1) div 2) \<le> pq_val h k"
proof -
  have "i < n" using assms(3-5) by simp
  then have "pq_val h ((i - 1) div 2) \<le> pq_val h i" "pq_val h i \<le> pq_val h k"
    using assms by (auto simp: heap_ok_def pair_ok_def)
  then show ?thesis by simp
qed

text \<open>Changing the value at one position of a heap leaves a hole there.\<close>

lemma hole_changed:
  assumes "heap_ok h n" "\<And>k. k < n \<Longrightarrow> k \<noteq> i \<Longrightarrow> pq_val h' k = pq_val h k" "i < n"
  shows "hole h' i n"
  unfolding hole_def
proof (intro conjI allI impI)
  fix k assume "0 < k \<and> k < n \<and> k \<noteq> i \<and> (k - 1) div 2 \<noteq> i"
  moreover from this have "(k - 1) div 2 < n" using parent_less [of k] by linarith
  ultimately show "pair_ok h' k" using assms(1,2) by (simp add: heap_ok_def pair_ok_def)
next
  fix k assume k: "0 < k \<and> k < n \<and> (k - 1) div 2 = i \<and> 0 < i"
  then have "(i - 1) div 2 < i" "i < k" using parent_less by blast+
  then show "pq_val h' ((i - 1) div 2) \<le> pq_val h' k"
    using heap_ok_trans [OF assms(1)] assms(2,3) k by simp
qed

section \<open>The operations\<close>

lemma heap_root_min: "heap_ok h n \<Longrightarrow> k < n \<Longrightarrow> pq_val h 0 \<le> pq_val h k"
proof (induction k rule: less_induct)
  case (less k)
  show ?case
  proof (cases "k = 0")
    case False
    then have "pq_val h 0 \<le> pq_val h ((k - 1) div 2)" using less parent_less [of k] by simp
    also have "\<dots> \<le> pq_val h k" using less.prems False by (simp add: heap_ok_def pair_ok_def)
    finally show ?thesis .
  qed simp
qed

lemma heap_ok_cong:
  "heap_ok h n \<Longrightarrow> (\<And>k. k < n \<Longrightarrow> pq_val h' k = pq_val h k) \<Longrightarrow> heap_ok h' n"
  using parent_less by (fastforce simp: heap_ok_def pair_ok_def)

text \<open>What \<open>Pop\<close> of \<open>heap.Interface\<close> does to a queue whose first \<open>n\<close> of \<open>n + 1\<close> positions are a heap.\<close>

lemma pq_Pop_ok:
  assumes "heap_ok h n" "index_ok h" "pq_Len h = Suc n" "pq_Pop h = (a, h')"
  shows "pq_inv h'" "a = pq_items h ! n" "mset (pq_items h) = add_mset a (mset (pq_items h'))"
    "it_queueIndex (pq_store h' a) = -1" "\<And>b. it_Val (pq_store h' b) = it_Val (pq_store h b)"
proof -
  have ne: "pq_items h \<noteq> []" and len: "length (pq_items h) = Suc n"
    using assms(3) by (auto simp: pq_Len_def)
  have a: "a = last (pq_items h)" and items: "pq_items h' = butlast (pq_items h)"
    and st: "pq_store h' = (pq_store h)(a := (pq_store h a)\<lparr>it_queueIndex := -1\<rparr>)"
    using assms(4) by (auto simp: pq_Pop_def Let_def set_queueIndex_def)
  show "a = pq_items h ! n" using a ne len by (simp add: last_conv_nth)
  show "it_queueIndex (pq_store h' a) = -1" by (simp add: st)
  show val: "it_Val (pq_store h' b) = it_Val (pq_store h b)" for b by (simp add: st)
  have split: "pq_items h = pq_items h' @ [a]" using ne by (simp add: a items)
  then show "mset (pq_items h) = add_mset a (mset (pq_items h'))" by simp
  have len': "length (pq_items h') = n" using len split by simp
  have nth: "pq_items h ! k = pq_items h' ! k" if "k < n" for k
    using that len' by (simp add: split nth_append)
  have "heap_ok h' n"
    using assms(1) by (rule heap_ok_cong) (simp add: pq_val_def val nth)
  moreover have "a \<notin> set (pq_items h')" "distinct (pq_items h')"
    using assms(2) by (auto simp: index_ok_def split)
  then have "index_ok h'"
    using assms(2,3) len' nth unfolding index_ok_def pq_Len_def st
    by (metis fun_upd_apply less_Suc_eq nth_mem)
  ultimately show "pq_inv h'" by (simp add: pq_inv_def pq_Len_def len')
qed

lemma heap_Remove_ok:
  assumes "pq_inv h" "i < pq_Len h" "heap_Remove h i = (a, h')"
  shows "pq_inv h'" "a = pq_items h ! i" "mset (pq_items h) = add_mset a (mset (pq_items h'))"
    "it_queueIndex (pq_store h' a) = -1" "\<And>b. it_Val (pq_store h' b) = it_Val (pq_store h b)"
proof -
  define n where "n = pq_Len h - 1"
  have n: "pq_Len h = Suc n" using assms(2) by (simp add: n_def)
  define h1 where "h1 = (if n \<noteq> i then heap_FixAt (pq_Swap h i n) i n else h)"
  have pop: "pq_Pop h1 = (a, h')" using assms(3) unfolding heap_Remove_def Let_def h1_def n_def .
  have heap: "heap_ok h (Suc n)" and idx: "index_ok h" using assms(1) n by (auto simp: pq_inv_def)
  then have heap_n: "heap_ok h n" by (simp add: heap_ok_def)
  have h1: "heap_ok h1 n \<and> index_ok h1 \<and> pq_Len h1 = Suc n \<and> pq_items h1 ! n = pq_items h ! i \<and>
      mset (pq_items h1) = mset (pq_items h) \<and> (\<forall>b. it_Val (pq_store h1 b) = it_Val (pq_store h b))"
  proof (cases "n = i")
    case True
    then show ?thesis using heap_n idx n by (simp add: h1_def)
  next
    case False
    then have i: "i < n" using assms(2) n by simp
    have "hole (pq_Swap h i n) i n"
      by (rule hole_changed [OF heap_n _ i]) (use i n in \<open>simp add: Swap_val\<close>)
    then have fix_ok: "heap_ok h1 n \<and> reorders (pq_Swap h i n) h1 n"
      using heap_FixAt_ok [of "pq_Swap h i n" i n] i n False by (simp add: h1_def)
    moreover have "index_ok (pq_Swap h i n)" using idx i n by (simp add: index_ok_Swap)
    moreover have "pq_items (pq_Swap h i n) ! n = pq_items h ! i"
      using i n by (simp add: Swap_items pq_Len_def)
    moreover have "mset (pq_items (pq_Swap h i n)) = mset (pq_items h)"
      using i n by (simp add: Swap_mset)
    ultimately show ?thesis using reorders_Len [of "pq_Swap h i n" h1 n] n by (simp add: reorders_def)
  qed
  then have p: "heap_ok h1 n" "index_ok h1" "pq_Len h1 = Suc n" by auto
  show "pq_inv h'" "a = pq_items h ! i" "mset (pq_items h) = add_mset a (mset (pq_items h'))"
    "it_queueIndex (pq_store h' a) = -1" "\<And>b. it_Val (pq_store h' b) = it_Val (pq_store h b)"
    using pq_Pop_ok [OF p pop] h1 by simp_all
qed

text \<open>\<open>heap.Pop\<close> is \<open>heap.Remove\<close> at the root.\<close>

lemma heap_up_root [simp]: "heap_up h 0 = h"
  by (simp add: heap_up.simps)

lemma set_queueIndex_same [simp]: "set_queueIndex h a (it_queueIndex (pq_store h a)) = h"
  by (simp add: set_queueIndex_def)

lemma Swap_root:
  assumes "index_ok h" "pq_Len h \<noteq> 0" shows "pq_Swap h 0 0 = h"
proof -
  have "it_queueIndex (pq_store h (pq_items h ! 0)) = 0" using assms by (simp add: index_ok_def)
  then show ?thesis
    using set_queueIndex_same [of h "pq_items h ! 0"] by (simp add: pq_Swap_def Let_def)
qed

lemma heap_Pop_eq_Remove:
  assumes "index_ok h" "pq_Len h \<noteq> 0" shows "heap_Pop h = heap_Remove h 0"
proof (cases "pq_Len h = 1")
  case True
  have "heap_down_loop h 0 0 = (h, 0)" by (simp add: heap_down_loop.simps)
  then show ?thesis using True Swap_root [OF assms]
    by (simp add: heap_Pop_def heap_Remove_def heap_down_def)
next
  case False
  then show ?thesis using assms(2)
    by (auto simp: heap_Pop_def heap_Remove_def heap_FixAt_def Let_def split: prod.splits)
qed

lemma NewPriorityQueue_eq: "NewPriorityQueue st = \<lparr>pq_items = [], pq_store = st\<rparr>"
  by (simp add: NewPriorityQueue_def heap_Init_def pq_Len_def)

lemma New_inv [inv_intros]: "pq_inv (NewPriorityQueue st)"
  by (simp add: NewPriorityQueue_eq pq_inv_def heap_ok_def index_ok_def pq_Len_def)

lemma pq_Push_props:
  assumes "pq_inv h" "a \<notin> set (pq_items h)"
  shows "pq_items (pq_Push h a) = pq_items h @ [a]" "index_ok (pq_Push h a)"
    "\<And>k. k < pq_Len h \<Longrightarrow> pq_val (pq_Push h a) k = pq_val h k"
    "\<And>b. it_Val (pq_store (pq_Push h a) b) = it_Val (pq_store h b)"
proof -
  show items: "pq_items (pq_Push h a) = pq_items h @ [a]"
    by (simp add: pq_Push_def Let_def)
  have st: "pq_store (pq_Push h a) = (pq_store h)(a := (pq_store h a)\<lparr>it_queueIndex := int (pq_Len h)\<rparr>)"
    by (simp add: pq_Push_def Let_def set_queueIndex_def pq_Len_def)
  show val: "it_Val (pq_store (pq_Push h a) b) = it_Val (pq_store h b)" for b by (simp add: st)
  show "pq_val (pq_Push h a) k = pq_val h k" if "k < pq_Len h" for k
    using that by (simp add: pq_val_def val items nth_append pq_Len_def)
  have "it_queueIndex (pq_store (pq_Push h a) ((pq_items h @ [a]) ! k)) = int k"
    if "k < Suc (pq_Len h)" for k
  proof (cases "k = pq_Len h")
    case False
    then have "k < pq_Len h" using that by simp
    then have "pq_items h ! k \<noteq> a" using assms(2) by (auto simp: pq_Len_def)
    then show ?thesis using \<open>k < pq_Len h\<close> assms(1)
      by (simp add: st nth_append pq_inv_def index_ok_def pq_Len_def)
  qed (simp add: st pq_Len_def)
  then show "index_ok (pq_Push h a)"
    using assms by (simp add: index_ok_def items pq_Len_def pq_inv_def)
qed

lemma PushItem_ok:
  assumes "pq_inv h" "a \<notin> set (pq_items h)"
  shows "pq_inv (PushItem h a)" "mset (pq_items (PushItem h a)) = add_mset a (mset (pq_items h))"
    "\<And>b. it_Val (pq_store (PushItem h a) b) = it_Val (pq_store h b)"
proof -
  let ?h = "pq_Push h a" and ?n = "pq_Len h"
  note p = pq_Push_props [OF assms]
  have len: "pq_Len ?h = Suc ?n" by (simp add: p(1) pq_Len_def)
  have push: "PushItem h a = heap_up ?h ?n" by (simp add: PushItem_def heap_Push_def len)
  have "hole ?h ?n (Suc ?n)" "children_ok ?h ?n (Suc ?n)"
  proof -
    have "pair_ok ?h k" if "0 < k" "k < ?n" for k
      using that assms(1) p(3) parent_less [of k] by (simp add: pair_ok_def pq_inv_def heap_ok_def)
    moreover have "(k - 1) div 2 \<noteq> ?n" if "0 < k" "k < Suc ?n" for k using that by simp
    ultimately show "hole ?h ?n (Suc ?n)" "children_ok ?h ?n (Suc ?n)"
      by (auto simp: hole_def children_ok_def less_Suc_eq)
  qed
  from heap_up_ok [OF this] len
  have ok: "heap_ok (PushItem h a) (Suc ?n)" "reorders ?h (PushItem h a) (Suc ?n)"
    by (simp_all add: push)
  then show "pq_inv (PushItem h a)"
    using reorders_Len [OF ok(2)] p(2) len by (simp add: pq_inv_def reorders_def)
  show "mset (pq_items (PushItem h a)) = add_mset a (mset (pq_items h))"
    "\<And>b. it_Val (pq_store (PushItem h a) b) = it_Val (pq_store h b)"
    using ok(2) p by (simp_all add: reorders_def)
qed

lemma PopItem_none: "fst (PopItem h) = None \<longleftrightarrow> pq_items h = []"
  by (simp add: PopItem_def pq_Len_def split: prod.splits)

lemma PopItem_empty: "pq_items h = [] \<Longrightarrow> PopItem h = (None, h)"
  by (simp add: PopItem_def pq_Len_def)

lemma PopItem_ok:
  assumes "pq_inv h" "PopItem h = (Some a, h')"
  shows "pq_inv h'" "mset (pq_items h) = add_mset a (mset (pq_items h'))"
    "\<And>b. b \<in> set (pq_items h) \<Longrightarrow> it_Val (pq_store h a) \<le> it_Val (pq_store h b)"
    "it_queueIndex (pq_store h' a) = -1" "\<And>b. it_Val (pq_store h' b) = it_Val (pq_store h b)"
proof -
  have ne: "pq_Len h \<noteq> 0" and idx: "index_ok h"
    using assms by (auto simp: PopItem_def pq_inv_def split: if_splits prod.splits)
  then have r: "heap_Remove h 0 = (a, h')"
    using assms(2) heap_Pop_eq_Remove [OF idx ne] by (auto simp: PopItem_def split: prod.splits)
  note ok = heap_Remove_ok [OF assms(1) _ r]
  show "pq_inv h'" "mset (pq_items h) = add_mset a (mset (pq_items h'))"
    "it_queueIndex (pq_store h' a) = -1" "\<And>b. it_Val (pq_store h' b) = it_Val (pq_store h b)"
    using ok ne by simp_all
  fix b assume "b \<in> set (pq_items h)"
  then obtain k where k: "k < pq_Len h" "b = pq_items h ! k" by (auto simp: in_set_conv_nth pq_Len_def)
  then show "it_Val (pq_store h a) \<le> it_Val (pq_store h b)"
    using heap_root_min [of h "pq_Len h" k] assms(1) ok(2) ne by (simp add: pq_inv_def pq_val_def)
qed

lemma queued_index:
  assumes "index_ok h" "a \<in> set (pq_items h)"
  obtains i where "i < pq_Len h" "pq_items h ! i = a" "it_queueIndex (pq_store h a) = int i"
  using assms by (auto simp: in_set_conv_nth index_ok_def pq_Len_def)

lemma set_Val_simps [simp]:
  "pq_items (set_Val h a v) = pq_items h" "pq_Len (set_Val h a v) = pq_Len h"
  "it_queueIndex (pq_store (set_Val h a v) b) = it_queueIndex (pq_store h b)"
  by (auto simp: set_Val_def pq_Len_def)

lemma index_ok_set_Val [simp]: "index_ok (set_Val h a v) = index_ok h"
  by (simp add: index_ok_def)

lemma UpdateItem_ok:
  assumes "pq_inv h" "a \<in> set (pq_items h)"
  shows "pq_inv (UpdateItem (set_Val h a v) a) \<and>
    mset (pq_items (UpdateItem (set_Val h a v) a)) = mset (pq_items h)"
proof -
  let ?h = "set_Val h a v" and ?n = "pq_Len h"
  have idx: "index_ok h" and heap: "heap_ok h ?n" using assms(1) by (auto simp: pq_inv_def)
  then obtain i where i: "i < ?n" "pq_items h ! i = a" "it_queueIndex (pq_store h a) = int i"
    using assms(2) by (blast elim: queued_index)
  have "pq_items h ! k \<noteq> a" if "k < ?n" "k \<noteq> i" for k
    using idx i that by (auto simp: index_ok_def pq_Len_def nth_eq_iff_index_eq)
  then have "hole ?h i ?n"
    by (intro hole_changed [OF heap _ i(1)]) (auto simp: pq_val_def set_Val_def)
  from heap_FixAt_ok [OF this i(1)]
  have ok: "heap_ok (heap_FixAt ?h i ?n) ?n" "reorders ?h (heap_FixAt ?h i ?n) ?n" by auto
  then show ?thesis using reorders_Len [OF ok(2)] idx
    by (simp add: UpdateItem_def i(3) pq_inv_def reorders_def)
qed

section \<open>The contract of a minimum queue\<close>

text \<open>
  What a user of the queue relies on: the laws of \<open>push\<close> and \<open>pop\<close> over the multiset of queued
  items. Draining such a queue yields its items in ascending order of their values.
\<close>

fun drain :: "('q \<Rightarrow> 'a option \<times> 'q) \<Rightarrow> nat \<Rightarrow> 'q \<Rightarrow> 'a list \<times> 'q" where
  "drain pop 0 q = ([], q)"
| "drain pop (Suc n) q =
     (case pop q of (None, q') \<Rightarrow> ([], q')
      | (Some a, q') \<Rightarrow> (let (as, q'') = drain pop n q' in (a # as, q'')))"

locale min_queue =
  fixes qinv :: "'q \<Rightarrow> bool" and items :: "'q \<Rightarrow> 'a multiset" and value_of :: "'q \<Rightarrow> 'a \<Rightarrow> int"
    and push :: "'q \<Rightarrow> 'a \<Rightarrow> 'q" and pop :: "'q \<Rightarrow> 'a option \<times> 'q"
  assumes push_law: "qinv q \<Longrightarrow> a \<notin># items q \<Longrightarrow>
      qinv (push q a) \<and> items (push q a) = add_mset a (items q) \<and> value_of (push q a) = value_of q"
    and pop_none: "pop q = (None, q') \<Longrightarrow> items q = {#} \<and> q' = q"
    and pop_some: "qinv q \<Longrightarrow> pop q = (Some a, q') \<Longrightarrow>
      qinv q' \<and> items q = add_mset a (items q') \<and> value_of q' = value_of q \<and>
      (\<forall>b \<in># items q. value_of q a \<le> value_of q b)"
begin

lemma drain_sorted:
  "qinv q \<Longrightarrow> drain pop n q = (as, q') \<Longrightarrow> size (items q) \<le> n \<Longrightarrow>
   mset as = items q \<and> items q' = {#} \<and> qinv q' \<and> sorted (map (value_of q) as)"
proof (induction n arbitrary: q as q')
  case 0
  then show ?case by simp
next
  case (Suc n)
  show ?case
  proof (cases "pop q")
    case (Pair r q1)
    show ?thesis
    proof (cases r)
      case None
      then show ?thesis using Pair Suc.prems pop_none [of q q1] by simp
    next
      case (Some a)
      with Pair pop_some Suc.prems(1)
      have p: "qinv q1" "items q = add_mset a (items q1)" "value_of q1 = value_of q"
        "\<forall>b \<in># items q. value_of q a \<le> value_of q b" by auto
      obtain bs q2 where d: "drain pop n q1 = (bs, q2)" by (cases "drain pop n q1")
      then have "as = a # bs" "q' = q2" using Suc.prems(2) Pair Some by auto
      moreover have "mset bs = items q1 \<and> items q2 = {#} \<and> qinv q2 \<and> sorted (map (value_of q1) bs)"
        using Suc.IH [OF p(1) d] p(2) Suc.prems(3) by simp
      moreover from this have "set bs = set_mset (items q1)" by (metis set_mset_mset)
      ultimately show ?thesis using p by simp
    qed
  qed
qed

lemma pushes_law:
  "qinv q \<Longrightarrow> distinct as \<Longrightarrow> set as \<inter> set_mset (items q) = {} \<Longrightarrow>
   qinv (foldl push q as) \<and> items (foldl push q as) = items q + mset as \<and>
   value_of (foldl push q as) = value_of q"
proof (induction as arbitrary: q)
  case (Cons a as)
  then have "qinv (push q a) \<and> items (push q a) = add_mset a (items q) \<and> value_of (push q a) = value_of q"
    by (intro push_law) auto
  then show ?case using Cons.IH [of "push q a"] Cons.prems by simp
qed simp

end

interpretation mq: min_queue pq_inv "\<lambda>h. mset (pq_items h)" "\<lambda>h a. it_Val (pq_store h a)" PushItem PopItem
proof
  fix h h' :: PriorityQueue and a
  show "pq_inv h \<Longrightarrow> a \<notin># mset (pq_items h) \<Longrightarrow>
      pq_inv (PushItem h a) \<and> mset (pq_items (PushItem h a)) = add_mset a (mset (pq_items h)) \<and>
      (\<lambda>b. it_Val (pq_store (PushItem h a) b)) = (\<lambda>b. it_Val (pq_store h b))"
    using PushItem_ok [of h a] by simp
  show "PopItem h = (None, h') \<Longrightarrow> mset (pq_items h) = {#} \<and> h' = h"
    using PopItem_none [of h] PopItem_empty [of h] by auto
  show "pq_inv h \<Longrightarrow> PopItem h = (Some a, h') \<Longrightarrow>
      pq_inv h' \<and> mset (pq_items h) = add_mset a (mset (pq_items h')) \<and>
      (\<lambda>b. it_Val (pq_store h' b)) = (\<lambda>b. it_Val (pq_store h b)) \<and>
      (\<forall>b \<in># mset (pq_items h). it_Val (pq_store h a) \<le> it_Val (pq_store h b))"
    using PopItem_ok [of h a h'] set_mset_mset [of "pq_items h"] by blast
qed

section \<open>Properties\<close>

text \<open>
  C19. Pushing distinct items onto a new queue and popping until it is empty returns exactly the pushed
  items, in ascending order of their values, whatever the order of the pushes.
\<close>

theorem priority_order:
  assumes "distinct as" and "drain PopItem (length as) (foldl PushItem (NewPriorityQueue st) as) = (bs, q')"
  shows "mset bs = mset as \<and> sorted (map (\<lambda>a. it_Val (st a)) bs) \<and> pq_items q' = []"
proof -
  let ?n = "NewPriorityQueue st" and ?q = "foldl PushItem (NewPriorityQueue st) as"
  have "pq_inv ?q" "mset (pq_items ?q) = mset as" "(\<lambda>a. it_Val (pq_store ?q a)) = (\<lambda>a. it_Val (st a))"
    using mq.pushes_law [of ?n as] New_inv [of st] assms(1) by (auto simp: NewPriorityQueue_eq)
  with mq.drain_sorted [OF _ assms(2)] show ?thesis by simp
qed

definition store_312 :: "nat \<Rightarrow> Item" where
  "store_312 a = \<lparr>it_Val = [3, 1, 2] ! a, it_Index = int a, it_queueIndex = -1\<rparr>"

theorem priority_order_witness:
  "mset (fst (drain PopItem 3 (foldl PushItem (NewPriorityQueue store_312) [0, 1, 2]))) = mset [0, 1, 2]"
  using priority_order [of "[0, 1, 2]" store_312, OF _ surjective_pairing]
  by (simp add: numeral_3_eq_3 del: drain.simps foldl_Cons)

text \<open>
  After the value of a queued item was changed through its pointer, \<open>UpdateItem\<close> restores the heap order
  and the positions recorded in the items, and loses no item; \<open>RemoveItem\<close> of a queued item takes out
  exactly that item, keeps the invariant and marks it as not queued, while removing an item that
  is not queued panics.
\<close>

theorem item_handles:
  assumes "pq_inv h"
  shows "(a \<in> set (pq_items h) \<longrightarrow>
        pq_inv (UpdateItem (set_Val h a v) a) \<and>
        mset (pq_items (UpdateItem (set_Val h a v) a)) = mset (pq_items h) \<and>
        (\<exists>h'. RemoveItem h a = Inr h' \<and> pq_inv h' \<and> it_queueIndex (pq_store h' a) = -1 \<and>
          mset (pq_items h) = add_mset a (mset (pq_items h')))) \<and>
    (it_queueIndex (pq_store h a) = -1 \<longrightarrow> RemoveItem h a = Inl (GoPanic ''index out of range''))"
proof -
  have "\<exists>h'. RemoveItem h a = Inr h' \<and> pq_inv h' \<and> it_queueIndex (pq_store h' a) = -1 \<and>
      mset (pq_items h) = add_mset a (mset (pq_items h'))" if "a \<in> set (pq_items h)"
  proof -
    from that obtain i where i: "i < pq_Len h" "pq_items h ! i = a" "it_queueIndex (pq_store h a) = int i"
      using assms by (auto simp: pq_inv_def elim: queued_index)
    obtain b h' where r: "heap_Remove h i = (b, h')" by (cases "heap_Remove h i")
    show ?thesis using heap_Remove_ok [OF assms i(1) r] i r by (simp add: RemoveItem_def)
  qed
  then show ?thesis using UpdateItem_ok [OF assms, of a v] by (simp add: RemoveItem_def)
qed

theorem item_handles_witness:
  "pq_inv (UpdateItem (set_Val (PushItem (NewPriorityQueue store_312) 0) 0 7) 0)"
proof -
  have "0 \<in># mset (pq_items (PushItem (NewPriorityQueue store_312) 0))"
    using PushItem_ok(2) [OF New_inv, of 0 store_312] by (simp add: NewPriorityQueue_eq)
  then show ?thesis
    using item_handles [of "PushItem (NewPriorityQueue store_312) 0" 0 7]
      PushItem_ok(1) [OF New_inv, of 0 store_312] by (simp add: NewPriorityQueue_eq)
qed

end
