(* ===== verification/Xconfig.thy ===== *)
theory Xconfig
  imports Prelude
begin

text \<open>
  The configuration structures of \<open>pkg/config/types.go\<close>, the names of \<open>pkg/constants/types.go\<close>
  the other theories use, and the default configurations that \<open>config.New\<close> builds for the broker
  and for the proxy (\<open>internal/broker/config\<close>, \<open>internal/proxy/config\<close>), with the sync.Once loader
  both packages share. A \<open>time.Duration\<close> is an \<^typ>\<open>int\<close> counting nanoseconds.
\<close>

type_synonym duration = int

section \<open>Constants\<close>

definition DefaultServiceGroup :: string where
  "DefaultServiceGroup = ''default''"

definition DefaultBrokerContainerPort :: string where
  "DefaultBrokerContainerPort = ''15050''"

definition DefaultProxyContainerPort :: string where
  "DefaultProxyContainerPort = ''15051''"

definition DefaultMetricPort :: int where
  "DefaultMetricPort = 5501"

definition time_Second :: duration where
  "time_Second = 1000000000"

definition DefaultInterval :: duration where
  "DefaultInterval = 60 * time_Second"

definition ServiceGroupHeader :: string where
  "ServiceGroupHeader = ''X-Service-Group''"

definition ServiceGroupContext :: string where
  "ServiceGroupContext = ''x-service-group''"

definition TooManyRequestsCode :: nat where
  "TooManyRequestsCode = 429"

definition GRPCEndpoint :: string where
  "GRPCEndpoint = ''grpc''"

definition HTTPEndpoint :: string where
  "HTTPEndpoint = ''http''"

lemmas const_defs =
  DefaultServiceGroup_def DefaultBrokerContainerPort_def DefaultProxyContainerPort_def
  DefaultMetricPort_def time_Second_def DefaultInterval_def ServiceGroupHeader_def
  ServiceGroupContext_def TooManyRequestsCode_def GRPCEndpoint_def HTTPEndpoint_def

section \<open>Configuration structures\<close>

record HTTPConfig =
  http_DialTimeout :: duration
  http_KeepAlive :: duration
  http_HeaderTimeout :: duration
  http_IdleConnTimeout :: duration
  http_MaxIdleConns :: int
  http_MaxConnsPerHost :: int
  http_ReadTimeout :: duration
  http_WriteTimeout :: duration

record GRPCConfig =
  grpc_BackendAddr :: string
  grpc_DialTimeout :: duration
  grpc_BackoffMaxDelay :: duration
  grpc_KeepAlive :: duration
  grpc_KeepAliveTimeout :: duration
  grpc_RequestIdleTime :: duration
  grpc_RequestMaxLife :: duration
  grpc_ReuseConnection :: bool
  grpc_ConnectionNum :: int32
  grpc_InitialWindowSize :: int32
  grpc_InitialConnWindowSize :: int32
  grpc_MaxSendMsgSize :: int
  grpc_MaxRecvMsgSize :: int
  grpc_AcquireConnTimeout :: duration

record MeshProxy =
  mp_Addr :: string
  mp_Type :: string
  mp_HTTP :: HTTPConfig
  mp_GRPC :: GRPCConfig

record MeshServer =
  ms_Addr :: string
  ms_Type :: string
  ms_HTTP :: HTTPConfig
  ms_GRPC :: GRPCConfig
  ms_WorkPoolSize :: int

record BaseConfig =
  bc_ProfPathPrefix :: string
  bc_LogLevel :: string
  bc_ProfEnable :: bool

record Schedule =
  sch_Method :: string
  sch_EnableFlowControl :: bool

record ServiceGroup =
  sg_Name :: string
  sg_Reclaimable :: bool
  sg_Weight :: int32

definition ServiceGroup_ResourceName :: "ServiceGroup \<Rightarrow> string" where
  "ServiceGroup_ResourceName sg = sg_Name sg"

record QueueConfig =
  qc_Size :: int

record PromMetrics =
  pm_Addr :: string
  pm_ScrapeInterval :: duration
  pm_RemoteWriteURL :: string

record BrokerConfig =
  cfg_BaseOptions :: BaseConfig
  cfg_Broker :: MeshServer
  cfg_Schedule :: Schedule
  cfg_Queue :: QueueConfig
  cfg_ServiceGroups :: "ServiceGroup list"
  cfg_PromMetrics :: PromMetrics

record ProxyConfig =
  pcfg_BaseOptions :: BaseConfig
  pcfg_Proxy :: MeshProxy
  pcfg_ServiceGroup :: ServiceGroup

section \<open>Default configurations\<close>

definition default_BaseConfig :: BaseConfig where
  "default_BaseConfig = \<lparr>bc_ProfPathPrefix = ''debug'', bc_LogLevel = ''info'', bc_ProfEnable = False\<rparr>"

definition default_HTTPConfig :: HTTPConfig where
  "default_HTTPConfig =
     \<lparr>http_DialTimeout = time_Second * 30, http_KeepAlive = time_Second * 30,
      http_HeaderTimeout = time_Second * 20, http_IdleConnTimeout = time_Second * 120,
      http_MaxIdleConns = 1000, http_MaxConnsPerHost = 1000,
      http_ReadTimeout = time_Second * 30, http_WriteTimeout = time_Second * 30\<rparr>"

definition default_GRPCConfig :: GRPCConfig where
  "default_GRPCConfig =
     \<lparr>grpc_BackendAddr = [], grpc_DialTimeout = time_Second * 30,
      grpc_BackoffMaxDelay = time_Second * 30, grpc_KeepAlive = time_Second * 600,
      grpc_KeepAliveTimeout = time_Second * 30, grpc_RequestIdleTime = time_Second * 120,
      grpc_RequestMaxLife = time_Second * 300, grpc_ReuseConnection = True,
      grpc_ConnectionNum = 10, grpc_InitialWindowSize = push_bit 30 1,
      grpc_InitialConnWindowSize = push_bit 30 1, grpc_MaxSendMsgSize = push_bit 30 4,
      grpc_MaxRecvMsgSize = push_bit 30 4, grpc_AcquireConnTimeout = time_Second * 120\<rparr>"

definition BrokerConfig_New :: BrokerConfig where
  "BrokerConfig_New =
     \<lparr>cfg_BaseOptions = default_BaseConfig,
      cfg_Broker = \<lparr>ms_Addr = ''127.0.0.1'' @ '':'' @ DefaultBrokerContainerPort, ms_Type = [],
        ms_HTTP = default_HTTPConfig, ms_GRPC = default_GRPCConfig, ms_WorkPoolSize = 5\<rparr>,
      cfg_Schedule = \<lparr>sch_Method = ''WRR'', sch_EnableFlowControl = True\<rparr>,
      cfg_Queue = \<lparr>qc_Size = 200\<rparr>,
      cfg_ServiceGroups = [\<lparr>sg_Name = ''default'', sg_Reclaimable = True, sg_Weight = 100\<rparr>],
      cfg_PromMetrics = \<lparr>pm_Addr = ''0.0.0.0:'' @ show_int DefaultMetricPort,
        pm_ScrapeInterval = DefaultInterval, pm_RemoteWriteURL = []\<rparr>\<rparr>"

definition ProxyConfig_New :: ProxyConfig where
  "ProxyConfig_New =
     \<lparr>pcfg_BaseOptions = default_BaseConfig,
      pcfg_Proxy = \<lparr>mp_Addr = ''127.0.0.1'' @ '':'' @ DefaultProxyContainerPort, mp_Type = [],
        mp_HTTP = default_HTTPConfig, mp_GRPC = default_GRPCConfig\<rparr>,
      pcfg_ServiceGroup = \<lparr>sg_Name = [], sg_Reclaimable = False, sg_Weight = 0\<rparr>\<rparr>"

section \<open>The configuration loader\<close>

text \<open>
  The package variable of type \<open>config\<close>: the configuration and the state of its \<open>loadOnce\<close>. The
  loader and the decoder are viper's (not under src/) and are arguments: \<open>read_in\<close> is what
  \<open>ReadInConfig\<close> returns, \<open>unmarshal\<close> decodes over the configuration that is there; on an error
  the structure may have been written partly, so it returns the structure as well.
\<close>

record 'c config_holder =
  ch_cfg :: 'c
  ch_loaded :: bool

definition loadFromDisk ::
  "go_error option \<Rightarrow> ('c \<Rightarrow> go_error option \<times> 'c) \<Rightarrow> 'c config_holder
   \<Rightarrow> ('c \<times> go_error option) \<times> 'c config_holder" where
  "loadFromDisk read_in unmarshal h =
     (if ch_loaded h then ((ch_cfg h, None), h)
      else case read_in of
             Some e \<Rightarrow> ((ch_cfg h, Some e), h\<lparr>ch_loaded := True\<rparr>)
           | None \<Rightarrow>
               (let (err, c) = unmarshal (ch_cfg h)
                in ((c, err), h\<lparr>ch_cfg := c, ch_loaded := True\<rparr>)))"

section \<open>Lemmas\<close>

lemma loadFromDisk_loaded: "ch_loaded (snd (loadFromDisk r u h))"
  by (auto simp: loadFromDisk_def Let_def split: option.splits prod.splits)

text \<open>
  The loader runs at most once: a second call of \<open>TryLoadFromDisk\<close>, whatever the file holds
  by then, returns the same structure as the first call, changes nothing, and reports no error,
  even where the first call reported one.
\<close>

theorem loadFromDisk_once:
  assumes "loadFromDisk r u h = ((c, e), h')"
  shows "loadFromDisk r' u' h' = ((c, None), h')"
  using assms by (auto simp: loadFromDisk_def Let_def split: option.splits prod.splits if_splits)

theorem loadFromDisk_once_witness:
  "loadFromDisk None (\<lambda>c. (None, c + 1))
     (snd (loadFromDisk (Some (OtherErr ''not found'')) (\<lambda>c. (None, c))
            \<lparr>ch_cfg = (7::int), ch_loaded = False\<rparr>))
   = ((7, None), \<lparr>ch_cfg = 7, ch_loaded = True\<rparr>)"
proof -
  have "loadFromDisk (Some (OtherErr ''not found'')) (\<lambda>c. (None, c))
          \<lparr>ch_cfg = (7::int), ch_loaded = False\<rparr>
        = ((7, Some (OtherErr ''not found'')), \<lparr>ch_cfg = 7, ch_loaded = True\<rparr>)"
    by (simp add: loadFromDisk_def)
  from loadFromDisk_once [OF this] show ?thesis
    by (simp add: loadFromDisk_def)
qed

section \<open>Watching the file\<close>

text \<open>
  \<open>watchConfig\<close>: the first call starts the watcher and registers the callback, every call returns the same channel. On a change of
  the file the callback fills a default configuration from it and sends that, unless the file does not parse; a send
  waits for its receiver, so what was sent and not received yet is at most one configuration.
\<close>

record 'c config_watch =
  cw_watching :: bool
  cw_callbacks :: nat
  cw_cfgChangeCh :: "'c option"

definition watchConfig :: "'c config_watch \<Rightarrow> 'c config_watch" where
  "watchConfig w = (if cw_watching w then w else w\<lparr>cw_watching := True, cw_callbacks := cw_callbacks w + 1\<rparr>)"

definition onConfigChange :: "'c \<Rightarrow> ('c \<Rightarrow> go_error option \<times> 'c) \<Rightarrow> 'c option" where
  "onConfigChange new unmarshal = (case unmarshal new of (Some err, _) \<Rightarrow> None | (None, cfg) \<Rightarrow> Some cfg)"

lemma watchConfig_registers_once: "watchConfig (watchConfig w) = watchConfig w"
  by (simp add: watchConfig_def)

text \<open>
  What a running process is sent after a change of its file is what a new process loads from that file: nothing of
  the previous configuration is left in it, and a key that was removed falls back to its default.
\<close>

theorem reload_is_fresh_load:
  assumes "h = \<lparr>ch_cfg = new, ch_loaded = False\<rparr>"
  shows "onConfigChange new unmarshal =
    (case fst (loadFromDisk None unmarshal h) of (cfg, None) \<Rightarrow> Some cfg | (cfg, Some err) \<Rightarrow> None)"
  by (simp add: assms onConfigChange_def loadFromDisk_def split: prod.splits option.splits)

end
