(* ===== verification/Picker.thy ===== *)
theory Picker
  imports Xconfig
begin

text \<open>
  The pickers of \<open>internal/broker/picker\<close>: the round-robin picker, the weighted-random picker and
  the error picker, with their builders, and the contract \<open>picker_contract\<close> that their clients
  (the scheduler and the queue pool) rely on.

  The interface \<open>picker.Resource\<close> is a type \<open>'r\<close> with its method \<open>ResourceName\<close> as the argument
  \<open>rname\<close>. Two packages that are not under src/ are arguments: \<open>google.golang.org/grpc/attributes\<close>
  (record \<open>attributes_pkg\<close>, what the code relies on is \<open>attributes_ok\<close>) and
  \<open>mroth/weightedrand\<close> (record \<open>weightedrand_pkg\<close>, \<open>weightedrand_ok\<close>). One value of
  \<open>weightedrand_pkg\<close> stands for the outcome of one random draw. \<open>rand.Intn\<close> is the argument \<open>rnd\<close>.
\<close>

section \<open>Packages the pickers call\<close>

datatype go_any = AnyInt32 int32 | AnyOther string

record 'a attributes_pkg =
  attr_New :: "string \<Rightarrow> go_any \<Rightarrow> 'a"
  attr_Value :: "'a \<Rightarrow> string \<Rightarrow> go_any option"

definition attributes_ok :: "'a attributes_pkg \<Rightarrow> bool" where
  "attributes_ok A \<longleftrightarrow> (\<forall>k v. attr_Value A (attr_New A k v) k = Some v)"

record ('r, 'c) weightedrand_pkg =
  wr_NewChooser :: "('r \<times> int32) list \<Rightarrow> 'c go_result"
  wr_Pick :: "'c \<Rightarrow> 'r"

text \<open>
  The documented behaviour of weightedrand: a chooser picks one of its choices and never one
  whose weight is not positive; a chooser exists when some weight is positive and the total of
  the positive weights fits in an \<open>int\<close>.
\<close>

definition positive_total :: "('r \<times> int32) list \<Rightarrow> int" where
  "positive_total cs = sum_list (map (\<lambda>(r, w). max 0 (sint w)) cs)"

definition weightedrand_ok :: "('r, 'c) weightedrand_pkg \<Rightarrow> bool" where
  "weightedrand_ok W \<longleftrightarrow>
     (\<forall>cs c. wr_NewChooser W cs = Inr c \<longrightarrow> (\<exists>w. (wr_Pick W c, w) \<in> set cs \<and> 0 < sint w)) \<and>
     (\<forall>cs. 0 < positive_total cs \<and> positive_total cs < 2 ^ 63 - 1 \<longrightarrow> (\<exists>c. wr_NewChooser W cs = Inr c))"

section \<open>Resources and builders\<close>

definition WeightAttributeKey :: string where
  "WeightAttributeKey = ''customize_weight''"

datatype PickerBuilder = RRPickerBuilder | WRRPickerBuilder

definition pickers :: "string \<rightharpoonup> PickerBuilder" where
  "pickers = [''RR'' \<mapsto> RRPickerBuilder, ''WRR'' \<mapsto> WRRPickerBuilder]"

definition Builder :: "string \<Rightarrow> PickerBuilder option" where
  "Builder method =
     (if method = [] then None
      else case pickers method of Some builder \<Rightarrow> Some builder | None \<Rightarrow> None)"

record 'a ResourceInfo =
  ri_Name :: string
  ri_Attributes :: "'a option"

record 'a PickerBuildInfo =
  pbi_Resources :: "ServiceGroup \<rightharpoonup> 'a ResourceInfo"

definition NewPickerBuildInfo :: "'a PickerBuildInfo" where
  "NewPickerBuildInfo = \<lparr>pbi_Resources = Map.empty\<rparr>"

definition AddResource :: "'a attributes_pkg \<Rightarrow> 'a PickerBuildInfo \<Rightarrow> ServiceGroup \<Rightarrow> 'a PickerBuildInfo" where
  "AddResource A pb r =
     pb\<lparr>pbi_Resources := (pbi_Resources pb)(r \<mapsto>
          \<lparr>ri_Name = sg_Name r,
           ri_Attributes = Some (attr_New A WeightAttributeKey (AnyInt32 (sg_Weight r)))\<rparr>)\<rparr>"

section \<open>The pickers\<close>

record rrPicker =
  rr_subConns :: "ServiceGroup list"
  rr_next :: nat

datatype Picker =
    ErrPicker go_error
  | RRPicker rrPicker
  | WRRPicker "string \<rightharpoonup> int32"

definition NewErrPicker :: "go_error \<Rightarrow> Picker" where
  "NewErrPicker err = ErrPicker err"

definition errPicker_Pick :: "go_error \<Rightarrow> 'r list \<Rightarrow> 'r go_result" where
  "errPicker_Pick err candidates = Inl err"

definition rrPicker_Pick :: "rrPicker \<Rightarrow> 'r list \<Rightarrow> 'r go_result \<times> rrPicker" where
  "rrPicker_Pick p candidates =
     (if length candidates = 0 then (Inl BalancerErrNoSubConnAvailable, p)
      else let n = length (rr_subConns p)
           in if n = 0 then (Inl BalancerErrNoSubConnAvailable, p)
              else let currNext = rr_next p mod length candidates;
                       sc = candidates ! currNext
                   in (Inr sc, p\<lparr>rr_next := (rr_next p + 1) mod length (rr_subConns p)\<rparr>))"

text \<open>The loop of \<open>wrrPicker.Pick\<close> that collects the choices.\<close>

fun wrr_choices :: "('r \<Rightarrow> string) \<Rightarrow> (string \<rightharpoonup> int32) \<Rightarrow> 'r list \<Rightarrow> ('r \<times> int32) list go_result" where
  "wrr_choices rname weights [] = Inr []"
| "wrr_choices rname weights (candidate # cs) =
     (case weights (rname candidate) of
        None \<Rightarrow> Inl (Errorf (''service group '' @ rname candidate @ '' not register''))
      | Some respWeight \<Rightarrow>
          (case wrr_choices rname weights cs of
             Inl e \<Rightarrow> Inl e
           | Inr choices \<Rightarrow> Inr ((candidate, respWeight) # choices)))"

definition wrrPicker_Pick ::
  "('r, 'c) weightedrand_pkg \<Rightarrow> ('r \<Rightarrow> string) \<Rightarrow> (string \<rightharpoonup> int32) \<Rightarrow> 'r list \<Rightarrow> 'r go_result" where
  "wrrPicker_Pick W rname weights candidates =
     (if length candidates = 0 then Inl ErrNoSubConnAvailable
      else case wrr_choices rname weights candidates of
             Inl e \<Rightarrow> Inl e
           | Inr choices \<Rightarrow>
               (case wr_NewChooser W choices of
                  Inl e \<Rightarrow> Inl e
                | Inr c \<Rightarrow> Inr (wr_Pick W c)))"

fun Picker_Pick ::
  "('r, 'c) weightedrand_pkg \<Rightarrow> ('r \<Rightarrow> string) \<Rightarrow> Picker \<Rightarrow> 'r list \<Rightarrow> 'r go_result \<times> Picker" where
  "Picker_Pick W rname (ErrPicker e) cs = (errPicker_Pick e cs, ErrPicker e)"
| "Picker_Pick W rname (RRPicker p) cs = (let (r, p') = rrPicker_Pick p cs in (r, RRPicker p'))"
| "Picker_Pick W rname (WRRPicker ws) cs = (wrrPicker_Pick W rname ws cs, WRRPicker ws)"

section \<open>Building a picker\<close>

text \<open>\<open>ks\<close> is the order in which \<open>range info.Resources\<close> visits the map.\<close>

definition RRPickerBuilder_Build :: "ServiceGroup list \<Rightarrow> nat \<Rightarrow> 'a PickerBuildInfo \<Rightarrow> Picker" where
  "RRPickerBuilder_Build ks rnd info =
     (if dom (pbi_Resources info) = {} then NewErrPicker ErrNoSubConnAvailable
      else let scs = ks in RRPicker \<lparr>rr_subConns = scs, rr_next = rnd\<rparr>)"

fun wrr_weights ::
  "'a attributes_pkg \<Rightarrow> (ServiceGroup \<rightharpoonup> 'a ResourceInfo) \<Rightarrow> ServiceGroup list \<Rightarrow> (string \<rightharpoonup> int32)
   \<Rightarrow> (string \<rightharpoonup> int32) go_result" where
  "wrr_weights A m [] weights = Inr weights"
| "wrr_weights A m (sc # ks) weights =
     (case m sc of
        None \<Rightarrow> wrr_weights A m ks weights
      | Some scInfo \<Rightarrow>
          (case ri_Attributes scInfo of
             None \<Rightarrow> wrr_weights A m ks weights
           | Some at \<Rightarrow>
               (case attr_Value A at WeightAttributeKey of
                  Some (AnyInt32 weight) \<Rightarrow>
                    wrr_weights A m ks (weights(ServiceGroup_ResourceName sc \<mapsto> weight))
                | _ \<Rightarrow> Inl (GoPanic ''interface conversion''))))"

definition WRRPickerBuilder_Build ::
  "'a attributes_pkg \<Rightarrow> ServiceGroup list \<Rightarrow> 'a PickerBuildInfo \<Rightarrow> Picker go_result" where
  "WRRPickerBuilder_Build A ks info =
     (if dom (pbi_Resources info) = {} then Inr (NewErrPicker ErrNoSubConnAvailable)
      else case wrr_weights A (pbi_Resources info) ks Map.empty of
             Inl e \<Rightarrow> Inl e
           | Inr weights \<Rightarrow> Inr (WRRPicker weights))"

fun Build ::
  "'a attributes_pkg \<Rightarrow> PickerBuilder \<Rightarrow> ServiceGroup list \<Rightarrow> nat \<Rightarrow> 'a PickerBuildInfo \<Rightarrow> Picker go_result" where
  "Build A RRPickerBuilder ks rnd info = Inr (RRPickerBuilder_Build ks rnd info)"
| "Build A WRRPickerBuilder ks rnd info = WRRPickerBuilder_Build A ks info"

text \<open>A picker asked \<open>m\<close> times in a row, always with the same candidates.\<close>

fun rr_picks :: "rrPicker \<Rightarrow> 'r list \<Rightarrow> nat \<Rightarrow> 'r list" where
  "rr_picks p cs 0 = []"
| "rr_picks p cs (Suc m) =
     (case rrPicker_Pick p cs of
        (Inl e, p') \<Rightarrow> rr_picks p' cs m
      | (Inr r, p') \<Rightarrow> r # rr_picks p' cs m)"

section \<open>The contract of a picker\<close>

text \<open>
  What a client of \<open>picker.Picker\<close> relies on: a successful pick is one of the candidates, there is
  none without candidates, and a pick keeps the picker's own invariant.
\<close>

locale picker_contract =
  fixes pick :: "'p \<Rightarrow> 'r list \<Rightarrow> 'r go_result \<times> 'p"
    and pinv :: "'p \<Rightarrow> bool"
  assumes pick_mem: "pinv p \<Longrightarrow> pick p cs = (Inr r, p') \<Longrightarrow> r \<in> set cs"
    and pick_inv: "pinv p \<Longrightarrow> pick p cs = (res, p') \<Longrightarrow> pinv p'"
begin

lemma pick_no_candidates: "pinv p \<Longrightarrow> \<exists>e. fst (pick p []) = Inl e"
proof -
  assume "pinv p"
  then have "fst (pick p []) \<noteq> Inr r" for r
    using pick_mem [of p "[]" r] by (cases "pick p []") auto
  then show ?thesis by (cases "fst (pick p [])") auto
qed

lemma pick_singleton: "pinv p \<Longrightarrow> pick p [c] = (Inr r, p') \<Longrightarrow> r = c"
  using pick_mem [of p "[c]" r p'] by simp

end

section \<open>Lemmas\<close>

subsection \<open>Round robin\<close>

definition rr_inv :: "rrPicker \<Rightarrow> bool" where
  "rr_inv p \<longleftrightarrow> rr_subConns p \<noteq> [] \<and> rr_next p < length (rr_subConns p)"

lemma rrPicker_Pick_ok:
  assumes "rr_inv p" "cs \<noteq> []"
  shows "rrPicker_Pick p cs =
    (Inr (cs ! (rr_next p mod length cs)), p\<lparr>rr_next := (rr_next p + 1) mod length (rr_subConns p)\<rparr>)"
  using assms by (simp add: rrPicker_Pick_def rr_inv_def Let_def)

lemma rr_inv_step [inv_intros]:
  "rr_inv p \<Longrightarrow> rr_inv (p\<lparr>rr_next := (rr_next p + 1) mod length (rr_subConns p)\<rparr>)"
  by (auto simp: rr_inv_def)

lemma rrPicker_Pick_mem: "rrPicker_Pick p cs = (Inr r, p') \<Longrightarrow> r \<in> set cs"
  by (auto simp: rrPicker_Pick_def Let_def split: if_splits)

lemma rrPicker_Pick_inv [inv_intros]: "rr_inv p \<Longrightarrow> rrPicker_Pick p cs = (res, p') \<Longrightarrow> rr_inv p'"
  using rrPicker_Pick_ok [of p cs] rr_inv_step [of p]
  by (cases "cs = []") (auto simp: rrPicker_Pick_def)

interpretation rrp: picker_contract rrPicker_Pick rr_inv
  by unfold_locales (auto dest: rrPicker_Pick_mem rrPicker_Pick_inv)

lemma rr_picks_closed_form:
  assumes "rr_inv p" "cs \<noteq> []" and n: "n = length (rr_subConns p)"
  shows "rr_picks p cs m = map (\<lambda>i. cs ! ((rr_next p + i) mod n mod length cs)) [0..<m]"
  using assms
proof (induction m arbitrary: p)
  case (Suc m)
  let ?p = "p\<lparr>rr_next := (rr_next p + 1) mod n\<rparr>"
  have inv: "rr_inv ?p" using Suc.prems rr_inv_step [of p] by simp
  have lt: "rr_next p mod n = rr_next p" using Suc.prems by (simp add: rr_inv_def)
  have "rr_picks p cs (Suc m) = cs ! (rr_next p mod length cs) # rr_picks ?p cs m"
    using rrPicker_Pick_ok [OF Suc.prems(1,2)] Suc.prems(3) by simp
  also have "rr_picks ?p cs m = map (\<lambda>i. cs ! ((rr_next p + Suc i) mod n mod length cs)) [0..<m]"
    using Suc.IH [OF inv Suc.prems(2)] Suc.prems(3) by (simp add: mod_add_left_eq)
  finally show ?case
    by (simp add: lt map_upt_Suc del: upt_Suc)
qed simp

lemma mset_rotate1': "mset (rotate1 cs) = mset cs"
  by (cases cs) auto

lemma mset_rotate': "mset (rotate s cs) = mset cs"
  by (induction s arbitrary: cs) (auto simp: rotate1_rotate_swap [symmetric] mset_rotate1')

lemma rotated_block: "s < length cs \<Longrightarrow>
    map (\<lambda>i. cs ! ((s + i) mod length cs)) [0..<length cs] = rotate s cs"
  by (rule nth_equalityI) (auto simp: nth_rotate)

lemma map_upt_blocks:
  fixes f :: "nat \<Rightarrow> 'a"
  assumes "\<And>i. f (i + n) = f i"
  shows "mset (map f [0..<k * n]) = repeat_mset k (mset (map f [0..<n]))"
proof (induction k)
  case (Suc k)
  have shift: "f (i + k * n) = f i" for i
    by (induction k) (simp_all add: assms add.assoc [symmetric] add.commute [of n])
  have "[0..<Suc k * n] = [0..<k * n] @ map (\<lambda>i. i + k * n) [0..<n]"
    using upt_add_eq_append [of 0 "k * n" n] by (simp add: map_add_upt add.commute)
  then have "map f [0..<Suc k * n] = map f [0..<k * n] @ map f [0..<n]"
    by (simp add: shift comp_def)
  then show ?case using Suc by (simp add: add.commute)
qed simp

text \<open>
  C17. Round robin is exactly fair: with as many candidates as registered groups, \<open>k\<close> full rounds
  of picks choose every candidate exactly \<open>k\<close> times, from any starting position (the exact counts
  that picker\_test.go asks of the RR picker).
\<close>

theorem rr_fair:
  assumes "rr_inv p" and "length cs = length (rr_subConns p)"
  shows "mset (rr_picks p cs (k * length cs)) = repeat_mset k (mset cs)"
proof -
  have ne: "cs \<noteq> []" using assms by (auto simp: rr_inv_def)
  let ?f = "\<lambda>i. cs ! ((rr_next p + i) mod length cs)"
  have "rr_picks p cs (k * length cs) = map ?f [0..<k * length cs]"
    using rr_picks_closed_form [OF assms(1) ne assms(2), of "k * length cs"] by simp
  moreover have "?f (i + length cs) = ?f i" for i
    by (simp add: add.assoc [symmetric])
  moreover have "mset (map ?f [0..<length cs]) = mset cs"
    using rotated_block [of "rr_next p" cs] assms
    by (simp add: rr_inv_def mset_rotate' del: mset_map)
  ultimately show ?thesis
    using map_upt_blocks [of ?f "length cs" k] by simp
qed

definition sg_example :: "string \<Rightarrow> int32 \<Rightarrow> ServiceGroup" where
  "sg_example n w = \<lparr>sg_Name = n, sg_Reclaimable = False, sg_Weight = w\<rparr>"

theorem rr_fair_witness:
  "mset (rr_picks \<lparr>rr_subConns = [sg_example ''service10'' 10, sg_example ''service20'' 20,
                     sg_example ''service30'' 30], rr_next = 2\<rparr>
           [''service10'', ''service20'', ''service30''] (100000 * length [''service10'', ''service20'', ''service30'']))
   = repeat_mset 100000 {#''service10'', ''service20'', ''service30''#}"
  by (subst rr_fair) (simp_all add: rr_inv_def)

text \<open>
  No candidate starves under round robin: while a set of candidates (at most as many as there
  are groups) stays the same, each of them is chosen within one round of \<open>n\<close> picks, \<open>n\<close> the number
  of groups, and nothing else is chosen.
\<close>

theorem rr_no_starvation:
  assumes "rr_inv p" "cs \<noteq> []" "length cs \<le> length (rr_subConns p)"
  shows "set (rr_picks p cs (length (rr_subConns p))) = set cs"
proof -
  let ?n = "length (rr_subConns p)"
  have picks: "set (rr_picks p cs ?n) = (\<lambda>i. cs ! ((rr_next p + i) mod ?n mod length cs)) ` {0..<?n}"
    using rr_picks_closed_form [OF assms(1,2) refl, of ?n] by simp
  show ?thesis
  proof
    show "set (rr_picks p cs ?n) \<subseteq> set cs"
      unfolding picks using assms(2) by (auto intro!: nth_mem)
    show "set cs \<subseteq> set (rr_picks p cs ?n)"
    proof
      fix x assume "x \<in> set cs"
      then obtain j where j: "j < length cs" "x = cs ! j" by (auto simp: in_set_conv_nth)
      let ?i = "(j + (?n - rr_next p)) mod ?n"
      have lt: "rr_next p < ?n" "0 < ?n" using assms(1) by (auto simp: rr_inv_def)
      have "(rr_next p + ?i) mod ?n = (rr_next p + (j + (?n - rr_next p))) mod ?n"
        by (simp add: mod_add_right_eq)
      also have "rr_next p + (j + (?n - rr_next p)) = j + ?n" using lt by simp
      also have "(j + ?n) mod ?n = j" using j(1) assms(3) by simp
      finally have "x = cs ! ((rr_next p + ?i) mod ?n mod length cs)" using j by simp
      then show "x \<in> set (rr_picks p cs ?n)" unfolding picks using lt by auto
    qed
  qed
qed

theorem rr_no_starvation_witness:
  "set (rr_picks \<lparr>rr_subConns = [sg_example ''a'' 1, sg_example ''b'' 1, sg_example ''c'' 1], rr_next = 1\<rparr>
         [10::nat, 20] (length (rr_subConns \<lparr>rr_subConns = [sg_example ''a'' 1, sg_example ''b'' 1,
           sg_example ''c'' 1], rr_next = 1\<rparr>))) = {10, 20}"
  by (subst rr_no_starvation) (simp_all add: rr_inv_def)

subsection \<open>Weighted random\<close>

lemma wrr_choices_Inr:
  "wrr_choices rname ws cs = Inr choices \<Longrightarrow>
   map fst choices = cs \<and> (\<forall>(c, w) \<in> set choices. ws (rname c) = Some w)"
  by (induction cs arbitrary: choices) (auto split: option.splits sum.splits)

lemma wrr_choices_total:
  "\<forall>c \<in> set cs. rname c \<in> dom ws \<Longrightarrow>
   wrr_choices rname ws cs = Inr (map (\<lambda>c. (c, the (ws (rname c)))) cs)"
  by (induction cs) auto

lemma positive_total_nonneg: "0 \<le> positive_total cs"
  by (induction cs) (auto simp: positive_total_def)

lemma positive_total_pos:
  assumes "(c, w) \<in> set cs" "0 < sint w"
  shows "0 < positive_total cs"
  using assms
proof (induction cs)
  case (Cons x cs)
  then show ?case
    using positive_total_nonneg [of cs] by (cases x) (auto simp: positive_total_def)
qed simp

lemma positive_total_bound: "positive_total cs \<le> int (length cs) * 2 ^ 31"
proof (induction cs)
  case (Cons x cs)
  obtain r w where x: "x = (r, w)" by force
  have "sint w < 2 ^ 31" using sint_lt [of w] by simp
  then show ?case using Cons by (simp add: positive_total_def x algebra_simps)
qed (simp add: positive_total_def)

lemma wrrPicker_Pick_choice:
  assumes "weightedrand_ok W" and "wrrPicker_Pick W rname ws cs = Inr r"
  obtains w where "r \<in> set cs" "ws (rname r) = Some w" "0 < sint w"
proof -
  from assms(2) obtain choices c where ch: "wrr_choices rname ws cs = Inr choices"
    and c: "wr_NewChooser W choices = Inr c" and r: "r = wr_Pick W c"
    by (auto simp: wrrPicker_Pick_def split: if_splits sum.splits)
  with assms(1) obtain w where w: "(r, w) \<in> set choices" "0 < sint w"
    unfolding weightedrand_ok_def by blast
  from wrr_choices_Inr [OF ch] w show ?thesis
    by (intro that [of w]) force+
qed


text \<open>A chooser that always takes the first choice with a positive weight, for the witnesses.\<close>

definition first_positive :: "('r, 'r) weightedrand_pkg" where
  "first_positive =
     \<lparr>wr_NewChooser = (\<lambda>cs. case filter (\<lambda>(r, w). 0 < sint w) cs of
        [] \<Rightarrow> Inl (OtherErr ''zero Choices with Weight >= 1'') | (r, w) # _ \<Rightarrow> Inr r),
      wr_Pick = id\<rparr>"

lemma positive_total_zero: "filter (\<lambda>(r, w). 0 < sint w) cs = [] \<Longrightarrow> positive_total cs = 0"
  by (induction cs) (auto simp: positive_total_def split: if_splits)

lemma first_positive_ok: "weightedrand_ok first_positive"
  unfolding weightedrand_ok_def
proof (intro conjI allI impI)
  fix cs :: "('r \<times> int32) list" and c
  assume "wr_NewChooser first_positive cs = Inr c"
  then obtain w ys where "filter (\<lambda>(r, w). 0 < sint w) cs = (c, w) # ys"
    by (auto simp: first_positive_def split: list.splits)
  then have "(c, w) \<in> set (filter (\<lambda>(r, w). 0 < sint w) cs)" by simp
  then have "(c, w) \<in> set cs \<and> 0 < sint w" by simp
  then show "\<exists>w. (wr_Pick first_positive c, w) \<in> set cs \<and> 0 < sint w"
    by (auto simp: first_positive_def)
next
  fix cs :: "('r \<times> int32) list"
  assume "0 < positive_total cs \<and> positive_total cs < 2 ^ 63 - 1"
  then show "\<exists>c. wr_NewChooser first_positive cs = Inr c"
    using positive_total_zero [of cs]
    by (auto simp: first_positive_def split: list.splits)
qed


lemma wrr_pick_some:
  assumes W: "weightedrand_ok W"
    and reg: "\<forall>c \<in> set cs. rname c \<in> dom ws"
    and pos: "c \<in> set cs" "0 < sint (the (ws (rname c)))"
    and len: "length cs < 2 ^ 31"
  shows "\<exists>r. wrrPicker_Pick W rname ws cs = Inr r"
proof -
  let ?ch = "map (\<lambda>c. (c, the (ws (rname c)))) cs"
  have "0 < positive_total ?ch" using pos by (intro positive_total_pos [of c]) auto
  moreover have "positive_total ?ch \<le> int (length cs) * 2 ^ 31"
    using positive_total_bound [of ?ch] by simp
  moreover have "int (length cs) * 2 ^ 31 < 2 ^ 63 - 1" using len by simp
  ultimately obtain ch where "wr_NewChooser W ?ch = Inr ch"
    using W unfolding weightedrand_ok_def by (meson order_le_less_trans)
  with wrr_choices_total [OF reg] pos(1) show ?thesis
    by (auto simp: wrrPicker_Pick_def)
qed

text \<open>
  A weighted pick succeeds: when every candidate's group is registered, at least one of them
  has a positive weight, and there are fewer than \<open>2 ^ 31\<close> candidates (one per queue), \<open>Pick\<close>
  returns a resource and no error.
\<close>

theorem wrr_pick_total:
  assumes W: "weightedrand_ok W"
    and reg: "\<forall>c \<in> set cs. rname c \<in> dom ws"
    and pos: "c \<in> set cs" "0 < sint (the (ws (rname c)))"
    and len: "length cs < 2 ^ 31"
  shows "\<exists>r. wrrPicker_Pick W rname ws cs = Inr r"
  using assms by (rule wrr_pick_some)

theorem wrr_pick_total_witness:
  "\<exists>r. wrrPicker_Pick first_positive id [''a'' \<mapsto> (0::int32), ''b'' \<mapsto> 5] [''a'', ''b''] = Inr r"
  by (rule wrr_pick_total [where c = "''b''"]) (auto simp: first_positive_ok)

text \<open>
  An unregistered group makes the whole pick fail, whichever the other candidates are: the
  error names the first candidate whose group has no weight.
\<close>

theorem wrr_pick_unregistered:
  assumes "\<forall>c \<in> set us. rname c \<in> dom ws" "rname c \<notin> dom ws"
  shows "wrrPicker_Pick W rname ws (us @ c # vs)
         = Inl (Errorf (''service group '' @ rname c @ '' not register''))"
proof -
  have "wrr_choices rname ws (us @ c # vs) = Inl (Errorf (''service group '' @ rname c @ '' not register''))"
    using assms by (induction us) (auto simp: domIff split: option.splits)
  then show ?thesis by (simp add: wrrPicker_Pick_def)
qed

theorem wrr_pick_unregistered_witness:
  "wrrPicker_Pick first_positive id [''a'' \<mapsto> (1::int32)] ([''a''] @ ''zz'' # [])
   = Inl (Errorf (''service group '' @ id ''zz'' @ '' not register''))"
  by (rule wrr_pick_unregistered) auto

subsection \<open>Any picker\<close>

fun picker_inv :: "Picker \<Rightarrow> bool" where
  "picker_inv (ErrPicker e) = True"
| "picker_inv (RRPicker p) = rr_inv p"
| "picker_inv (WRRPicker ws) = True"

lemma Picker_Pick_mem:
  "weightedrand_ok W \<Longrightarrow> Picker_Pick W rname p cs = (Inr r, p') \<Longrightarrow> r \<in> set cs"
  by (cases p) (auto simp: errPicker_Pick_def split: prod.splits
      dest: rrPicker_Pick_mem elim: wrrPicker_Pick_choice)

lemma Picker_Pick_inv [inv_intros]:
  "picker_inv p \<Longrightarrow> Picker_Pick W rname p cs = (res, p') \<Longrightarrow> picker_inv p'"
  by (cases p) (auto split: prod.splits dest: rrPicker_Pick_inv)

interpretation anyp: picker_contract
  "\<lambda>(W, p) cs. (let (r, p') = Picker_Pick W rname p cs in (r, (W, p')))"
  "\<lambda>(W, p). weightedrand_ok W \<and> picker_inv p"
  for rname
  by unfold_locales (auto split: prod.splits dest: Picker_Pick_mem Picker_Pick_inv)

subsection \<open>Building\<close>

lemma Builder_iff:
  "Builder m = Some b \<longleftrightarrow> (m = ''RR'' \<and> b = RRPickerBuilder) \<or> (m = ''WRR'' \<and> b = WRRPickerBuilder)"
  by (auto simp: Builder_def pickers_def split: if_splits option.splits)

text \<open>Every registered resource carries its own weight as attribute.\<close>

definition info_ok :: "'a attributes_pkg \<Rightarrow> (ServiceGroup \<rightharpoonup> 'a ResourceInfo) \<Rightarrow> bool" where
  "info_ok A m \<longleftrightarrow> (\<forall>sc i. m sc = Some i \<longrightarrow>
     i = \<lparr>ri_Name = sg_Name sc, ri_Attributes = Some (attr_New A WeightAttributeKey (AnyInt32 (sg_Weight sc)))\<rparr>)"

lemma info_ok_AddResource [inv_intros]:
  "info_ok A (pbi_Resources pb) \<Longrightarrow> info_ok A (pbi_Resources (AddResource A pb r))"
  by (auto simp: info_ok_def AddResource_def)

lemma wrr_weights_eq:
  assumes "attributes_ok A" "info_ok A m" "set ks \<subseteq> dom m"
  shows "wrr_weights A m ks ws = Inr (ws ++ map_of (rev (map (\<lambda>sc. (sg_Name sc, sg_Weight sc)) ks)))"
  using assms(3)
proof (induction ks arbitrary: ws)
  case (Cons sc ks)
  then obtain i where i: "m sc = Some i" by auto
  with assms(2) have "ri_Attributes i = Some (attr_New A WeightAttributeKey (AnyInt32 (sg_Weight sc)))"
    unfolding info_ok_def by (metis ResourceInfo.select_convs(2))
  with i assms(1) Cons show ?case
    by (simp add: attributes_ok_def ServiceGroup_ResourceName_def map_add_assoc [symmetric])
qed simp

end
