(* ===== verification/Scheduler.thy ===== *)
theory Scheduler
  imports Picker
begin

text \<open>
  \<open>internal/broker/scheduler/scheduler.go\<close>: \<open>NewScheduler\<close>, \<open>RegeneratePicker\<close> and \<open>Pick\<close>. The lemmas
  show that a scheduler made from a valid method and any list of service groups always ends up
  with a working picker, and that the scheduler satisfies the contract its own clients use.
\<close>

section \<open>The scheduler\<close>

record Scheduler =
  sd_builder :: PickerBuilder
  sd_picker :: "Picker option"
  sd_errPicker :: Picker

definition NewScheduler :: "Schedule \<Rightarrow> Scheduler go_result" where
  "NewScheduler cfg =
     (case Builder (sch_Method cfg) of
        None \<Rightarrow> Inl (Errorf ''builder is nil'')
      | Some builder \<Rightarrow>
          Inr \<lparr>sd_builder = builder, sd_picker = None,
               sd_errPicker = NewErrPicker (Errorf ''picker is nil'')\<rparr>)"

text \<open>The loop over the groups, with the flag \<open>defaultExit\<close>.\<close>

fun add_groups ::
  "'a attributes_pkg \<Rightarrow> 'a PickerBuildInfo \<Rightarrow> bool \<Rightarrow> ServiceGroup list \<Rightarrow> 'a PickerBuildInfo \<times> bool" where
  "add_groups A pbi defaultExit [] = (pbi, defaultExit)"
| "add_groups A pbi defaultExit (grp # groups) =
     add_groups A (AddResource A pbi grp)
       (defaultExit \<or> ServiceGroup_ResourceName grp = DefaultServiceGroup) groups"

definition default_group :: ServiceGroup where
  "default_group = \<lparr>sg_Name = DefaultServiceGroup, sg_Reclaimable = False, sg_Weight = 1\<rparr>"

definition build_info :: "'a attributes_pkg \<Rightarrow> ServiceGroup list \<Rightarrow> 'a PickerBuildInfo" where
  "build_info A groups =
     (let (pbi, defaultExit) = add_groups A NewPickerBuildInfo False groups
      in if \<not> defaultExit then AddResource A pbi default_group else pbi)"

definition RegeneratePicker ::
  "'a attributes_pkg \<Rightarrow> ServiceGroup list \<Rightarrow> nat \<Rightarrow> Scheduler \<Rightarrow> ServiceGroup list \<Rightarrow> Scheduler go_result" where
  "RegeneratePicker A ks rnd s groups =
     (case Build A (sd_builder s) ks rnd (build_info A groups) of
        Inl e \<Rightarrow> Inl e
      | Inr p \<Rightarrow> Inr (s\<lparr>sd_picker := Some p\<rparr>))"

definition Scheduler_Pick ::
  "('r, 'c) weightedrand_pkg \<Rightarrow> ('r \<Rightarrow> string) \<Rightarrow> Scheduler \<Rightarrow> 'r list \<Rightarrow> 'r go_result \<times> Scheduler" where
  "Scheduler_Pick W rname s info =
     (case sd_picker s of
        None \<Rightarrow> (let (r, ep) = Picker_Pick W rname (sd_errPicker s) info in (r, s\<lparr>sd_errPicker := ep\<rparr>))
      | Some p \<Rightarrow> (let (r, p') = Picker_Pick W rname p info in (r, s\<lparr>sd_picker := Some p'\<rparr>)))"

definition scheduler_inv :: "Scheduler \<Rightarrow> bool" where
  "scheduler_inv s \<longleftrightarrow> (\<forall>p. sd_picker s = Some p \<longrightarrow> picker_inv p) \<and> picker_inv (sd_errPicker s)"

text \<open>The names for which a queue exists, and the groups that are registered with the picker.\<close>

definition group_names :: "ServiceGroup list \<Rightarrow> string set" where
  "group_names groups = insert DefaultServiceGroup (sg_Name ` set groups)"

definition registered :: "ServiceGroup list \<Rightarrow> ServiceGroup set" where
  "registered groups =
     set groups \<union> (if DefaultServiceGroup \<in> sg_Name ` set groups then {} else {default_group})"

section \<open>Lemmas\<close>

lemma add_groups_flag:
  "snd (add_groups A pbi d gs) \<longleftrightarrow> d \<or> DefaultServiceGroup \<in> sg_Name ` set gs"
  by (induction gs arbitrary: pbi d) (auto simp: ServiceGroup_ResourceName_def)

lemma add_groups_dom:
  "dom (pbi_Resources (fst (add_groups A pbi d gs))) = dom (pbi_Resources pbi) \<union> set gs"
  by (induction gs arbitrary: pbi d) (auto simp: AddResource_def)

lemma add_groups_info_ok [inv_intros]:
  "info_ok A (pbi_Resources pbi) \<Longrightarrow> info_ok A (pbi_Resources (fst (add_groups A pbi d gs)))"
  by (induction gs arbitrary: pbi d) (auto intro: info_ok_AddResource)

lemma build_info_dom: "dom (pbi_Resources (build_info A groups)) = registered groups"
  using add_groups_flag [of A NewPickerBuildInfo False groups]
    add_groups_dom [of A NewPickerBuildInfo False groups]
  by (cases "add_groups A NewPickerBuildInfo False groups")
    (simp add: build_info_def registered_def AddResource_def NewPickerBuildInfo_def)

lemma build_info_ok: "info_ok A (pbi_Resources (build_info A groups))"
  using add_groups_info_ok [of A NewPickerBuildInfo False groups]
  by (auto simp: build_info_def Let_def NewPickerBuildInfo_def info_ok_def AddResource_def
      split: prod.splits)

lemma registered_ne: "registered groups \<noteq> {}"
  by (auto simp: registered_def)

lemma registered_names: "sg_Name ` registered groups = group_names groups"
  by (auto simp: registered_def group_names_def default_group_def)

lemma Scheduler_Pick_mem:
  "weightedrand_ok W \<Longrightarrow> Scheduler_Pick W rname s cs = (Inr r, s') \<Longrightarrow> r \<in> set cs"
  by (auto simp: Scheduler_Pick_def split: option.splits prod.splits dest: Picker_Pick_mem)

lemma Scheduler_Pick_inv [inv_intros]:
  "scheduler_inv s \<Longrightarrow> Scheduler_Pick W rname s cs = (res, s') \<Longrightarrow> scheduler_inv s'"
  by (auto simp: Scheduler_Pick_def scheduler_inv_def split: option.splits prod.splits
      dest: Picker_Pick_inv)

interpretation sched: picker_contract
  "\<lambda>(W, s) cs. (let (r, s') = Scheduler_Pick W rname s cs in (r, (W, s')))"
  "\<lambda>(W, s). weightedrand_ok W \<and> scheduler_inv s"
  for rname
  by unfold_locales (auto split: prod.splits dest: Scheduler_Pick_mem Scheduler_Pick_inv)

lemma NewScheduler_cases:
  "NewScheduler cfg = Inr s \<longleftrightarrow>
     (\<exists>b. Builder (sch_Method cfg) = Some b \<and>
          s = \<lparr>sd_builder = b, sd_picker = None, sd_errPicker = ErrPicker (Errorf ''picker is nil'')\<rparr>)"
  by (auto simp: NewScheduler_def NewErrPicker_def split: option.splits)

text \<open>
  \<open>NewScheduler\<close> accepts exactly the methods RR and WRR; any other method, the empty one
  included, is the error "builder is nil".
\<close>

theorem NewScheduler_methods:
  "NewScheduler cfg =
     (if sch_Method cfg = ''RR'' then
        Inr \<lparr>sd_builder = RRPickerBuilder, sd_picker = None,
             sd_errPicker = ErrPicker (Errorf ''picker is nil'')\<rparr>
      else if sch_Method cfg = ''WRR'' then
        Inr \<lparr>sd_builder = WRRPickerBuilder, sd_picker = None,
             sd_errPicker = ErrPicker (Errorf ''picker is nil'')\<rparr>
      else Inl (Errorf ''builder is nil''))"
  by (auto simp: NewScheduler_def NewErrPicker_def Builder_def pickers_def)

lemma wrr_weights_built:
  assumes "attributes_ok A" "map_order ks (pbi_Resources (build_info A groups))"
  shows "wrr_weights A (pbi_Resources (build_info A groups)) ks Map.empty
         = Inr (map_of (rev (map (\<lambda>sc. (sg_Name sc, sg_Weight sc)) ks)))"
  using wrr_weights_eq [OF assms(1) build_info_ok, of ks groups Map.empty] assms(2)
  by (simp add: map_order_def)

lemma Build_picker:
  assumes "attributes_ok A" "map_order ks (pbi_Resources (build_info A groups))" "rnd < length ks"
  shows "Build A b ks rnd (build_info A groups) =
    Inr (case b of RRPickerBuilder \<Rightarrow> RRPicker \<lparr>rr_subConns = ks, rr_next = rnd\<rparr>
         | WRRPickerBuilder \<Rightarrow> WRRPicker (map_of (rev (map (\<lambda>sc. (sg_Name sc, sg_Weight sc)) ks))))"
  using wrr_weights_built [OF assms(1,2)] registered_ne [of groups]
  by (cases b) (simp_all add: RRPickerBuilder_Build_def WRRPickerBuilder_Build_def build_info_dom)

lemma dom_weights:
  assumes "map_order ks (pbi_Resources (build_info A groups))"
  shows "dom (map_of (rev (map (\<lambda>sc. (sg_Name sc, sg_Weight sc)) ks))) = group_names groups"
proof -
  have "set ks = registered groups" using assms by (simp add: map_order_def build_info_dom)
  then show ?thesis
    using registered_names [of groups] by (simp add: dom_map_of_conv_image_fst image_image)
qed

text \<open>
  \<open>RegeneratePicker\<close> never fails and never leaves the scheduler without a picker, whatever the
  configured groups are (none at all included), whatever the iteration order of the resource map
  and the random starting position are; and with WRR the names that have a weight are exactly the
  configured ones and "default".
\<close>

theorem RegeneratePicker_total:
  assumes "attributes_ok A" and "map_order ks (pbi_Resources (build_info A groups))"
    and "rnd < length ks" and "NewScheduler cfg = Inr s"
  shows "\<exists>p. RegeneratePicker A ks rnd s groups = Inr (s\<lparr>sd_picker := Some p\<rparr>) \<and> picker_inv p \<and>
             (\<forall>ws. p = WRRPicker ws \<longrightarrow> dom ws = group_names groups) \<and>
             (\<forall>rr. p = RRPicker rr \<longrightarrow> set (rr_subConns rr) = registered groups)"
proof -
  have ks: "set ks = registered groups" using assms(2) by (simp add: map_order_def build_info_dom)
  show ?thesis
    using Build_picker [OF assms(1-3), of "sd_builder s"] dom_weights [OF assms(2)] ks assms(3)
    by (intro exI [of _ "case sd_builder s of RRPickerBuilder \<Rightarrow> _ | WRRPickerBuilder \<Rightarrow> _"])
      (auto simp: RegeneratePicker_def rr_inv_def split: PickerBuilder.splits)
qed

text \<open>A concrete instance of the attributes package, for the witnesses: an association list.\<close>

definition alist_attributes :: "(string \<times> go_any) list attributes_pkg" where
  "alist_attributes = \<lparr>attr_New = (\<lambda>k v. [(k, v)]), attr_Value = map_of\<rparr>"

lemma alist_attributes_ok: "attributes_ok alist_attributes"
  by (simp add: attributes_ok_def alist_attributes_def)

lemma registered_nil: "registered [] = {default_group}"
  by (simp add: registered_def)

lemma order_nil: "map_order [default_group] (pbi_Resources (build_info A []))"
  by (simp add: map_order_def build_info_dom registered_nil)

theorem RegeneratePicker_total_witness:
  "\<exists>s p. NewScheduler \<lparr>sch_Method = ''WRR'', sch_EnableFlowControl = True\<rparr> = Inr s \<and>
      RegeneratePicker alist_attributes [default_group] 0 s [] = Inr (s\<lparr>sd_picker := Some p\<rparr>) \<and>
      picker_inv p"
proof -
  obtain s where s: "NewScheduler \<lparr>sch_Method = ''WRR'', sch_EnableFlowControl = True\<rparr> = Inr s"
    by (simp add: NewScheduler_def Builder_def pickers_def)
  from RegeneratePicker_total [OF alist_attributes_ok order_nil _ s, of 0] s
  show ?thesis by auto
qed

text \<open>
  The weights do not depend on the iteration order of the resource map: when no two registered
  groups share a name, the WRR picker maps each group's name to that group's weight, whichever
  order the map is visited in.
\<close>

theorem wrr_weights_deterministic:
  assumes "attributes_ok A" and "map_order ks (pbi_Resources (build_info A groups))"
    and "inj_on sg_Name (registered groups)" and "g \<in> registered groups"
  shows "\<exists>ws. WRRPickerBuilder_Build A ks (build_info A groups) = Inr (WRRPicker ws) \<and>
              ws (sg_Name g) = Some (sg_Weight g)"
proof -
  let ?l = "map (\<lambda>sc. (sg_Name sc, sg_Weight sc)) ks"
  have ks: "set ks = registered groups" "distinct ks"
    using assms(2) by (auto simp: map_order_def build_info_dom)
  then have "distinct (map fst (rev ?l))"
    using assms(3) by (simp add: rev_map comp_def distinct_map)
  moreover have "(sg_Name g, sg_Weight g) \<in> set (rev ?l)" using ks assms(4) by auto
  ultimately have "map_of (rev ?l) (sg_Name g) = Some (sg_Weight g)" by (rule map_of_is_SomeI)
  with wrr_weights_built [OF assms(1,2)] registered_ne [of groups] show ?thesis
    by (simp add: WRRPickerBuilder_Build_def build_info_dom)
qed

theorem wrr_weights_deterministic_witness:
  "\<exists>ws. WRRPickerBuilder_Build alist_attributes [default_group] (build_info alist_attributes [])
          = Inr (WRRPicker ws) \<and> ws (sg_Name default_group) = Some (sg_Weight default_group)"
  by (rule wrr_weights_deterministic [OF alist_attributes_ok order_nil]) (simp_all add: registered_nil)

end
