(* ===== verification/Queues.thy ===== *)
theory Queues
  imports Picker
begin

text \<open>
  \<open>pkg/queue\<close>: the queue items of the two endpoints, the bounded queue of one service group and the
  \<open>QueuePool\<close> with one queue per group. The dynamic type behind the interface \<open>QueueItem\<close> is the
  constructor of the datatype; the pointers an item holds (request, response writer, wait channel)
  are numbers that identify them. The mutex of the pool makes \<open>Push\<close> and \<open>Pop\<close> atomic: each is one
  function. The picker that \<open>Pop\<close> gets is its method \<open>pick\<close> with its state \<open>p\<close>.
\<close>

section \<open>Items\<close>

record GRPCItem =
  gi_ServiceGroup :: string
  gi_CreateTime :: int
  gi_WaitChan :: nat

record HTTPRequestItem =
  hi_ServiceGroup :: string
  hi_CreateTime :: int
  hi_Req :: nat
  hi_Writer :: nat
  hi_WaitChan :: nat

datatype QueueItem = GRPC GRPCItem | HTTP HTTPRequestItem

fun ResourceName :: "QueueItem \<Rightarrow> string" where
  "ResourceName (GRPC g) = gi_ServiceGroup g"
| "ResourceName (HTTP h) = hi_ServiceGroup h"

fun SetResourceName :: "QueueItem \<Rightarrow> string \<Rightarrow> QueueItem" where
  "SetResourceName (GRPC g) name = GRPC (g\<lparr>gi_ServiceGroup := name\<rparr>)"
| "SetResourceName (HTTP h) name = HTTP (h\<lparr>hi_ServiceGroup := name\<rparr>)"

fun GetCreateTime :: "QueueItem \<Rightarrow> int" where
  "GetCreateTime (GRPC g) = gi_CreateTime g"
| "GetCreateTime (HTTP h) = hi_CreateTime h"

fun WaitChan :: "QueueItem \<Rightarrow> nat" where
  "WaitChan (GRPC g) = gi_WaitChan g"
| "WaitChan (HTTP h) = hi_WaitChan h"

section \<open>One queue\<close>

record Queue =
  q_maxSize :: int
  q_list :: "QueueItem list"

definition NewQueue :: "QueueConfig \<Rightarrow> Queue" where
  "NewQueue cfg = \<lparr>q_maxSize = qc_Size cfg, q_list = []\<rparr>"

definition Queue_Push :: "Queue \<Rightarrow> QueueItem \<Rightarrow> go_error option \<times> Queue" where
  "Queue_Push q value =
     (if int (length (q_list q)) \<ge> q_maxSize q then (Some (Errorf ''queue is full''), q)
      else (None, q\<lparr>q_list := q_list q @ [value]\<rparr>))"

definition Queue_Pop :: "Queue \<Rightarrow> QueueItem option \<times> Queue" where
  "Queue_Pop q =
     (case q_list q of [] \<Rightarrow> (None, q) | front # rest \<Rightarrow> (Some front, q\<lparr>q_list := rest\<rparr>))"

definition Queue_Peek :: "Queue \<Rightarrow> QueueItem option" where
  "Queue_Peek q = (case q_list q of [] \<Rightarrow> None | front # _ \<Rightarrow> Some front)"

definition Queue_Len :: "Queue \<Rightarrow> nat" where
  "Queue_Len q = length (q_list q)"

section \<open>The pool\<close>

record QueuePool =
  qp_Queues :: "string \<rightharpoonup> Queue"

fun new_queues :: "QueueConfig \<Rightarrow> (string \<rightharpoonup> Queue) \<Rightarrow> bool \<Rightarrow> ServiceGroup list \<Rightarrow> (string \<rightharpoonup> Queue) \<times> bool" where
  "new_queues cfg m defaultExist [] = (m, defaultExist)"
| "new_queues cfg m defaultExist (g # gs) =
     new_queues cfg (m(sg_Name g \<mapsto> NewQueue cfg)) (defaultExist \<or> sg_Name g = DefaultServiceGroup) gs"

definition NewQueuePool :: "QueueConfig \<Rightarrow> ServiceGroup list \<Rightarrow> QueuePool" where
  "NewQueuePool cfg sc =
     (let (m, defaultExist) = new_queues cfg Map.empty False sc
      in \<lparr>qp_Queues = (if \<not> defaultExist then m(DefaultServiceGroup \<mapsto> NewQueue cfg) else m)\<rparr>)"

text \<open>
  \<open>Push\<close> returns the error, the item as it is afterwards (an unknown group's item is renamed, also
  when the push then fails) and the pool. A missing default queue would be a nil dereference.
\<close>

definition QueuePool_Push ::
  "QueuePool \<Rightarrow> string \<Rightarrow> QueueItem \<Rightarrow> go_error option \<times> QueueItem \<times> QueuePool" where
  "QueuePool_Push qp serviceGroup item =
     (let (name, item') =
            (case qp_Queues qp serviceGroup of
               Some _ \<Rightarrow> (serviceGroup, item)
             | None \<Rightarrow> (DefaultServiceGroup, SetResourceName item DefaultServiceGroup))
      in case qp_Queues qp name of
           None \<Rightarrow> (Some (GoPanic ''nil pointer dereference''), item', qp)
         | Some queue \<Rightarrow>
             (let (err, queue') = Queue_Push queue item'
              in (err, item', qp\<lparr>qp_Queues := (qp_Queues qp)(name \<mapsto> queue')\<rparr>)))"

text \<open>The loop that peeks into every queue; \<open>ks\<close> is the order of \<open>range qp.Queues\<close>.\<close>

fun collect_candidates :: "QueuePool \<Rightarrow> string list \<Rightarrow> QueueItem list" where
  "collect_candidates qp [] = []"
| "collect_candidates qp (k # ks) =
     (case qp_Queues qp k of
        None \<Rightarrow> collect_candidates qp ks
      | Some queue \<Rightarrow>
          (case Queue_Peek queue of
             None \<Rightarrow> collect_candidates qp ks
           | Some item \<Rightarrow> item # collect_candidates qp ks))"

definition QueuePool_Pop ::
  "('p \<Rightarrow> QueueItem list \<Rightarrow> QueueItem go_result \<times> 'p) \<Rightarrow> string list \<Rightarrow> 'p \<Rightarrow> QueuePool
   \<Rightarrow> QueueItem option go_result \<times> 'p \<times> QueuePool" where
  "QueuePool_Pop pick ks p qp =
     (let candidates = collect_candidates qp ks
      in if length candidates = 0 then (Inr None, p, qp)
         else case pick p candidates of
                (Inl err, p') \<Rightarrow> (Inl err, p', qp)
              | (Inr pickResult, p') \<Rightarrow>
                  (case qp_Queues qp (ResourceName pickResult) of
                     None \<Rightarrow> (Inl (GoPanic ''nil pointer dereference''), p', qp)
                   | Some queue \<Rightarrow>
                       (let (resultItem, queue') = Queue_Pop queue
                        in (Inr resultItem, p',
                            qp\<lparr>qp_Queues := (qp_Queues qp)(ResourceName pickResult \<mapsto> queue')\<rparr>))))"

section \<open>Histories\<close>

text \<open>
  A run of the pool: pushes by request handlers and pops by the dispatcher, in any order. Every pop
  brings its own iteration order and its own picker method (so its own random draw). The state keeps
  what was accepted and what was handed out, in order.
\<close>

datatype 'p pool_event =
    PushEv string QueueItem
  | PopEv "string list" "'p \<Rightarrow> QueueItem list \<Rightarrow> QueueItem go_result \<times> 'p"

record 'p pool_state =
  ps_pool :: QueuePool
  ps_picker :: 'p
  ps_accepted :: "QueueItem list"
  ps_served :: "QueueItem list"

fun pool_step :: "'p pool_state \<Rightarrow> 'p pool_event \<Rightarrow> 'p pool_state" where
  "pool_step s (PushEv g i) =
     (case QueuePool_Push (ps_pool s) g i of
        (None, i', qp) \<Rightarrow> s\<lparr>ps_pool := qp, ps_accepted := ps_accepted s @ [i']\<rparr>
      | (Some e, i', qp) \<Rightarrow> s\<lparr>ps_pool := qp\<rparr>)"
| "pool_step s (PopEv ks pick) =
     (case QueuePool_Pop pick ks (ps_picker s) (ps_pool s) of
        (Inr (Some i), p, qp) \<Rightarrow> s\<lparr>ps_pool := qp, ps_picker := p, ps_served := ps_served s @ [i]\<rparr>
      | (_, p, qp) \<Rightarrow> s\<lparr>ps_pool := qp, ps_picker := p\<rparr>)"

definition pool_run :: "'p pool_state \<Rightarrow> 'p pool_event list \<Rightarrow> 'p pool_state" where
  "pool_run = foldl pool_step"

definition of_group :: "string \<Rightarrow> QueueItem list \<Rightarrow> QueueItem list" where
  "of_group g = filter (\<lambda>i. ResourceName i = g)"

definition queued :: "QueuePool \<Rightarrow> string \<Rightarrow> QueueItem list" where
  "queued qp g = (case qp_Queues qp g of None \<Rightarrow> [] | Some q \<Rightarrow> q_list q)"

section \<open>Invariant\<close>

definition queue_ok :: "string \<Rightarrow> Queue \<Rightarrow> bool" where
  "queue_ok k q \<longleftrightarrow> (\<forall>i \<in> set (q_list q). ResourceName i = k) \<and> int (length (q_list q)) \<le> max 0 (q_maxSize q)"

definition pool_inv :: "QueuePool \<Rightarrow> bool" where
  "pool_inv qp \<longleftrightarrow> DefaultServiceGroup \<in> dom (qp_Queues qp) \<and>
     (\<forall>k q. qp_Queues qp k = Some q \<longrightarrow> queue_ok k q)"

section \<open>The contract of a bounded queue\<close>

locale bounded_fifo =
  fixes push :: "'q \<Rightarrow> 'a \<Rightarrow> go_error option \<times> 'q"
    and pop :: "'q \<Rightarrow> 'a option \<times> 'q"
    and peek :: "'q \<Rightarrow> 'a option"
    and len :: "'q \<Rightarrow> nat"
    and cap :: "'q \<Rightarrow> int"
    and items :: "'q \<Rightarrow> 'a list"
  assumes push_room: "int (len q) < cap q \<Longrightarrow> fst (push q x) = None \<and> items (snd (push q x)) = items q @ [x]"
    and push_full: "\<not> int (len q) < cap q \<Longrightarrow> fst (push q x) \<noteq> None \<and> items (snd (push q x)) = items q"
    and pop_items: "items (snd (pop q)) = tl (items q)"
    and pop_front: "fst (pop q) = (case items q of [] \<Rightarrow> None | x # _ \<Rightarrow> Some x)"
    and peek_front: "peek q = (case items q of [] \<Rightarrow> None | x # _ \<Rightarrow> Some x)"
    and len_items: "len q = length (items q)"
    and cap_push: "cap (snd (push q x)) = cap q"
    and cap_pop: "cap (snd (pop q)) = cap q"
begin

lemma peek_is_next_pop: "peek q = fst (pop q)"
  by (simp add: peek_front pop_front)

lemma push_within_cap:
  "int (len q) \<le> max 0 (cap q) \<Longrightarrow> int (len (snd (push q x))) \<le> max 0 (cap (snd (push q x)))"
  using push_room [of q x] push_full [of q x]
  by (cases "int (len q) < cap q") (auto simp: cap_push len_items)

lemma pop_within_cap:
  "int (len q) \<le> max 0 (cap q) \<Longrightarrow> int (len (snd (pop q))) \<le> max 0 (cap (snd (pop q)))"
  by (simp add: cap_pop len_items pop_items)

lemma push_pop_empty:
  "items q = [] \<Longrightarrow> 0 < cap q \<Longrightarrow> fst (pop (snd (push q x))) = Some x"
  using push_room [of q x] by (simp add: pop_front len_items)

end

interpretation gq: bounded_fifo Queue_Push Queue_Pop Queue_Peek Queue_Len q_maxSize q_list
  by unfold_locales
    (auto simp: Queue_Push_def Queue_Pop_def Queue_Peek_def Queue_Len_def split: list.splits)

section \<open>Lemmas\<close>

lemma ResourceName_Set [simp]: "ResourceName (SetResourceName i n) = n"
  by (cases i) auto

lemma WaitChan_Set [simp]: "WaitChan (SetResourceName i n) = WaitChan i"
  by (cases i) auto

lemma queue_ok_New: "queue_ok k (NewQueue cfg)"
  by (simp add: queue_ok_def NewQueue_def)

lemma queue_ok_Push [inv_intros]:
  "queue_ok k q \<Longrightarrow> ResourceName i = k \<Longrightarrow> queue_ok k (snd (Queue_Push q i))"
  by (auto simp: queue_ok_def Queue_Push_def)

lemma queue_ok_Pop [inv_intros]: "queue_ok k q \<Longrightarrow> queue_ok k (snd (Queue_Pop q))"
  by (auto simp: queue_ok_def Queue_Pop_def split: list.splits)

lemma new_queues_dom: "dom (fst (new_queues cfg m d gs)) = dom m \<union> sg_Name ` set gs"
  by (induction gs arbitrary: m d) auto

lemma new_queues_flag: "snd (new_queues cfg m d gs) \<longleftrightarrow> d \<or> DefaultServiceGroup \<in> sg_Name ` set gs"
  by (induction gs arbitrary: m d) auto

lemma new_queues_ran: "ran (fst (new_queues cfg m d gs)) \<subseteq> insert (NewQueue cfg) (ran m)"
proof (induction gs arbitrary: m d)
  case (Cons g gs)
  have "ran (m(sg_Name g \<mapsto> NewQueue cfg)) \<subseteq> insert (NewQueue cfg) (ran m)"
    by (auto simp: ran_def)
  with Cons show ?case by fastforce
qed auto

lemma NewQueuePool_dom:
  "dom (qp_Queues (NewQueuePool cfg sc)) = insert DefaultServiceGroup (sg_Name ` set sc)"
  using new_queues_dom [of cfg Map.empty False sc] new_queues_flag [of cfg Map.empty False sc]
  by (cases "new_queues cfg Map.empty False sc") (auto simp: NewQueuePool_def)

lemma NewQueuePool_queues: "qp_Queues (NewQueuePool cfg sc) k = Some q \<Longrightarrow> q = NewQueue cfg"
  using new_queues_ran [of cfg Map.empty False sc]
  by (cases "new_queues cfg Map.empty False sc")
    (auto simp: NewQueuePool_def ran_def split: if_splits)

lemma pool_inv_New [inv_intros]: "pool_inv (NewQueuePool cfg sc)"
  unfolding pool_inv_def using NewQueuePool_dom [of cfg sc]
  by (auto dest!: NewQueuePool_queues intro: queue_ok_New)

lemma pool_inv_update [inv_intros]:
  "pool_inv qp \<Longrightarrow> queue_ok k q \<Longrightarrow> pool_inv (qp\<lparr>qp_Queues := (qp_Queues qp)(k \<mapsto> q)\<rparr>)"
  by (auto simp: pool_inv_def)

lemma QueuePool_Push_cases:
  assumes "pool_inv qp"
  obtains name q item' where
    "name = (if g \<in> dom (qp_Queues qp) then g else DefaultServiceGroup)"
    "item' = (if g \<in> dom (qp_Queues qp) then i else SetResourceName i DefaultServiceGroup)"
    "qp_Queues qp name = Some q" "queue_ok name q"
    "QueuePool_Push qp g i = (fst (Queue_Push q item'), item',
        qp\<lparr>qp_Queues := (qp_Queues qp)(name \<mapsto> snd (Queue_Push q item'))\<rparr>)"
proof (cases "g \<in> dom (qp_Queues qp)")
  case True
  then obtain q where "qp_Queues qp g = Some q" by auto
  with True assms show ?thesis
    by (intro that [of g i q]) (auto simp: QueuePool_Push_def pool_inv_def split: prod.splits)
next
  case False
  then have "qp_Queues qp g = None" by auto
  moreover from assms obtain q where "qp_Queues qp DefaultServiceGroup = Some q"
    by (auto simp: pool_inv_def)
  ultimately show ?thesis using False assms
    by (intro that [of DefaultServiceGroup "SetResourceName i DefaultServiceGroup" q])
      (auto simp: QueuePool_Push_def pool_inv_def split: prod.splits)
qed

lemma QueuePool_Push_named:
  assumes "pool_inv qp" "ResourceName i = g"
  obtains name q i' where "ResourceName i' = name" "WaitChan i' = WaitChan i"
    "qp_Queues qp name = Some q" "queue_ok name q"
    "QueuePool_Push qp g i = (fst (Queue_Push q i'), i',
        qp\<lparr>qp_Queues := (qp_Queues qp)(name \<mapsto> snd (Queue_Push q i'))\<rparr>)"
  using QueuePool_Push_cases [OF assms(1), of g i] assms(2) that by (metis ResourceName_Set WaitChan_Set)

lemma pool_inv_Push [inv_intros]:
  assumes "pool_inv qp" "ResourceName i = g"
  shows "pool_inv (snd (snd (QueuePool_Push qp g i)))"
  using QueuePool_Push_named [OF assms]
  by (metis assms(1) pool_inv_update queue_ok_Push snd_conv)

lemma collect_candidates_set:
  "set (collect_candidates qp ks) =
   {i. \<exists>k q rest. k \<in> set ks \<and> qp_Queues qp k = Some q \<and> q_list q = i # rest}"
  by (induction ks) (auto simp: Queue_Peek_def split: option.splits list.splits)

lemma collect_candidates_empty:
  "collect_candidates qp ks = [] \<longleftrightarrow> (\<forall>k \<in> set ks. queued qp k = [])"
  by (induction ks) (auto simp: Queue_Peek_def queued_def split: option.splits list.splits)

lemma candidate_queue:
  assumes "pool_inv qp" "r \<in> set (collect_candidates qp ks)"
  obtains q rest where "qp_Queues qp (ResourceName r) = Some q" "q_list q = r # rest"
proof -
  from assms(2) obtain k q rest where *: "qp_Queues qp k = Some q" "q_list q = r # rest"
    by (auto simp: collect_candidates_set)
  with assms(1) have "ResourceName r = k" by (auto simp: pool_inv_def queue_ok_def)
  with * show ?thesis using that by auto
qed

section \<open>Clients of a picker\<close>

locale item_picker = picker_contract pick pinv
  for pick :: "'p \<Rightarrow> QueueItem list \<Rightarrow> QueueItem go_result \<times> 'p" and pinv
begin

lemma Pop_cases:
  assumes "pool_inv qp" "pinv p" "QueuePool_Pop pick ks p qp = (res, p', qp')"
  obtains
    (none) "res = Inr None" "p' = p" "qp' = qp" "collect_candidates qp ks = []"
  | (err) e where "res = Inl e" "qp' = qp" "pick p (collect_candidates qp ks) = (Inl e, p')"
      "collect_candidates qp ks \<noteq> []"
  | (item) i q rest where "res = Inr (Some i)" "i \<in> set (collect_candidates qp ks)"
      "pick p (collect_candidates qp ks) = (Inr i, p')"
      "qp_Queues qp (ResourceName i) = Some q" "q_list q = i # rest"
      "qp' = qp\<lparr>qp_Queues := (qp_Queues qp)(ResourceName i \<mapsto> q\<lparr>q_list := rest\<rparr>)\<rparr>"
proof (cases "collect_candidates qp ks = []")
  case True
  with assms(3) show ?thesis by (intro none) (auto simp: QueuePool_Pop_def)
next
  case ne: False
  obtain r p'' where pk: "pick p (collect_candidates qp ks) = (r, p'')" by force
  show ?thesis
  proof (cases r)
    case (Inl e)
    with ne pk assms(3) show ?thesis by (intro err [of e]) (auto simp: QueuePool_Pop_def)
  next
    case (Inr i)
    with pk have mem: "i \<in> set (collect_candidates qp ks)" using pick_mem [OF assms(2)] by blast
    obtain q rest where q: "qp_Queues qp (ResourceName i) = Some q" "q_list q = i # rest"
      using candidate_queue [OF assms(1) mem] .
    with ne pk Inr assms(3) mem show ?thesis
      by (intro item [of i q rest]) (auto simp: QueuePool_Pop_def Queue_Pop_def)
  qed
qed

lemma Pop_keeps_inv:
  assumes "pool_inv qp" "pinv p" "QueuePool_Pop pick ks p qp = (res, p', qp')"
  shows "pool_inv qp' \<and> pinv p'"
proof -
  from assms show ?thesis
  proof (cases rule: Pop_cases)
    case (item i q rest)
    have "queue_ok (ResourceName i) q" using assms(1) item(4) by (simp add: pool_inv_def)
    then have "queue_ok (ResourceName i) (q\<lparr>q_list := rest\<rparr>)"
      using item(5) by (simp add: queue_ok_def)
    with item assms(1) pick_inv [OF assms(2) item(3)] show ?thesis by (simp add: pool_inv_update)
  next
    case (err e)
    with assms(1) pick_inv [OF assms(2) err(3)] show ?thesis by simp
  qed (use assms in auto)
qed

end

interpretation rrq: item_picker rrPicker_Pick rr_inv
  by (intro item_picker.intro rrp.picker_contract_axioms)

lemma item_pickerI: "picker_contract pick pinv \<Longrightarrow> item_picker pick pinv"
  by (simp add: item_picker_def)

lemma queued_upd: "queued (qp\<lparr>qp_Queues := (qp_Queues qp)(k \<mapsto> q)\<rparr>) g = (if g = k then q_list q else queued qp g)"
  by (simp add: queued_def)

text \<open>
  \<open>Push\<close>, on every branch. An item whose group has a queue goes to the end of that queue, any
  other item is renamed to "default" and goes to the default queue; a full queue refuses with
  "queue is full" and nothing changes; no other queue is touched.
\<close>

theorem Push_functional:
  assumes "pool_inv qp"
  shows "let known = g \<in> dom (qp_Queues qp);
             name = (if known then g else DefaultServiceGroup);
             i' = (if known then i else SetResourceName i DefaultServiceGroup);
             (err, item, qp') = QueuePool_Push qp g i
         in item = i' \<and>
            (if int (length (queued qp name)) < q_maxSize (the (qp_Queues qp name))
             then err = None \<and> queued qp' name = queued qp name @ [i'] \<and>
                  (\<forall>k. k \<noteq> name \<longrightarrow> qp_Queues qp' k = qp_Queues qp k)
             else err = Some (Errorf ''queue is full'') \<and> qp_Queues qp' = qp_Queues qp)"
proof -
  obtain name q i' where *: "name = (if g \<in> dom (qp_Queues qp) then g else DefaultServiceGroup)"
    "i' = (if g \<in> dom (qp_Queues qp) then i else SetResourceName i DefaultServiceGroup)"
    "qp_Queues qp name = Some q"
    "QueuePool_Push qp g i = (fst (Queue_Push q i'), i', qp\<lparr>qp_Queues := (qp_Queues qp)(name \<mapsto> snd (Queue_Push q i'))\<rparr>)"
    using QueuePool_Push_cases [OF assms, of g i] by metis
  have "queued qp name = q_list q" using *(3) by (simp add: queued_def)
  with *(3) show ?thesis unfolding Let_def *(4) *(1,2) [symmetric]
    by (auto simp: Queue_Push_def queued_def)
qed

definition http_item :: "string \<Rightarrow> nat \<Rightarrow> QueueItem" where
  "http_item g n = HTTP \<lparr>hi_ServiceGroup = g, hi_CreateTime = 0, hi_Req = n, hi_Writer = n, hi_WaitChan = n\<rparr>"

theorem Push_functional_witness:
  "fst (QueuePool_Push (NewQueuePool \<lparr>qc_Size = 1\<rparr> []) ''vip'' (http_item ''vip'' 1)) = None"
  using Push_functional [OF pool_inv_New [of "\<lparr>qc_Size = 1\<rparr>" "[]"], of "''vip''" "http_item ''vip'' 1"]
  by (auto simp: Let_def NewQueuePool_def NewQueue_def queued_def DefaultServiceGroup_def)

definition ex_rr :: rrPicker where
  "ex_rr = \<lparr>rr_subConns = [sg_example ''default'' 1], rr_next = 0\<rparr>"

definition ex_pool :: QueuePool where
  "ex_pool = \<lparr>qp_Queues = [''default'' \<mapsto> \<lparr>q_maxSize = 2, q_list = [http_item ''default'' 1, http_item ''default'' 2]\<rparr>]\<rparr>"

lemma ex_pool_facts:
  "rr_inv ex_rr" "pool_inv ex_pool" "map_order [''default''] (qp_Queues ex_pool)"
  "QueuePool_Pop rrPicker_Pick [''default''] ex_rr ex_pool
   = (Inr (Some (http_item ''default'' 1)), ex_rr,
      \<lparr>qp_Queues = [''default'' \<mapsto> \<lparr>q_maxSize = 2, q_list = [http_item ''default'' 2]\<rparr>]\<rparr>)"
  by (simp_all add: ex_rr_def ex_pool_def rr_inv_def pool_inv_def queue_ok_def http_item_def
      map_order_def DefaultServiceGroup_def QueuePool_Pop_def Queue_Peek_def Queue_Pop_def
      rrPicker_Pick_def Let_def)

text \<open>
  \<open>Pop\<close> is work conserving and never dereferences a missing queue: with a picker that keeps its
  contract it returns no item exactly when all queues are empty, and its only errors are the
  picker's own; on an error no queue changes.
\<close>

theorem Pop_work_conserving:
  assumes "picker_contract pick pinv" "pinv p" "pool_inv qp" "map_order ks (qp_Queues qp)"
    and "QueuePool_Pop pick ks p qp = (res, p', qp')"
  shows "(res = Inr None \<longleftrightarrow> (\<forall>k. queued qp k = [])) \<and>
         (\<forall>e. res = Inl e \<longrightarrow> fst (pick p (collect_candidates qp ks)) = Inl e \<and> qp' = qp)"
proof -
  have all: "(\<forall>k. queued qp k = []) \<longleftrightarrow> collect_candidates qp ks = []"
    using assms(4) by (auto simp: collect_candidates_empty map_order_def queued_def split: option.splits)
  show ?thesis
    using assms(3,2,5)
    by (cases rule: item_picker.Pop_cases [OF item_pickerI [OF assms(1)], consumes 3, case_names none err item])
      (auto simp: all)
qed

theorem Pop_work_conserving_witness:
  "\<not> (\<forall>k. queued ex_pool k = [])"
  using Pop_work_conserving [OF rrp.picker_contract_axioms ex_pool_facts] by blast

text \<open>
  \<open>Pop\<close> serves the front of a queue: the item it returns is the oldest one of its own group's
  queue, exactly that item is removed, and every other queue is unchanged; the pool's invariant is
  kept.
\<close>

theorem Pop_serves_front:
  assumes "picker_contract pick pinv" "pinv p" "pool_inv qp"
    and "QueuePool_Pop pick ks p qp = (Inr (Some i), p', qp')"
  shows "(\<exists>rest. queued qp (ResourceName i) = i # rest \<and> queued qp' (ResourceName i) = rest) \<and>
         (\<forall>k. k \<noteq> ResourceName i \<longrightarrow> qp_Queues qp' k = qp_Queues qp k) \<and> pool_inv qp' \<and> pinv p'"
proof -
  note ip = item_pickerI [OF assms(1)]
  have "pool_inv qp' \<and> pinv p'" by (rule item_picker.Pop_keeps_inv [OF ip assms(3,2,4)])
  moreover have "(\<exists>rest. queued qp (ResourceName i) = i # rest \<and> queued qp' (ResourceName i) = rest) \<and>
         (\<forall>k. k \<noteq> ResourceName i \<longrightarrow> qp_Queues qp' k = qp_Queues qp k)"
    using assms(3,2,4) by (cases rule: item_picker.Pop_cases [OF ip, consumes 3, case_names none err item]) (auto simp: queued_def)
  ultimately show ?thesis by blast
qed

theorem Pop_serves_front_witness:
  "\<exists>rest. queued ex_pool ''default'' = http_item ''default'' 1 # rest"
proof -
  have "ResourceName (http_item ''default'' 1) = ''default''" by (simp add: http_item_def)
  with Pop_serves_front [OF rrp.picker_contract_axioms ex_pool_facts(1,2,4)] show ?thesis by auto
qed

text \<open>The hypotheses for the pool runs below: every pop uses a picker that keeps the contract.\<close>

fun event_ok :: "('p \<Rightarrow> bool) \<Rightarrow> 'p pool_event \<Rightarrow> bool" where
  "event_ok pinv (PushEv g i) = (ResourceName i = g)"
| "event_ok pinv (PopEv ks pick) = picker_contract pick pinv"

definition history_inv :: "'p pool_state \<Rightarrow> bool" where
  "history_inv s \<longleftrightarrow> (\<forall>g. of_group g (ps_accepted s) = of_group g (ps_served s) @ queued (ps_pool s) g)"

lemma pool_step_inv:
  assumes "event_ok pinv e" "pool_inv (ps_pool s)" "pinv (ps_picker s)" "history_inv s"
  shows "pool_inv (ps_pool (pool_step s e)) \<and> pinv (ps_picker (pool_step s e)) \<and> history_inv (pool_step s e)"
proof (cases e)
  case (PushEv g i)
  with assms(1) have g: "ResourceName i = g" by simp
  obtain name q i' where *: "ResourceName i' = name" "qp_Queues (ps_pool s) name = Some q"
    "QueuePool_Push (ps_pool s) g i = (fst (Queue_Push q i'), i',
       (ps_pool s)\<lparr>qp_Queues := (qp_Queues (ps_pool s))(name \<mapsto> snd (Queue_Push q i'))\<rparr>)"
    using QueuePool_Push_named [OF assms(2) g] by metis
  have inv: "pool_inv (snd (snd (QueuePool_Push (ps_pool s) g i)))"
    using assms(2) g by (rule pool_inv_Push)
  have q: "queued (ps_pool s) name = q_list q" using *(2) by (simp add: queued_def)
  show ?thesis
    using PushEv *(1,3) q inv assms(3,4)
    by (cases "fst (Queue_Push q i')")
      (auto simp: history_inv_def of_group_def queued_upd Queue_Push_def split: if_splits)
next
  case (PopEv ks pick)
  have ip: "item_picker pick pinv" using assms(1) PopEv by (simp add: item_picker_def)
  obtain res p' qp' where pop: "QueuePool_Pop pick ks (ps_picker s) (ps_pool s) = (res, p', qp')"
    by (metis prod_cases3)
  note inv = item_picker.Pop_keeps_inv [OF ip assms(2,3) pop]
  from assms(2,3) pop have "history_inv (pool_step s e)"
  proof (cases rule: item_picker.Pop_cases [OF ip, consumes 3, case_names none err item])
    case (item i q rest)
    then show ?thesis using pop PopEv assms(4)
      by (auto simp: history_inv_def of_group_def queued_upd queued_def)
  qed (use pop PopEv assms(4) in \<open>auto simp: history_inv_def\<close>)
  with inv pop PopEv show ?thesis by (auto split: sum.splits option.splits)
qed

lemma pool_run_inv:
  assumes "\<forall>e \<in> set es. event_ok pinv e" "pool_inv (ps_pool s)" "pinv (ps_picker s)" "history_inv s"
  shows "pool_inv (ps_pool (pool_run s es)) \<and> pinv (ps_picker (pool_run s es)) \<and> history_inv (pool_run s es)"
  using assms
proof (induction es arbitrary: s)
  case (Cons e es)
  have "event_ok pinv e" using Cons.prems by simp
  note step = pool_step_inv [OF this Cons.prems(2-4)]
  from Cons.IH [of "pool_step s e"] Cons.prems(1) step show ?case by (simp add: pool_run_def)
qed (simp add: pool_run_def)

lemma pool_step_maxSize:
  assumes "\<forall>k q. qp_Queues (ps_pool s) k = Some q \<longrightarrow> q_maxSize q = n"
  shows "\<forall>k q. qp_Queues (ps_pool (pool_step s e)) k = Some q \<longrightarrow> q_maxSize q = n"
  using assms
  by (cases e) (auto simp: QueuePool_Push_def QueuePool_Pop_def Queue_Push_def Queue_Pop_def Let_def
      split: option.splits prod.splits sum.splits list.splits if_splits)

lemma pool_run_maxSize:
  assumes "\<forall>k q. qp_Queues (ps_pool s) k = Some q \<longrightarrow> q_maxSize q = n"
  shows "\<forall>k q. qp_Queues (ps_pool (pool_run s es)) k = Some q \<longrightarrow> q_maxSize q = n"
  using assms
proof (induction es arbitrary: s)
  case (Cons e es)
  from Cons.IH [OF pool_step_maxSize [OF Cons.prems, of e]] show ?case by (simp add: pool_run_def)
qed (simp add: pool_run_def)

definition init_pool_state :: "QueueConfig \<Rightarrow> ServiceGroup list \<Rightarrow> 'p \<Rightarrow> 'p pool_state" where
  "init_pool_state cfg sc p =
     \<lparr>ps_pool = NewQueuePool cfg sc, ps_picker = p, ps_accepted = [], ps_served = []\<rparr>"

lemma history_inv_init: "history_inv (init_pool_state cfg sc p)"
  using NewQueuePool_queues [of cfg sc]
  by (fastforce simp: history_inv_def init_pool_state_def of_group_def queued_def NewQueue_def
      split: option.splits)

text \<open>
  C16. First in, first out, per service group, over every interleaving of pushes and pops and for
  every picker: what was accepted for a group is what was served for it, in the same order, followed
  by what still waits in its queue. So no request is lost, duplicated or overtaken within its group,
  and no queue ever holds more than its configured size.
\<close>

theorem pool_fifo:
  assumes "\<forall>e \<in> set es. event_ok pinv e" "pinv p"
  shows "let s = pool_run (init_pool_state cfg sc p) es
         in of_group g (ps_accepted s) = of_group g (ps_served s) @ queued (ps_pool s) g \<and>
            int (length (queued (ps_pool s) g)) \<le> max 0 (qc_Size cfg)"
proof -
  let ?s0 = "init_pool_state cfg sc p"
  have run: "pool_inv (ps_pool (pool_run ?s0 es)) \<and> history_inv (pool_run ?s0 es)"
    using pool_run_inv [OF assms(1), of ?s0] assms(2) history_inv_init [of cfg sc p]
    by (simp add: init_pool_state_def pool_inv_New)
  have size: "qp_Queues (ps_pool (pool_run ?s0 es)) k = Some q \<Longrightarrow> q_maxSize q = qc_Size cfg" for k q
    using pool_run_maxSize [of ?s0 "qc_Size cfg" es] NewQueuePool_queues [of cfg sc]
    by (force simp: init_pool_state_def NewQueue_def)
  show ?thesis using run size
    by (fastforce simp: Let_def history_inv_def queued_def pool_inv_def queue_ok_def split: option.splits)
qed

theorem pool_fifo_witness:
  "let s = pool_run (init_pool_state \<lparr>qc_Size = 2\<rparr> [] ex_rr)
             [PushEv ''default'' (http_item ''default'' 1), PushEv ''default'' (http_item ''default'' 2),
              PopEv [''default''] rrPicker_Pick]
   in of_group ''default'' (ps_accepted s) = of_group ''default'' (ps_served s) @ queued (ps_pool s) ''default'' \<and>
      int (length (queued (ps_pool s) ''default'')) \<le> max 0 (qc_Size \<lparr>qc_Size = 2\<rparr>)"
  by (rule pool_fifo [where pinv = rr_inv])
    (auto simp: ex_pool_facts(1) rrp.picker_contract_axioms http_item_def)

end
