(* ===== verification/Grpc_Pool.thy ===== *)
theory Grpc_Pool
  imports Xconfig
begin

text \<open>
  \<open>pkg/endpoint/pool/grpc_pool.go\<close>: the pool of gRPC client connections. Clients are objects shared
  through pointers, so the state has a store of clients; the buffered channel \<open>clients\<close> is a list, and
  \<open>None\<close> once \<open>Close\<close> has set it to nil. Dialling is grpc's: the outcome of a dial is an argument, and a
  successful one opens a new connection, named like the client that owns it. The time is an argument.

  The select of \<open>Acquire\<close> is an argument too (which of its ready cases the runtime takes), and a call
  that would block has the value \<open>None\<close>. The body of \<open>Client.Close\<close> and the draining loop of
  \<open>Pool.Close\<close> run in goroutines of their own: each is a step of the transition system. The fields of
  \<open>Pool\<close> that no code of the package reads or writes (names, weights, request statistics) are left out.
\<close>

section \<open>State\<close>

record DialOptions =
  do_DialTimeout :: duration
  do_BackoffMaxDelay :: duration
  do_InitialWindowSize :: int32
  do_InitialConnWindowSize :: int32
  do_MaxSendMsgSize :: int
  do_MaxRecvMsgSize :: int
  do_KeepAlive :: duration
  do_KeepAliveTimeout :: duration
  do_BackendAddr :: string

record Pool =
  p_clients :: "nat list option"
  p_capacity :: int32
  p_size :: int32
  p_idleDur :: duration
  p_maxLifeDur :: duration
  p_status :: bool
  p_acquireConnTimeout :: duration
  p_dialOptions :: DialOptions

record Client =
  cl_ClientConn :: "nat option"
  cl_timeUsed :: int
  cl_timeInit :: int
  cl_pool :: bool

text \<open>
  The world around a pool: the store, the counter of addresses, the connections that are open, and
  where the clients are: handed out to requests, or left to the draining goroutine of \<open>Close\<close>.
\<close>

record pool_world =
  w_pool :: Pool
  w_store :: "nat \<Rightarrow> Client"
  w_next :: nat
  w_open :: "nat set"
  w_out :: "nat list"
  w_draining :: "nat list"

type_synonym dial = "go_error option"

section \<open>Operations\<close>

definition IsClose :: "Pool \<Rightarrow> bool" where
  "IsClose p = (p_clients p = None)"

definition Size :: "Pool \<Rightarrow> nat" where
  "Size p = (case p_clients p of None \<Rightarrow> 0 | Some cs \<Rightarrow> length cs)"

definition GetConnCurrent :: "Pool \<Rightarrow> int32" where
  "GetConnCurrent p = p_capacity p - of_nat (Size p)"

definition createClient :: "int \<Rightarrow> dial \<Rightarrow> pool_world \<Rightarrow> nat go_result \<times> pool_world" where
  "createClient now dial w =
     (case dial of
        Some err \<Rightarrow> (Inl ErrPoolInit, w)
      | None \<Rightarrow>
          (let a = w_next w
           in (Inr a, w\<lparr>w_store := (w_store w)(a :=
                  \<lparr>cl_ClientConn = Some a, cl_timeUsed = now, cl_timeInit = now, cl_pool = True\<rparr>),
                w_next := a + 1, w_open := insert a (w_open w)\<rparr>)))"

definition Destory :: "nat \<Rightarrow> pool_world \<Rightarrow> pool_world" where
  "Destory a w =
     (let c = w_store w a;
          w1 = (case cl_ClientConn c of None \<Rightarrow> w | Some conn \<Rightarrow> w\<lparr>w_open := w_open w - {conn}\<rparr>)
      in w1\<lparr>w_store := (w_store w1)(a := c\<lparr>cl_ClientConn := None, cl_pool := False\<rparr>)\<rparr>)"

text \<open>The loop of \<open>initPool\<close>, over the outcomes of its dials; a \<open>createClient\<close> error ends it.\<close>

fun init_loop :: "nat \<Rightarrow> int \<Rightarrow> (nat \<Rightarrow> dial) \<Rightarrow> pool_world \<Rightarrow> go_error option \<times> pool_world" where
  "init_loop 0 now dials w = (None, w)"
| "init_loop (Suc n) now dials w =
     (case createClient now (dials 0) w of
        (Inl e, w1) \<Rightarrow> (Some ErrPoolInit, w1)
      | (Inr a, w1) \<Rightarrow>
          init_loop n now (\<lambda>k. dials (Suc k))
            (w1\<lparr>w_pool := (w_pool w1)\<lparr>p_clients := map_option (\<lambda>cs. cs @ [a]) (p_clients (w_pool w1))\<rparr>\<rparr>))"

definition new_pool :: "GRPCConfig \<Rightarrow> Pool" where
  "new_pool grpcCfg =
     \<lparr>p_clients = Some [], p_capacity = grpc_ConnectionNum grpcCfg, p_size = grpc_ConnectionNum grpcCfg,
      p_idleDur = grpc_RequestIdleTime grpcCfg, p_maxLifeDur = grpc_RequestMaxLife grpcCfg,
      p_status = True, p_acquireConnTimeout = grpc_AcquireConnTimeout grpcCfg,
      p_dialOptions =
        \<lparr>do_DialTimeout = grpc_DialTimeout grpcCfg, do_BackoffMaxDelay = grpc_BackoffMaxDelay grpcCfg,
         do_InitialWindowSize = grpc_InitialWindowSize grpcCfg,
         do_InitialConnWindowSize = grpc_InitialConnWindowSize grpcCfg,
         do_MaxSendMsgSize = grpc_MaxSendMsgSize grpcCfg, do_MaxRecvMsgSize = grpc_MaxRecvMsgSize grpcCfg,
         do_KeepAlive = grpc_KeepAlive grpcCfg, do_KeepAliveTimeout = grpc_KeepAliveTimeout grpcCfg,
         do_BackendAddr = grpc_BackendAddr grpcCfg\<rparr>\<rparr>"

definition initPool :: "GRPCConfig \<Rightarrow> int \<Rightarrow> (nat \<Rightarrow> dial) \<Rightarrow> go_error option \<times> pool_world option" where
  "initPool grpcCfg now dials =
     (if sint (grpc_ConnectionNum grpcCfg) < 0 \<or> grpc_RequestIdleTime grpcCfg < 0
         \<or> grpc_RequestMaxLife grpcCfg < 0
      then (Some ErrPoolInit, None)
      else case init_loop (nat (sint (grpc_ConnectionNum grpcCfg))) now dials
             \<lparr>w_pool = new_pool grpcCfg,
              w_store = (\<lambda>_. \<lparr>cl_ClientConn = None, cl_timeUsed = 0, cl_timeInit = 0, cl_pool = False\<rparr>),
              w_next = 0, w_open = {}, w_out = [], w_draining = []\<rparr> of
             (Some e, w) \<Rightarrow> (Some e, Some w)
           | (None, w) \<Rightarrow> (None, Some w))"

text \<open>The cases of the select in \<open>Acquire\<close>.\<close>

datatype acquire_case = CtxDone | RecvClient | AcquireTimeout

definition reusable :: "Pool \<Rightarrow> Client \<Rightarrow> int \<Rightarrow> bool" where
  "reusable p c now = (p_idleDur p > 0 \<and> cl_timeUsed c + p_idleDur p > now)"

text \<open>\<open>w_out\<close> is bookkeeping: a client returned by \<open>Acquire\<close> belongs to the request that asked for it.\<close>

definition hand_out :: "nat \<Rightarrow> pool_world \<Rightarrow> pool_world" where
  "hand_out a w = w\<lparr>w_out := a # w_out w\<rparr>"

definition Acquire ::
  "acquire_case \<Rightarrow> int \<Rightarrow> dial \<Rightarrow> pool_world \<Rightarrow> (nat go_result \<times> pool_world) option" where
  "Acquire choice now dial w =
     (if IsClose (w_pool w) then Some (Inl (Errorf ''Pool is closed''), w)
      else case choice of
             CtxDone \<Rightarrow> Some (Inl (Errorf ''ctx done after client close !''), w)
           | AcquireTimeout \<Rightarrow> Some (Inl (Errorf ''acquire conn timeout''), w)
           | RecvClient \<Rightarrow>
               (case p_clients (w_pool w) of
                  None \<Rightarrow> None
                | Some [] \<Rightarrow> None
                | Some (a # cs) \<Rightarrow>
                    (let w1 = w\<lparr>w_pool := (w_pool w)\<lparr>p_clients := Some cs\<rparr>\<rparr>;
                         c = w_store w1 a
                     in if reusable (w_pool w) c now
                        then Some (Inr a, hand_out a (w1\<lparr>w_store := (w_store w1)(a := c\<lparr>cl_timeUsed := now\<rparr>)\<rparr>))
                        else case createClient now dial (Destory a w1) of
                               (Inl e, w2) \<Rightarrow> Some (Inl e, w2)
                             | (Inr b, w2) \<Rightarrow> Some (Inr b, hand_out b w2))))"

definition Pool_Close :: "pool_world \<Rightarrow> pool_world" where
  "Pool_Close w =
     (case p_clients (w_pool w) of
        None \<Rightarrow> w
      | Some clients \<Rightarrow>
          w\<lparr>w_pool := (w_pool w)\<lparr>p_clients := None, p_status := False\<rparr>, w_draining := clients\<rparr>)"

text \<open>One iteration of the goroutine that \<open>Pool.Close\<close> starts.\<close>

definition drain_step :: "pool_world \<Rightarrow> pool_world" where
  "drain_step w = (case w_draining w of [] \<Rightarrow> w | a # as \<Rightarrow> Destory a (w\<lparr>w_draining := as\<rparr>))"

text \<open>The goroutine of \<open>Client.Close\<close>; \<open>None\<close> when the send on the full channel blocks.\<close>

definition Client_Close :: "nat \<Rightarrow> int \<Rightarrow> pool_world \<Rightarrow> pool_world option" where
  "Client_Close a now w =
     (let w1 = w\<lparr>w_out := remove1 a (w_out w)\<rparr>; c = w_store w a
      in if \<not> cl_pool c \<or> IsClose (w_pool w) then Some (Destory a w1)
         else if cl_ClientConn c = None then Some w1
         else case p_clients (w_pool w) of
                None \<Rightarrow> None
              | Some cs \<Rightarrow>
                  if int (length cs) < sint (p_capacity (w_pool w))
                  then Some (w1\<lparr>w_store := (w_store w)(a := c\<lparr>cl_timeUsed := now\<rparr>),
                                w_pool := (w_pool w)\<lparr>p_clients := Some (cs @ [a])\<rparr>\<rparr>)
                  else None)"

definition TimeInit :: "Client \<Rightarrow> int" where
  "TimeInit c = cl_timeInit c"

definition TimeUsed :: "Client \<Rightarrow> int" where
  "TimeUsed c = cl_timeUsed c"

section \<open>The transition system\<close>

inductive pool_trans :: "pool_world \<Rightarrow> pool_world \<Rightarrow> bool" where
  acquire: "Acquire choice now dial w = Some (r, w') \<Longrightarrow> pool_trans w w'"
| release: "a \<in> set (w_out w) \<Longrightarrow> Client_Close a now w = Some w' \<Longrightarrow> pool_trans w w'"
| close: "pool_trans w (Pool_Close w)"
| drain: "pool_trans w (drain_step w)"

inductive pool_reach :: "pool_world \<Rightarrow> pool_world \<Rightarrow> bool" for w0 where
  start: "pool_reach w0 w0"
| step: "pool_reach w0 w \<Longrightarrow> pool_trans w w' \<Longrightarrow> pool_reach w0 w'"

interpretation pools: step_system pool_trans pool_reach
proof unfold_locales
  show "P b" if "pool_reach a b" "P a" "\<And>x y. P x \<Longrightarrow> pool_trans x y \<Longrightarrow> P y" for a b P
    using that by (induction rule: pool_reach.induct) auto
qed (auto intro: pool_reach.intros)

inductive_cases pool_transE: "pool_trans w w'"

section \<open>Invariant\<close>

definition idle :: "pool_world \<Rightarrow> nat list" where
  "idle w = (case p_clients (w_pool w) of None \<Rightarrow> [] | Some cs \<Rightarrow> cs)"

definition live :: "pool_world \<Rightarrow> nat list" where
  "live w = idle w @ w_out w @ w_draining w"

definition world_inv :: "pool_world \<Rightarrow> bool" where
  "world_inv w \<longleftrightarrow>
     distinct (live w) \<and> w_open w = set (live w) \<and>
     (\<forall>a \<in> set (live w). a < w_next w \<and> cl_ClientConn (w_store w a) = Some a \<and> cl_pool (w_store w a)) \<and>
     int (length (live w)) \<le> sint (p_capacity (w_pool w)) \<and>
     (p_clients (w_pool w) \<noteq> None \<longrightarrow> w_draining w = [])"

lemma Destory_simps [simp]:
  "w_pool (Destory a w) = w_pool w" "w_next (Destory a w) = w_next w" "w_out (Destory a w) = w_out w"
  "w_draining (Destory a w) = w_draining w"
  "w_store (Destory a w) b = (if b = a then (w_store w a)\<lparr>cl_ClientConn := None, cl_pool := False\<rparr> else w_store w b)"
  "cl_ClientConn (w_store w a) = Some c \<Longrightarrow> w_open (Destory a w) = w_open w - {c}"
  by (auto simp: Destory_def Let_def split: option.splits)

lemma live_Destory [simp]: "live (Destory a w) = live w"
  by (simp add: live_def idle_def)

text \<open>Destroying a client that was just taken out of one of the lists.\<close>

lemma world_inv_Destory:
  assumes "world_inv w" "mset (live w) = add_mset a (mset (live w1))"
    and "w_store w1 = w_store w" "w_next w1 = w_next w" "w_open w1 = w_open w"
    and "p_capacity (w_pool w1) = p_capacity (w_pool w)"
    and "p_clients (w_pool w1) \<noteq> None \<longrightarrow> w_draining w1 = []"
  shows "world_inv (Destory a w1)" "length (live w) = Suc (length (live w1))"
proof -
  show len: "length (live w) = Suc (length (live w1))"
    using arg_cong [OF assms(2), of size] by simp
  have "mset (live w) = mset (a # live w1)" using assms(2) by simp
  then have set: "set (live w) = insert a (set (live w1))" "distinct (live w) = distinct (a # live w1)"
    by (metis mset_eq_setD list.simps(15), metis mset_eq_imp_distinct_iff)
  have conn: "cl_ClientConn (w_store w1 a) = Some a"
    using assms(1,3) set by (simp add: world_inv_def)
  show "world_inv (Destory a w1)"
    using assms(1,3-7) set len unfolding world_inv_def live_Destory Destory_simps(6) [OF conn]
    by (auto simp: live_Destory)
qed

lemma world_inv_new_client:
  assumes "world_inv w" "createClient now dial w = (Inr b, w')"
    and "int (length (live w)) < sint (p_capacity (w_pool w))"
    and "mset (live w2) = add_mset b (mset (live w))" "w_store w2 = w_store w'" "w_next w2 = w_next w'"
    and "w_open w2 = w_open w'" "p_capacity (w_pool w2) = p_capacity (w_pool w)"
    and "p_clients (w_pool w2) \<noteq> None \<longrightarrow> w_draining w2 = []"
  shows "world_inv w2"
proof -
  have b: "b = w_next w" and w': "w' = w\<lparr>w_store := (w_store w)(b :=
        \<lparr>cl_ClientConn = Some b, cl_timeUsed = now, cl_timeInit = now, cl_pool = True\<rparr>),
      w_next := b + 1, w_open := insert b (w_open w)\<rparr>"
    using assms(2) by (auto simp: createClient_def Let_def split: option.splits)
  have fresh: "b \<notin> set (live w)" using assms(1) by (auto simp: world_inv_def b)
  have "mset (live w2) = mset (b # live w)" using assms(4) by simp
  then have "set (live w2) = insert b (set (live w))" "distinct (live w2) = distinct (b # live w)"
    "length (live w2) = Suc (length (live w))"
    by (metis mset_eq_setD list.simps(15), metis mset_eq_imp_distinct_iff, metis size_mset length_Cons)
  then show ?thesis
    using assms(1,3,5-9) fresh unfolding world_inv_def by (auto simp: w' b less_Suc_eq)
qed

lemma createClient_Inr:
  assumes "createClient now dial w = (Inr b, w')"
  shows "b = w_next w" "w_pool w' = w_pool w" "w_out w' = w_out w" "w_draining w' = w_draining w"
    "w_open w' = insert b (w_open w)" "dial = None"
  using assms by (auto simp: createClient_def Let_def split: option.splits)

lemma world_inv_createClient:
  assumes "world_inv w" "createClient now dial w = (Inr b, w')"
    and "int (length (live w)) < sint (p_capacity (w_pool w))"
  shows "world_inv (hand_out b w')"
  by (rule world_inv_new_client [OF assms])
    (use assms(1) createClient_Inr [OF assms(2)] in \<open>auto simp: hand_out_def live_def idle_def world_inv_def\<close>)

lemma createClient_Inl: "createClient now dial w = (Inl e, w') \<Longrightarrow> w' = w \<and> e = ErrPoolInit \<and> dial \<noteq> None"
  by (auto simp: createClient_def Let_def split: option.splits)

text \<open>The branches of \<open>Acquire\<close> that take a client.\<close>

lemma Acquire_cases:
  assumes "Acquire choice now dial w = Some (r, w')"
  obtains (refused) e where "r = Inl e" "w' = w"
  | (reused) a cs where "p_clients (w_pool w) = Some (a # cs)" "r = Inr a" "reusable (w_pool w) (w_store w a) now"
      "w' = hand_out a (w\<lparr>w_pool := (w_pool w)\<lparr>p_clients := Some cs\<rparr>,
              w_store := (w_store w)(a := (w_store w a)\<lparr>cl_timeUsed := now\<rparr>)\<rparr>)"
  | (renewed) a cs b w2 where "p_clients (w_pool w) = Some (a # cs)" "r = Inr b"
      "\<not> reusable (w_pool w) (w_store w a) now" "w' = hand_out b w2"
      "createClient now dial (Destory a (w\<lparr>w_pool := (w_pool w)\<lparr>p_clients := Some cs\<rparr>\<rparr>)) = (Inr b, w2)"
  | (failed) a cs where "p_clients (w_pool w) = Some (a # cs)" "r = Inl ErrPoolInit" "dial \<noteq> None"
      "\<not> reusable (w_pool w) (w_store w a) now"
      "w' = Destory a (w\<lparr>w_pool := (w_pool w)\<lparr>p_clients := Some cs\<rparr>\<rparr>)"
proof (cases "IsClose (w_pool w) \<or> choice \<noteq> RecvClient")
  case True
  then have "\<exists>e. r = Inl e \<and> w' = w"
    using assms by (auto simp: Acquire_def split: acquire_case.splits if_splits)
  then show ?thesis using refused by blast
next
  case False
  then obtain a cs where cs: "p_clients (w_pool w) = Some (a # cs)"
    using assms by (auto simp: Acquire_def IsClose_def split: acquire_case.splits option.splits list.splits)
  let ?w1 = "w\<lparr>w_pool := (w_pool w)\<lparr>p_clients := Some cs\<rparr>\<rparr>"
  note acq = assms [unfolded Acquire_def, simplified, unfolded cs]
  show ?thesis
  proof (cases "reusable (w_pool w) (w_store w a) now")
    case True
    then show ?thesis using acq False cs by (intro reused [of a cs]) (auto simp: Let_def)
  next
    case no: False
    obtain res w2 where c: "createClient now dial (Destory a ?w1) = (res, w2)"
      by (cases "createClient now dial (Destory a ?w1)")
    show ?thesis
    proof (cases res)
      case (Inl e)
      then show ?thesis using acq False cs no c createClient_Inl [of now dial "Destory a ?w1" e w2]
        by (intro failed [of a cs]) (auto simp: Let_def)
    next
      case (Inr b)
      then show ?thesis using acq False cs no c by (intro renewed [of a cs b w2]) (auto simp: Let_def)
    qed
  qed
qed

lemma world_inv_Acquire [inv_intros]:
  assumes "world_inv w" "Acquire choice now dial w = Some (r, w')"
  shows "world_inv w'"
  using assms(2)
proof (cases rule: Acquire_cases)
  case refused
  then show ?thesis using assms(1) by simp
next
  case (reused a cs)
  then show ?thesis using assms(1)
    by (auto simp: world_inv_def live_def idle_def hand_out_def)
next
  case (renewed a cs b w2)
  let ?w1 = "w\<lparr>w_pool := (w_pool w)\<lparr>p_clients := Some cs\<rparr>\<rparr>"
  have d: "world_inv (Destory a ?w1)" "length (live w) = Suc (length (live ?w1))"
    by (rule world_inv_Destory [OF assms(1)];
        use renewed(1) assms(1) in \<open>auto simp: world_inv_def live_def idle_def\<close>)+
  have "int (length (live w)) \<le> sint (p_capacity (w_pool w))" using assms(1) by (simp add: world_inv_def)
  then have "int (length (live (Destory a ?w1))) < sint (p_capacity (w_pool (Destory a ?w1)))"
    using d(2) by simp
  with world_inv_createClient [OF d(1) renewed(5)] renewed(4) show ?thesis by simp
next
  case (failed a cs)
  then show ?thesis unfolding failed(5)
    by (intro world_inv_Destory(1) [OF assms(1)]) (use assms(1) in \<open>auto simp: world_inv_def live_def idle_def\<close>)
qed

lemma mset_remove1: "a \<in> set xs \<Longrightarrow> mset xs = add_mset a (mset (remove1 a xs))"
  by simp

lemma world_inv_Client_Close [inv_intros]:
  assumes "world_inv w" "a \<in> set (w_out w)" "Client_Close a now w = Some w'"
  shows "world_inv w'"
proof (cases "IsClose (w_pool w)")
  case True
  then have "w' = Destory a (w\<lparr>w_out := remove1 a (w_out w)\<rparr>)"
    using assms(3) by (simp add: Client_Close_def Let_def)
  moreover have "world_inv (Destory a (w\<lparr>w_out := remove1 a (w_out w)\<rparr>))"
    using assms(1) by (rule world_inv_Destory(1))
      (use assms(1,2) True in \<open>auto simp: live_def idle_def world_inv_def IsClose_def\<close>)
  ultimately show ?thesis by simp
next
  case False
  have a: "cl_ClientConn (w_store w a) = Some a" "cl_pool (w_store w a)"
    using assms(1,2) by (auto simp: world_inv_def live_def)
  with False assms(3) obtain cs where cs: "p_clients (w_pool w) = Some cs"
    and w': "w' = w\<lparr>w_out := remove1 a (w_out w), w_store := (w_store w)(a := (w_store w a)\<lparr>cl_timeUsed := now\<rparr>),
        w_pool := (w_pool w)\<lparr>p_clients := Some (cs @ [a])\<rparr>\<rparr>"
    by (auto simp: Client_Close_def Let_def IsClose_def split: if_splits)
  have "mset (live w') = mset (live w)"
    using assms(2) by (simp add: w' live_def idle_def cs)
  then have "set (live w') = set (live w)" "distinct (live w') = distinct (live w)" "length (live w') = length (live w)"
    by (metis mset_eq_setD, metis mset_eq_imp_distinct_iff, metis size_mset)
  then show ?thesis using assms(1) cs a unfolding world_inv_def by (auto simp: w')
qed

lemma world_inv_Close [inv_intros]: "world_inv w \<Longrightarrow> world_inv (Pool_Close w)"
  by (auto simp: Pool_Close_def world_inv_def live_def idle_def split: option.splits)

lemma world_inv_drain [inv_intros]: "world_inv w \<Longrightarrow> world_inv (drain_step w)"
proof (cases "w_draining w")
  case (Cons a as)
  assume inv: "world_inv w"
  then have "world_inv (Destory a (w\<lparr>w_draining := as\<rparr>))"
    by (rule world_inv_Destory(1)) (use inv Cons in \<open>auto simp: live_def idle_def world_inv_def\<close>)
  with Cons show ?thesis by (simp add: drain_step_def)
qed (simp add: drain_step_def)

lemma world_inv_reach: "pool_reach w0 w \<Longrightarrow> world_inv w0 \<Longrightarrow> world_inv w"
  by (rule pools.reach_invariant) (auto elim!: pool_transE intro: inv_intros)

section \<open>Initialisation\<close>

lemma new_pool_simps [simp]:
  "p_clients (new_pool c) = Some []" "p_capacity (new_pool c) = grpc_ConnectionNum c"
  "p_idleDur (new_pool c) = grpc_RequestIdleTime c" "(new_pool c)\<lparr>p_clients := Some []\<rparr> = new_pool c"
  by (simp_all add: new_pool_def)

definition init_done :: "nat \<Rightarrow> (nat \<Rightarrow> dial) \<Rightarrow> pool_world \<Rightarrow> go_error option \<Rightarrow> pool_world \<Rightarrow> bool" where
  "init_done n dials w e w' \<longleftrightarrow>
     (case e of
        None \<Rightarrow> (\<forall>k < n. dials k = None) \<and> world_inv w' \<and> w_out w' = [] \<and>
          length (idle w') = length (idle w) + n \<and> \<not> IsClose (w_pool w') \<and>
          (w_pool w')\<lparr>p_clients := Some []\<rparr> = (w_pool w)\<lparr>p_clients := Some []\<rparr>
      | Some e \<Rightarrow> e = ErrPoolInit \<and> (\<exists>k < n. dials k \<noteq> None))"

lemma init_loop_ok:
  assumes "world_inv w" "p_clients (w_pool w) = Some cs" "w_out w = []"
    and "int (length cs + n) \<le> sint (p_capacity (w_pool w))" and "init_loop n now dials w = (e, w')"
  shows "init_done n dials w e w'"
  using assms
proof (induction n arbitrary: w dials cs)
  case 0
  then show ?case by (auto simp: idle_def IsClose_def init_done_def)
next
  case (Suc n)
  obtain r w1 where c: "createClient now (dials 0) w = (r, w1)" by (cases "createClient now (dials 0) w")
  show ?case
  proof (cases r)
    case (Inl e1)
    then show ?thesis using Suc.prems(5) c createClient_Inl [of now "dials 0" w e1 w1]
      by (auto simp: init_done_def Ex_less_Suc2)
  next
    case (Inr a)
    note cI = createClient_Inr [OF c [unfolded Inr]]
    let ?w2 = "w1\<lparr>w_pool := (w_pool w1)\<lparr>p_clients := Some (cs @ [a])\<rparr>\<rparr>"
    have dr: "w_draining w = []" using Suc.prems(1,2) by (simp add: world_inv_def)
    have "int (length (live w)) < sint (p_capacity (w_pool w))"
      using Suc.prems(2-4) dr by (simp add: live_def idle_def)
    from world_inv_new_client [OF Suc.prems(1) c [unfolded Inr] this, of ?w2] have inv: "world_inv ?w2"
      by (simp add: live_def idle_def cI(2-4) Suc.prems(2,3) dr)
    have "init_loop n now (\<lambda>k. dials (Suc k)) ?w2 = (e, w')"
      using c Inr cI(2) Suc.prems(2,5) by simp
    from Suc.IH [OF inv _ _ _ this] Suc.prems(3,4) cI(2,3)
    have "init_done n (\<lambda>k. dials (Suc k)) ?w2 e w'" by simp
    then show ?thesis using cI(2,6) Suc.prems(2)
      by (cases e) (auto simp: init_done_def idle_def All_less_Suc2 Ex_less_Suc2)
  qed
qed

definition config_valid :: "GRPCConfig \<Rightarrow> bool" where
  "config_valid c \<longleftrightarrow> 0 \<le> sint (grpc_ConnectionNum c) \<and> 0 \<le> grpc_RequestIdleTime c \<and> 0 \<le> grpc_RequestMaxLife c"

lemma initPool_cases:
  "initPool c now dials = (None, Some w) \<Longrightarrow>
     config_valid c \<and> (\<forall>k < nat (sint (grpc_ConnectionNum c)). dials k = None) \<and> world_inv w \<and>
     w_out w = [] \<and> length (idle w) = nat (sint (grpc_ConnectionNum c)) \<and>
     p_capacity (w_pool w) = grpc_ConnectionNum c \<and> p_idleDur (w_pool w) = grpc_RequestIdleTime c \<and>
     \<not> IsClose (w_pool w)"
  "fst (initPool c now dials) = None \<longleftrightarrow>
     config_valid c \<and> (\<forall>k < nat (sint (grpc_ConnectionNum c)). dials k = None)"
  "fst (initPool c now dials) \<noteq> None \<longrightarrow> fst (initPool c now dials) = Some ErrPoolInit"
proof -
  let ?w0 = "\<lparr>w_pool = new_pool c,
      w_store = (\<lambda>_. \<lparr>cl_ClientConn = None, cl_timeUsed = 0, cl_timeInit = 0, cl_pool = False\<rparr>),
      w_next = 0, w_open = {}, w_out = [], w_draining = []\<rparr>"
  let ?n = "nat (sint (grpc_ConnectionNum c))"
  obtain e w' where l: "init_loop ?n now dials ?w0 = (e, w')" by (cases "init_loop ?n now dials ?w0")
  have "world_inv ?w0" if "config_valid c"
    using that by (simp add: world_inv_def live_def idle_def config_valid_def)
  then have loop: "init_done ?n dials ?w0 e w'" if "config_valid c"
    using that init_loop_ok [of ?w0 "[]" ?n now dials e w'] l by (simp add: config_valid_def)
  have pool: "p_capacity p = grpc_ConnectionNum c \<and> p_idleDur p = grpc_RequestIdleTime c"
    if "p\<lparr>p_clients := Some []\<rparr> = new_pool c" for p
    using arg_cong [OF that, of p_capacity] arg_cong [OF that, of p_idleDur] by simp
  have ip: "initPool c now dials = (if config_valid c then (e, Some w') else (Some ErrPoolInit, None))"
    unfolding initPool_def l by (auto simp: config_valid_def split: option.splits)
  show "fst (initPool c now dials) \<noteq> None \<longrightarrow> fst (initPool c now dials) = Some ErrPoolInit"
    "fst (initPool c now dials) = None \<longleftrightarrow> config_valid c \<and> (\<forall>k < ?n. dials k = None)"
    using loop unfolding ip init_done_def by (auto split: option.splits)
  show "initPool c now dials = (None, Some w) \<Longrightarrow>
     config_valid c \<and> (\<forall>k < ?n. dials k = None) \<and> world_inv w \<and>
     w_out w = [] \<and> length (idle w) = ?n \<and> p_capacity (w_pool w) = grpc_ConnectionNum c \<and>
     p_idleDur (w_pool w) = grpc_RequestIdleTime c \<and> \<not> IsClose (w_pool w)"
    using loop pool [of "w_pool w'"] unfolding ip init_done_def
    by (auto simp: idle_def split: if_splits)
qed

lemma trans_capacity: "pool_trans w w' \<Longrightarrow> p_capacity (w_pool w') = p_capacity (w_pool w)"
proof (erule pool_transE)
  fix choice t dial r
  assume "Acquire choice t dial w = Some (r, w')"
  then show ?thesis
    by (cases rule: Acquire_cases) (auto simp: hand_out_def dest!: createClient_Inr(2))
qed (auto simp: Client_Close_def Pool_Close_def drain_step_def Let_def split: if_splits option.splits list.splits)

lemma reach_capacity: "pool_reach w w' \<Longrightarrow> p_capacity (w_pool w') = p_capacity (w_pool w)"
  by (rule pools.reach_invariant [where I = "\<lambda>x. p_capacity (w_pool x) = p_capacity (w_pool w)"]) (auto dest: trans_capacity)

lemma Client_Close_ready:
  assumes "world_inv w" "a \<in> set (w_out w)"
  shows "Client_Close a t w \<noteq> None"
proof (cases "p_clients (w_pool w)")
  case (Some cs)
  have "int (length (live w)) \<le> sint (p_capacity (w_pool w))" using assms(1) by (simp add: world_inv_def)
  moreover have "length cs < length (live w)"
    using assms(2) by (cases "w_out w") (auto simp: live_def idle_def Some)
  ultimately have "int (length cs) < sint (p_capacity (w_pool w))" by linarith
  then show ?thesis by (simp add: Client_Close_def Let_def Some)
qed (simp add: Client_Close_def Let_def IsClose_def)

section \<open>Properties\<close>


definition cfg2 :: GRPCConfig where
  "cfg2 = default_GRPCConfig\<lparr>grpc_ConnectionNum := 2\<rparr>"

lemma cfg2_init: "initPool cfg2 0 (\<lambda>_. None) = (None, snd (initPool cfg2 0 (\<lambda>_. None)))"
  "\<exists>w. snd (initPool cfg2 0 (\<lambda>_. None)) = Some w"
proof -
  have v: "config_valid cfg2"
    by (simp add: config_valid_def cfg2_def default_GRPCConfig_def time_Second_def)
  then have n: "fst (initPool cfg2 0 (\<lambda>_. None)) = None" by (simp add: initPool_cases(2))
  then show "initPool cfg2 0 (\<lambda>_. None) = (None, snd (initPool cfg2 0 (\<lambda>_. None)))"
    by (metis prod.collapse)
  show "\<exists>w. snd (initPool cfg2 0 (\<lambda>_. None)) = Some w"
    using n by (auto simp: initPool_def split: if_splits prod.splits option.splits)
qed


text \<open>
  \<open>NewGrpcPool\<close> succeeds exactly when the connection number and both durations are not negative and
  every one of its dials succeeds; it then holds \<open>ConnectionNum\<close> idle clients. Every failure is the
  error "Pool init error".
\<close>

theorem initPool_result:
  "(fst (initPool c now dials) = None \<longleftrightarrow>
      0 \<le> sint (grpc_ConnectionNum c) \<and> 0 \<le> grpc_RequestIdleTime c \<and> 0 \<le> grpc_RequestMaxLife c \<and>
      (\<forall>k. k < nat (sint (grpc_ConnectionNum c)) \<longrightarrow> dials k = None)) \<and>
   (fst (initPool c now dials) \<in> {None, Some ErrPoolInit}) \<and>
   (\<forall>w. initPool c now dials = (None, Some w) \<longrightarrow>
      length (idle w) = nat (sint (grpc_ConnectionNum c)) \<and> GetConnCurrent (w_pool w) = 0)"
proof -
  have "GetConnCurrent (w_pool w) = 0 \<and> length (idle w) = nat (sint (grpc_ConnectionNum c))"
    if "initPool c now dials = (None, Some w)" for w
  proof -
    note i = initPool_cases(1) [OF that]
    then have "Size (w_pool w) = nat (sint (grpc_ConnectionNum c))"
      by (auto simp: Size_def idle_def IsClose_def split: option.splits)
    then have "(of_nat (Size (w_pool w)) :: int32) = word_of_int (sint (grpc_ConnectionNum c))"
      using i by (simp add: config_valid_def)
    then show ?thesis using i by (simp add: GetConnCurrent_def)
  qed
  moreover have "config_valid c \<longleftrightarrow>
      0 \<le> sint (grpc_ConnectionNum c) \<and> 0 \<le> grpc_RequestIdleTime c \<and> 0 \<le> grpc_RequestMaxLife c"
    by (simp add: config_valid_def)
  ultimately show ?thesis
    using initPool_cases(2,3) [of c now dials] by auto
qed

theorem initPool_result_witness:
  "fst (initPool cfg2 0 (\<lambda>k. if k = 1 then Some (OtherErr ''refused'') else None)) = Some ErrPoolInit"
proof -
  have "fst (initPool cfg2 0 (\<lambda>k. if k = 1 then Some (OtherErr ''refused'') else None)) \<noteq> None"
    using initPool_result [of cfg2 0 "\<lambda>k. if k = 1 then Some (OtherErr ''refused'') else None"]
    by (auto simp: cfg2_def intro!: exI [of _ "1::nat"])
  then show ?thesis
    using initPool_result [of cfg2 0 "\<lambda>k. if k = 1 then Some (OtherErr ''refused'') else None"] by auto
qed

text \<open>
  What \<open>Acquire\<close> does with the client it takes from the channel: one used within the idle time
  is returned as it is, with its time of use set; any other is destroyed, and a new connection
  is returned when the dial succeeds; when the dial fails the error is "Pool init error" and the pool has
  one client fewer.
\<close>

theorem Acquire_functional:
  assumes "world_inv w" "p_clients (w_pool w) = Some (a # cs)"
    and "Acquire RecvClient now dial w = Some (r, w')"
  shows "p_clients (w_pool w') = Some cs \<and>
    (if 0 < p_idleDur (w_pool w) \<and> now < cl_timeUsed (w_store w a) + p_idleDur (w_pool w)
     then r = Inr a \<and> TimeUsed (w_store w' a) = now \<and> w_open w' = w_open w
     else if dial = None
     then r = Inr (w_next w) \<and> TimeInit (w_store w' (w_next w)) = now \<and>
          w_open w' = insert (w_next w) (w_open w - {a})
     else r = Inl ErrPoolInit \<and> w_open w' = w_open w - {a})"
proof -
  have conn: "cl_ClientConn (w_store w a) = Some a"
    using assms(1,2) by (auto simp: world_inv_def live_def idle_def)
  then show ?thesis using assms(2,3)
    by (auto simp: Acquire_def IsClose_def reusable_def hand_out_def Let_def createClient_def
        TimeUsed_def TimeInit_def split: if_splits option.splits)
qed

lemma Acquire_ready: "p_clients (w_pool w) = Some (a # cs) \<Longrightarrow> \<exists>r w'. Acquire RecvClient now dial w = Some (r, w')"
  by (auto simp: Acquire_def IsClose_def Let_def split: sum.splits prod.splits)

theorem Acquire_functional_witness:
  "\<exists>w r w'. initPool cfg2 0 (\<lambda>_. None) = (None, Some w) \<and>
     Acquire RecvClient (121 * time_Second) (Some (OtherErr ''refused'')) w = Some (r, w') \<and>
     p_clients (w_pool w') = Some (tl (idle w))"
proof -
  obtain w where w: "initPool cfg2 0 (\<lambda>_. None) = (None, Some w)" using cfg2_init by auto
  note i = initPool_cases(1) [OF w]
  have "length (idle w) = 2" using i by (simp add: cfg2_def)
  then obtain a cs where cs: "p_clients (w_pool w) = Some (a # cs)"
    by (auto simp: idle_def split: option.splits list.splits) (metis length_0_conv list.exhaust zero_neq_numeral)
  obtain r w' where acq: "Acquire RecvClient (121 * time_Second) (Some (OtherErr ''refused'')) w = Some (r, w')"
    using Acquire_ready [OF cs] by blast
  from Acquire_functional [OF _ cs acq] i w acq cs show ?thesis
    by (intro exI [of _ w] exI [of _ r] exI [of _ w']) (auto simp: idle_def)
qed

text \<open>Nothing comes back into a pool that has no client left anywhere.\<close>

lemma reach_empty:
  "pool_reach w w' \<Longrightarrow> idle w = [] \<Longrightarrow> w_out w = [] \<Longrightarrow> w_draining w = [] \<Longrightarrow>
   idle w' = [] \<and> w_out w' = [] \<and> w_draining w' = []"
proof (induction rule: pool_reach.induct)
  case (step w1 w2)
  then have e: "idle w1 = []" "w_out w1 = []" "w_draining w1 = []" by auto
  from step.hyps(2) show ?case
  proof (cases rule: pool_trans.cases)
    case (acquire choice now dial r)
    then show ?thesis using e by (cases rule: Acquire_cases) (auto simp: idle_def)
  qed (use e in \<open>auto simp: Pool_Close_def drain_step_def idle_def split: option.splits\<close>)
qed simp

lemma stale_exhausts:
  "p_clients (w_pool w) = Some cs \<Longrightarrow> world_inv w \<Longrightarrow> w_out w = [] \<Longrightarrow>
   \<forall>a \<in> set cs. \<not> reusable (w_pool w) (w_store w a) now \<Longrightarrow>
   \<exists>w'. pool_reach w w' \<and> p_clients (w_pool w') = Some [] \<and> w_out w' = [] \<and> world_inv w'"
proof (induction cs arbitrary: w)
  case Nil
  then show ?case using pool_reach.start by blast
next
  case (Cons a cs)
  let ?w1 = "Destory a (w\<lparr>w_pool := (w_pool w)\<lparr>p_clients := Some cs\<rparr>\<rparr>)"
  have acq: "Acquire RecvClient now (Some EOF) w = Some (Inl ErrPoolInit, ?w1)"
    using Cons.prems by (simp add: Acquire_def IsClose_def Let_def createClient_def)
  have "a \<notin> set cs" using Cons.prems(1,2) by (auto simp: world_inv_def live_def idle_def)
  then have "\<forall>b \<in> set cs. \<not> reusable (w_pool ?w1) (w_store ?w1 b) now"
    using Cons.prems(4) by (auto simp: reusable_def)
  with Cons.IH [of ?w1] Cons.prems(1,3) world_inv_Acquire [OF Cons.prems(2) acq]
  obtain w' where w': "pool_reach ?w1 w'" "p_clients (w_pool w') = Some []" "w_out w' = []" "world_inv w'"
    by auto
  have "pool_reach w ?w1" using pool_reach.step [OF pool_reach.start pool_trans.acquire [OF acq]] .
  from w'(1) this have "pool_reach w w'"
    by (induction rule: pool_reach.induct) (auto intro: pool_reach.step)
  with w' show ?case by blast
qed

text \<open>
  Failed dials shrink the pool for good: when the idle clients have outlived the idle time and the
  dials of as many acquires fail, the pool reaches a state that is not closed, where no client is left
  and none ever comes back, so that every later \<open>Acquire\<close> waits for its timeout even when the backend
  is reachable again.
\<close>

theorem failed_dials_exhaust:
  assumes "world_inv w" "\<not> IsClose (w_pool w)" "w_out w = []"
    and "\<forall>a \<in> set (idle w). \<not> reusable (w_pool w) (w_store w a) now"
  shows "\<exists>w'. pool_reach w w' \<and> \<not> IsClose (w_pool w') \<and>
    (\<forall>w2. pool_reach w' w2 \<longrightarrow> w_open w2 = {} \<and>
       (\<forall>t. \<not> IsClose (w_pool w2) \<longrightarrow> Acquire RecvClient t None w2 = None))"
proof -
  obtain cs where cs: "p_clients (w_pool w) = Some cs" using assms(2) by (auto simp: IsClose_def)
  with stale_exhausts [OF cs assms(1,3)] assms(4) obtain w'
    where w': "pool_reach w w'" "p_clients (w_pool w') = Some []" "w_out w' = []" "world_inv w'"
    by (auto simp: idle_def)
  have "w_open w2 = {} \<and> (\<forall>t. \<not> IsClose (w_pool w2) \<longrightarrow> Acquire RecvClient t None w2 = None)"
    if "pool_reach w' w2" for w2
  proof -
    have "idle w2 = [] \<and> w_out w2 = [] \<and> w_draining w2 = []"
      using reach_empty [OF that] w' by (simp add: idle_def world_inv_def)
    then show ?thesis using world_inv_reach [OF that w'(4)]
      by (auto simp: world_inv_def live_def idle_def Acquire_def IsClose_def split: option.splits)
  qed
  with w' show ?thesis by (auto simp: IsClose_def)
qed

theorem failed_dials_exhaust_witness:
  "\<exists>w w'. initPool (cfg2\<lparr>grpc_RequestIdleTime := 0\<rparr>) 0 (\<lambda>_. None) = (None, Some w) \<and>
     pool_reach w w' \<and> w_open w' = {}"
proof -
  let ?c = "cfg2\<lparr>grpc_RequestIdleTime := 0\<rparr>"
  have "config_valid ?c" by (simp add: config_valid_def cfg2_def default_GRPCConfig_def time_Second_def)
  then have "fst (initPool ?c 0 (\<lambda>_. None)) = None" by (simp add: initPool_cases(2))
  then obtain w where w: "initPool ?c 0 (\<lambda>_. None) = (None, Some w)"
    by (auto simp: initPool_def split: if_splits prod.splits option.splits)
  note i = initPool_cases(1) [OF w]
  then have "\<forall>a \<in> set (idle w). \<not> reusable (w_pool w) (w_store w a) 0" by (simp add: reusable_def)
  with failed_dials_exhaust [of w 0] i w show ?thesis by (blast intro: pool_reach.start)
qed

lemma drain_all:
  "world_inv w \<Longrightarrow> IsClose (w_pool w) \<Longrightarrow> n = length (w_draining w) \<Longrightarrow>
   world_inv ((drain_step ^^ n) w) \<and> w_draining ((drain_step ^^ n) w) = [] \<and>
   w_out ((drain_step ^^ n) w) = w_out w \<and> w_pool ((drain_step ^^ n) w) = w_pool w"
proof (induction n arbitrary: w)
  case (Suc n)
  then obtain a as where "w_draining w = a # as" by (cases "w_draining w") auto
  then have "w_draining (drain_step w) = as \<and> w_out (drain_step w) = w_out w \<and> w_pool (drain_step w) = w_pool w"
    "length as = n" using Suc.prems(3) by (auto simp: drain_step_def)
  with Suc.IH [of "drain_step w"] Suc.prems world_inv_drain [of w] show ?case
    unfolding funpow_Suc_right comp_def by simp
qed simp

lemma release_all:
  "world_inv w \<Longrightarrow> IsClose (w_pool w) \<Longrightarrow> w_draining w = [] \<Longrightarrow> w_out w = as \<Longrightarrow>
   w_open (fold (\<lambda>a w. the (Client_Close a t w)) as w) = {}"
proof (induction as arbitrary: w)
  case Nil
  then show ?case by (simp add: world_inv_def live_def idle_def IsClose_def)
next
  case (Cons a as)
  have c: "Client_Close a t w = Some (Destory a (w\<lparr>w_out := as\<rparr>))"
    using Cons.prems by (simp add: Client_Close_def Let_def)
  have "world_inv (Destory a (w\<lparr>w_out := as\<rparr>))"
    using world_inv_Client_Close [OF Cons.prems(1) _ c] Cons.prems(4) by simp
  with Cons.IH [of "Destory a (w\<lparr>w_out := as\<rparr>)"] Cons.prems c show ?case by simp
qed

text \<open>
  \<open>Close\<close> releases everything: afterwards every \<open>Acquire\<close> is refused at once; when the draining
  goroutine has run over the idle clients only the connections held by requests are open, and when
  those requests have closed their clients none is.
\<close>

theorem Close_releases_all:
  assumes "world_inv w" "\<not> IsClose (w_pool w)"
  defines "w1 \<equiv> (drain_step ^^ length (idle w)) (Pool_Close w)"
  shows "(\<forall>choice now dial. Acquire choice now dial (Pool_Close w) = Some (Inl (Errorf ''Pool is closed''), Pool_Close w)) \<and>
    w_open w1 = set (w_out w) \<and> w_open (fold (\<lambda>a w. the (Client_Close a t w)) (w_out w) w1) = {}"
proof -
  obtain cs where cs: "p_clients (w_pool w) = Some cs" using assms(2) by (auto simp: IsClose_def)
  then have c: "IsClose (w_pool (Pool_Close w))" "w_draining (Pool_Close w) = idle w" "w_out (Pool_Close w) = w_out w"
    by (auto simp: Pool_Close_def IsClose_def idle_def)
  have "world_inv w1 \<and> w_draining w1 = [] \<and> w_out w1 = w_out w \<and> IsClose (w_pool w1)"
    using drain_all [OF world_inv_Close [OF assms(1)] c(1), of "length (idle w)"] c
    by (simp add: w1_def)
  moreover from this have "w_open w1 = set (w_out w)"
    by (simp add: world_inv_def live_def idle_def IsClose_def)
  ultimately show ?thesis using release_all [of w1 "w_out w" t] c(1) by (simp add: Acquire_def)
qed

theorem Close_releases_all_witness:
  "\<exists>w. initPool cfg2 0 (\<lambda>_. None) = (None, Some w) \<and>
     w_open ((drain_step ^^ length (idle w)) (Pool_Close w)) = {}"
proof -
  obtain w where w: "initPool cfg2 0 (\<lambda>_. None) = (None, Some w)" using cfg2_init by auto
  with Close_releases_all [of w 0] initPool_cases(1) [OF w] show ?thesis by auto
qed

end
