(* ===== verification/Broker.thy ===== *)
theory Broker
  imports Scheduler Queues Grpc_Pool
begin

text \<open>
  The broker's endpoints (\<open>internal/broker/endpoint\<close>): construction of the HTTP and the gRPC server,
  admission of a request into the queues (\<open>EnqueueRequests\<close>), the dispatcher loop
  (\<open>ProcessRequests\<close>, the same code in both servers up to the type of the item) and \<open>HandleRequest\<close>,
  which hands the request to the backend and closes the wait channel of the waiting caller.

  The fields both servers share are the record \<open>dispatcher\<close>, which the records of the two servers
  extend; the dispatcher's code is modelled once over it. \<open>WorkPool\<close>, a buffered channel of empty
  structs, is the number of tokens in it; a closed channel is a flag, and the wait channels are
  numbers handed out by a counter. The calls of the metrics package are logged.

  The steps of the goroutines interleave in \<open>broker_step\<close>: requests arrive at any moment, and the
  dispatcher is at the top of its loop, has popped an item, is handling it, or has returned.
\<close>

section \<open>The servers\<close>

datatype metric_call =
    BrokerReceivedRequestTotal string string
  | BrokerProcessingDuration string string
  | BackendHandledRequestTotal string string
  | BackendReceivedRequestTotal string string

record dispatcher =
  d_QueuePool :: QueuePool
  d_Scheduler :: Scheduler
  d_ScheduleMethod :: string
  d_WorkPool :: nat
  d_WorkPoolCap :: nat
  d_stopChan :: bool
  d_EnableFlowControl :: bool
  d_metrics :: "metric_call list"

record Transport =
  tr_DialTimeout :: duration
  tr_KeepAlive :: duration
  tr_ResponseHeaderTimeout :: duration
  tr_IdleConnTimeout :: duration
  tr_MaxIdleConns :: int
  tr_MaxConnsPerHost :: int

record HttpServer =
  hs_Addr :: string
  hs_ReadTimeout :: duration
  hs_WriteTimeout :: duration
  hs_ReadHeaderTimeout :: duration
  hs_IdleTimeout :: duration

record HttpBrokerServer = dispatcher +
  hb_Target :: string
  hb_Transport :: Transport
  hb_Broker :: HttpServer
  hb_Addr :: string

record GRPCBrokerServer = dispatcher +
  gb_Addr :: string
  gb_Pool :: pool_world

section \<open>Construction\<close>

text \<open>The conversion \<open>int32(targetPort)\<close> of a 64-bit value keeps its low 32 bits.\<close>

definition GetTargetPortFromEnv :: "string \<Rightarrow> int32 go_result" where
  "GetTargetPortFromEnv env =
     (case Atoi env of
        None \<Rightarrow> Inl (OtherErr ''strconv.Atoi'')
      | Some targetPort \<Rightarrow> Inr (word_of_int targetPort))"

text \<open>
  \<open>url.Parse\<close> of \<open>http://127.0.0.1:<port>\<close>: the port must consist of digits, so a negative number is
  refused; its size is not checked.
\<close>

definition parse_target :: "int32 \<Rightarrow> string go_result" where
  "parse_target port =
     (if sint port < 0 then Inl (OtherErr ''invalid port'')
      else Inr (''http://127.0.0.1:'' @ show_int (sint port)))"

definition new_dispatcher :: "BrokerConfig \<Rightarrow> QueuePool \<Rightarrow> Scheduler \<Rightarrow> dispatcher" where
  "new_dispatcher cfg qp sched =
     \<lparr>d_QueuePool = qp, d_Scheduler = sched, d_ScheduleMethod = sch_Method (cfg_Schedule cfg),
      d_WorkPool = 0, d_WorkPoolCap = nat (ms_WorkPoolSize (cfg_Broker cfg)), d_stopChan = False,
      d_EnableFlowControl = sch_EnableFlowControl (cfg_Schedule cfg), d_metrics = []\<rparr>"

text \<open>
  The part both constructors share: the queues, the scheduler and its picker (\<open>ks\<close> and \<open>rnd\<close> as in
  \<open>RegeneratePicker\<close>), the work pool channel, whose size must not be negative.
\<close>

definition make_dispatcher ::
  "'a attributes_pkg \<Rightarrow> ServiceGroup list \<Rightarrow> nat \<Rightarrow> BrokerConfig \<Rightarrow> dispatcher go_result" where
  "make_dispatcher A ks rnd cfg =
     (let queuePool = NewQueuePool (cfg_Queue cfg) (cfg_ServiceGroups cfg)
      in case NewScheduler (cfg_Schedule cfg) of
           Inl err \<Rightarrow> Inl err
         | Inr newScheduler \<Rightarrow>
             (case RegeneratePicker A ks rnd newScheduler (cfg_ServiceGroups cfg) of
                Inl err \<Rightarrow> Inl err
              | Inr sched \<Rightarrow>
                  if ms_WorkPoolSize (cfg_Broker cfg) < 0 then Inl (GoPanic ''makechan: size out of range'')
                  else Inr (new_dispatcher cfg queuePool sched)))"

definition NewHttpBrokerServer ::
  "'a attributes_pkg \<Rightarrow> ServiceGroup list \<Rightarrow> nat \<Rightarrow> string \<Rightarrow> BrokerConfig \<Rightarrow> HttpBrokerServer go_result" where
  "NewHttpBrokerServer A ks rnd env cfg =
     (case GetTargetPortFromEnv env of
        Inl err \<Rightarrow> Inl err
      | Inr targetPort \<Rightarrow>
          (case parse_target targetPort of
             Inl err \<Rightarrow> Inl err
           | Inr targetURL \<Rightarrow>
               (let h = ms_HTTP (cfg_Broker cfg);
                    transport = \<lparr>tr_DialTimeout = http_DialTimeout h, tr_KeepAlive = http_KeepAlive h,
                      tr_ResponseHeaderTimeout = http_HeaderTimeout h,
                      tr_IdleConnTimeout = http_IdleConnTimeout h, tr_MaxIdleConns = http_MaxIdleConns h,
                      tr_MaxConnsPerHost = http_MaxConnsPerHost h\<rparr>;
                    server = \<lparr>hs_Addr = ms_Addr (cfg_Broker cfg), hs_ReadTimeout = http_ReadTimeout h,
                      hs_WriteTimeout = http_WriteTimeout h, hs_ReadHeaderTimeout = http_HeaderTimeout h,
                      hs_IdleTimeout = http_IdleConnTimeout h\<rparr>
                in case make_dispatcher A ks rnd cfg of
                     Inl err \<Rightarrow> Inl err
                   | Inr d \<Rightarrow>
                       Inr (dispatcher.extend d
                              \<lparr>hb_Target = targetURL, hb_Transport = transport, hb_Broker = server,
                               hb_Addr = ms_Addr (cfg_Broker cfg)\<rparr>))))"

definition NewGRPCBrokerServer ::
  "'a attributes_pkg \<Rightarrow> ServiceGroup list \<Rightarrow> nat \<Rightarrow> int \<Rightarrow> (nat \<Rightarrow> dial) \<Rightarrow> BrokerConfig
   \<Rightarrow> GRPCBrokerServer go_result" where
  "NewGRPCBrokerServer A ks rnd now dials cfg =
     (case initPool (ms_GRPC (cfg_Broker cfg)) now dials of
        (None, Some pool) \<Rightarrow>
          (case make_dispatcher A ks rnd cfg of
             Inl err \<Rightarrow> Inl err
           | Inr d \<Rightarrow> Inr (dispatcher.extend d
                             \<lparr>gb_Addr = ms_Addr (cfg_Broker cfg), gb_Pool = pool\<rparr>))
      | (Some err, _) \<Rightarrow> Inl err
      | (None, None) \<Rightarrow> Inl ErrPoolInit)"

datatype Endpoint = HttpEndpoint HttpBrokerServer | GrpcEndpoint GRPCBrokerServer

definition GetBrokerEndpoint ::
  "'a attributes_pkg \<Rightarrow> ServiceGroup list \<Rightarrow> nat \<Rightarrow> string \<Rightarrow> int \<Rightarrow> (nat \<Rightarrow> dial) \<Rightarrow> BrokerConfig
   \<Rightarrow> Endpoint go_result" where
  "GetBrokerEndpoint A ks rnd env now dials cfg =
     (if ms_Type (cfg_Broker cfg) = HTTPEndpoint
      then map_sum id HttpEndpoint (NewHttpBrokerServer A ks rnd env cfg)
      else if ms_Type (cfg_Broker cfg) = GRPCEndpoint
      then map_sum id GrpcEndpoint (NewGRPCBrokerServer A ks rnd now dials cfg)
      else Inl (Errorf (''invalid proxy type: '' @ ms_Type (cfg_Broker cfg))))"

section \<open>Admission\<close>

text \<open>An incoming HTTP request: its identity, \<open>Header.Get\<close>, and the time it arrives.\<close>

record HttpRequest =
  rq_id :: nat
  rq_Header :: "string \<Rightarrow> string"
  rq_now :: int

definition request_group :: "HttpRequest \<Rightarrow> string" where
  "request_group r =
     (let serviceGroup = rq_Header r ServiceGroupHeader
      in if serviceGroup = '''' then DefaultServiceGroup else serviceGroup)"

definition http_request_item :: "HttpRequest \<Rightarrow> nat \<Rightarrow> QueueItem" where
  "http_request_item r waitChan =
     HTTP \<lparr>hi_ServiceGroup = request_group r, hi_CreateTime = rq_now r, hi_Req = rq_id r,
           hi_Writer = rq_id r, hi_WaitChan = waitChan\<rparr>"

text \<open>
  \<open>EnqueueRequests\<close> of the HTTP server: the wait channel or the error, the answer that \<open>http.Error\<close>
  writes to the client, the item as it was queued, and the server.
\<close>

definition Http_EnqueueRequests ::
  "HttpRequest \<Rightarrow> nat \<Rightarrow> 'x dispatcher_scheme
   \<Rightarrow> nat go_result \<times> nat option \<times> QueueItem \<times> 'x dispatcher_scheme" where
  "Http_EnqueueRequests r waitChan s =
     (let serviceGroup = request_group r
      in case QueuePool_Push (d_QueuePool s) serviceGroup (http_request_item r waitChan) of
           (Some err, item, qp) \<Rightarrow> (Inl err, Some TooManyRequestsCode, item, s\<lparr>d_QueuePool := qp\<rparr>)
         | (None, item, qp) \<Rightarrow>
             (Inr waitChan, None, item,
              s\<lparr>d_QueuePool := qp,
                d_metrics := d_metrics s @ [BrokerReceivedRequestTotal (d_ScheduleMethod s) serviceGroup]\<rparr>))"

definition grpc_request_item :: "string \<Rightarrow> int \<Rightarrow> nat \<Rightarrow> QueueItem" where
  "grpc_request_item serviceGroup now waitChan =
     GRPC \<lparr>gi_ServiceGroup = serviceGroup, gi_CreateTime = now, gi_WaitChan = waitChan\<rparr>"

definition Grpc_EnqueueRequests ::
  "string \<Rightarrow> int \<Rightarrow> nat \<Rightarrow> 'x dispatcher_scheme \<Rightarrow> nat go_result \<times> QueueItem \<times> 'x dispatcher_scheme" where
  "Grpc_EnqueueRequests serviceGroup now waitChan s =
     (case QueuePool_Push (d_QueuePool s) serviceGroup (grpc_request_item serviceGroup now waitChan) of
        (Some err, item, qp) \<Rightarrow> (Inl err, item, s\<lparr>d_QueuePool := qp\<rparr>)
      | (None, item, qp) \<Rightarrow>
          (Inr waitChan, item,
           s\<lparr>d_QueuePool := qp,
             d_metrics := d_metrics s @ [BrokerReceivedRequestTotal (d_ScheduleMethod s) serviceGroup]\<rparr>))"

section \<open>The dispatcher\<close>

datatype pc = AtTop | HaveItem QueueItem | Handling QueueItem | Returned

text \<open>
  From the top of the loop to the second select: the first select (which returns when the context is done
  or the server is stopped), \<open>Pop\<close>, and the checks of its result. \<open>mine\<close> is the type assertion on
  the item; \<open>ks\<close> and \<open>W\<close> are the iteration order and the random draw of this round.
\<close>

definition ProcessRequests_top ::
  "(QueueItem \<Rightarrow> bool) \<Rightarrow> (QueueItem, 'c) weightedrand_pkg \<Rightarrow> string list \<Rightarrow> bool
   \<Rightarrow> 'x dispatcher_scheme \<Rightarrow> pc \<times> 'x dispatcher_scheme" where
  "ProcessRequests_top mine W ks ctxDone s =
     (if ctxDone \<or> d_stopChan s then (Returned, s)
      else case QueuePool_Pop (Scheduler_Pick W ResourceName) ks (d_Scheduler s) (d_QueuePool s) of
             (res, sched, qp) \<Rightarrow>
               (let s1 = s\<lparr>d_Scheduler := sched, d_QueuePool := qp\<rparr>
                in case res of
                     Inl err \<Rightarrow> (AtTop, s1)
                   | Inr None \<Rightarrow> (AtTop, s1)
                   | Inr (Some item) \<Rightarrow>
                       if \<not> mine item then (AtTop, s1)
                       else (HaveItem item,
                             s1\<lparr>d_metrics := d_metrics s1 @
                                  [BrokerProcessingDuration (d_ScheduleMethod s1) (ResourceName item)]\<rparr>)))"

datatype select_case = SelCtxDone | SelStop | SelWorkPool

text \<open>The second select, taking the case \<open>c\<close>; \<open>None\<close> when that case is not ready.\<close>

definition ProcessRequests_select ::
  "select_case \<Rightarrow> bool \<Rightarrow> QueueItem \<Rightarrow> 'x dispatcher_scheme \<Rightarrow> (pc \<times> 'x dispatcher_scheme) option" where
  "ProcessRequests_select c ctxDone item s =
     (case c of
        SelCtxDone \<Rightarrow> if ctxDone then Some (Returned, s) else None
      | SelStop \<Rightarrow> if d_stopChan s then Some (Returned, s) else None
      | SelWorkPool \<Rightarrow>
          if d_WorkPool s < d_WorkPoolCap s then Some (Handling item, s\<lparr>d_WorkPool := d_WorkPool s + 1\<rparr>)
          else None)"

text \<open>Closing a channel that is closed already panics.\<close>

definition close_chan :: "nat \<Rightarrow> nat list \<Rightarrow> nat list go_result" where
  "close_chan c closed = (if c \<in> set closed then Inl (GoPanic ''close of closed channel'') else Inr (closed @ [c]))"

text \<open>
  \<open>HandleRequest\<close>: the HTTP server forwards the request and logs two metrics, the gRPC server only wakes
  the caller, which forwards the call itself; both close the wait channel and take their token back.
\<close>

definition handle_metrics :: "string \<Rightarrow> QueueItem \<Rightarrow> metric_call list" where
  "handle_metrics method item =
     (case item of
        GRPC g \<Rightarrow> []
      | HTTP h \<Rightarrow> [BackendHandledRequestTotal method (hi_ServiceGroup h),
                   BackendReceivedRequestTotal method (hi_ServiceGroup h)])"

definition HandleRequest ::
  "QueueItem \<Rightarrow> nat list \<Rightarrow> 'x dispatcher_scheme \<Rightarrow> (nat list \<times> 'x dispatcher_scheme) go_result" where
  "HandleRequest item closed s =
     (case close_chan (WaitChan item) closed of
        Inl e \<Rightarrow> Inl e
      | Inr closed' \<Rightarrow>
          Inr (closed', s\<lparr>d_metrics := d_metrics s @ handle_metrics (d_ScheduleMethod s) item,
                          d_WorkPool := d_WorkPool s - 1\<rparr>))"

text \<open>\<open>Stop\<close> closes the stop channel, which a second call does not survive.\<close>

definition Stop :: "'x dispatcher_scheme \<Rightarrow> 'x dispatcher_scheme go_result" where
  "Stop s = (if d_stopChan s then Inl (GoPanic ''close of closed channel'') else Inr (s\<lparr>d_stopChan := True\<rparr>))"

section \<open>Interleavings\<close>

record 'x broker_world =
  bw_srv :: "'x dispatcher_scheme"
  bw_pc :: pc
  bw_ctxDone :: bool
  bw_next :: nat
  bw_closed :: "nat list"
  bw_accepted :: "QueueItem list"
  bw_served :: "QueueItem list"

definition popped :: "pc \<Rightarrow> QueueItem list" where
  "popped c = (case c of HaveItem i \<Rightarrow> [i] | _ \<Rightarrow> [])"

inductive broker_step :: "(QueueItem \<Rightarrow> bool) \<Rightarrow> 'x broker_world \<Rightarrow> 'x broker_world \<Rightarrow> bool" for mine where
  http_arrival:
    "mine (http_request_item r (bw_next w)) \<Longrightarrow>
     Http_EnqueueRequests r (bw_next w) (bw_srv w) = (res, answer, item, s) \<Longrightarrow>
     broker_step mine w (w\<lparr>bw_srv := s, bw_next := bw_next w + 1,
        bw_accepted := bw_accepted w @ (if res = Inr (bw_next w) then [item] else [])\<rparr>)"
| grpc_arrival:
    "mine (grpc_request_item g t (bw_next w)) \<Longrightarrow>
     Grpc_EnqueueRequests g t (bw_next w) (bw_srv w) = (res, item, s) \<Longrightarrow>
     broker_step mine w (w\<lparr>bw_srv := s, bw_next := bw_next w + 1,
        bw_accepted := bw_accepted w @ (if res = Inr (bw_next w) then [item] else [])\<rparr>)"
| top:
    "bw_pc w = AtTop \<Longrightarrow> weightedrand_ok (W :: (QueueItem, QueueItem) weightedrand_pkg) \<Longrightarrow>
     map_order ks (qp_Queues (d_QueuePool (bw_srv w))) \<Longrightarrow>
     ProcessRequests_top mine W ks (bw_ctxDone w) (bw_srv w) = (c, s) \<Longrightarrow>
     broker_step mine w (w\<lparr>bw_srv := s, bw_pc := c, bw_served := bw_served w @ popped c\<rparr>)"
| select:
    "bw_pc w = HaveItem item \<Longrightarrow>
     ProcessRequests_select ch (bw_ctxDone w) item (bw_srv w) = Some (c, s) \<Longrightarrow>
     broker_step mine w (w\<lparr>bw_srv := s, bw_pc := c\<rparr>)"
| handle:
    "bw_pc w = Handling item \<Longrightarrow> HandleRequest item (bw_closed w) (bw_srv w) = Inr (closed, s) \<Longrightarrow>
     broker_step mine w (w\<lparr>bw_srv := s, bw_pc := AtTop, bw_closed := closed\<rparr>)"
| cancel: "broker_step mine w (w\<lparr>bw_ctxDone := True\<rparr>)"
| stop: "Stop (bw_srv w) = Inr s \<Longrightarrow> broker_step mine w (w\<lparr>bw_srv := s\<rparr>)"

inductive broker_reach :: "(QueueItem \<Rightarrow> bool) \<Rightarrow> 'x broker_world \<Rightarrow> 'x broker_world \<Rightarrow> bool" for mine w0 where
  init: "broker_reach mine w0 w0"
| step: "broker_reach mine w0 w \<Longrightarrow> broker_step mine w w' \<Longrightarrow> broker_reach mine w0 w'"

interpretation brk: step_system "broker_step mine" "broker_reach mine" for mine :: "QueueItem \<Rightarrow> bool"
proof unfold_locales
  show "P b" if "broker_reach mine a b" "P a" "\<And>x y. P x \<Longrightarrow> broker_step mine x y \<Longrightarrow> P y"
    for a b :: "'x broker_world" and P
    using that by (induction rule: broker_reach.induct) auto
qed (auto intro: broker_reach.intros)

definition init_world :: "'x dispatcher_scheme \<Rightarrow> 'x broker_world" where
  "init_world s = \<lparr>bw_srv = s, bw_pc = AtTop, bw_ctxDone = False, bw_next = 0, bw_closed = [],
     bw_accepted = [], bw_served = []\<rparr>"

section \<open>Refinement of the queue pool\<close>

text \<open>
  The broker seen as a client of the pool: what it keeps of queues and scheduler is a state of the
  pool machine of the theory \<open>Queues\<close>, and each of its steps is one event of that machine or none.
\<close>

definition pool_view :: "'x broker_world \<Rightarrow> Scheduler pool_state" where
  "pool_view w = \<lparr>ps_pool = d_QueuePool (bw_srv w), ps_picker = d_Scheduler (bw_srv w),
     ps_accepted = bw_accepted w, ps_served = bw_served w\<rparr>"

definition item_kind :: "(QueueItem \<Rightarrow> bool) \<Rightarrow> bool" where
  "item_kind mine \<longleftrightarrow> (\<forall>i n. mine (SetResourceName i n) = mine i)"

fun is_http :: "QueueItem \<Rightarrow> bool" where
  "is_http (HTTP _) = True" | "is_http (GRPC _) = False"

lemma item_kind_http: "item_kind is_http" "item_kind (\<lambda>i. \<not> is_http i)"
proof -
  have "is_http (SetResourceName i n) = is_http i" for i n by (cases i) auto
  then show "item_kind is_http" "item_kind (\<lambda>i. \<not> is_http i)" by (auto simp: item_kind_def)
qed

definition pool_ok :: "(QueueItem \<Rightarrow> bool) \<Rightarrow> 'x broker_world \<Rightarrow> bool" where
  "pool_ok mine w \<longleftrightarrow> pool_inv (d_QueuePool (bw_srv w)) \<and> scheduler_inv (d_Scheduler (bw_srv w)) \<and>
     history_inv (pool_view w) \<and> list_all mine (bw_accepted w)"

lemma Scheduler_contract:
  "weightedrand_ok W \<Longrightarrow> picker_contract (Scheduler_Pick W rname) scheduler_inv"
  by unfold_locales (auto dest: Scheduler_Pick_mem Scheduler_Pick_inv)

lemma queued_accepted:
  assumes "history_inv (pool_view w)" "i \<in> set (queued (d_QueuePool (bw_srv w)) g)"
  shows "i \<in> set (bw_accepted w)"
proof -
  have "i \<in> set (of_group g (bw_accepted w))"
    using assms by (simp add: history_inv_def pool_view_def)
  then show ?thesis by (simp add: of_group_def)
qed

text \<open>An arrival is a push of the new item.\<close>

lemma arrival_view:
  assumes "QueuePool_Push (d_QueuePool (bw_srv w)) g i = (err, item, qp)"
    and "d_QueuePool s = qp" "d_Scheduler s = d_Scheduler (bw_srv w)"
  shows "pool_view (w\<lparr>bw_srv := s, bw_next := n,
      bw_accepted := bw_accepted w @ (if err = None then [item] else [])\<rparr>) = pool_step (pool_view w) (PushEv g i)"
  using assms by (cases err) (simp_all add: pool_view_def)

lemma Http_Enqueue_push:
  assumes "Http_EnqueueRequests r c s = (res, answer, item, s')"
  obtains err qp where "QueuePool_Push (d_QueuePool s) (request_group r) (http_request_item r c) = (err, item, qp)"
    "d_QueuePool s' = qp" "d_Scheduler s' = d_Scheduler s" "(res = Inr c) = (err = None)"
    "answer = (if err = None then None else Some TooManyRequestsCode)"
    "d_WorkPool s' = d_WorkPool s" "d_WorkPoolCap s' = d_WorkPoolCap s" "d_stopChan s' = d_stopChan s"
  using assms by (auto simp: Http_EnqueueRequests_def Let_def split: prod.splits option.splits)

lemma Grpc_Enqueue_push:
  assumes "Grpc_EnqueueRequests g t c s = (res, item, s')"
  obtains err qp where "QueuePool_Push (d_QueuePool s) g (grpc_request_item g t c) = (err, item, qp)"
    "d_QueuePool s' = qp" "d_Scheduler s' = d_Scheduler s" "(res = Inr c) = (err = None)"
    "d_WorkPool s' = d_WorkPool s" "d_WorkPoolCap s' = d_WorkPoolCap s" "d_stopChan s' = d_stopChan s"
  using assms by (auto simp: Grpc_EnqueueRequests_def Let_def split: prod.splits option.splits)

lemma item_group: "ResourceName (http_request_item r c) = request_group r" "WaitChan (http_request_item r c) = c"
  "ResourceName (grpc_request_item g t c) = g" "WaitChan (grpc_request_item g t c) = c"
  by (simp_all add: http_request_item_def grpc_request_item_def)

text \<open>The top of the loop is a pop, or nothing.\<close>

lemma top_cases:
  assumes "ProcessRequests_top mine W ks ctx s = (c, s')" "pool_inv (d_QueuePool s)" "scheduler_inv (d_Scheduler s)"
    and "weightedrand_ok W" "\<And>g i. i \<in> set (queued (d_QueuePool s) g) \<Longrightarrow> mine i"
  obtains (returned) "c = Returned" "s' = s" "ctx \<or> d_stopChan s"
  | (idle) res sched qp where "c = AtTop" "s' = s\<lparr>d_Scheduler := sched, d_QueuePool := qp\<rparr>"
      "QueuePool_Pop (Scheduler_Pick W ResourceName) ks (d_Scheduler s) (d_QueuePool s) = (res, sched, qp)"
      "res = Inr None \<or> (\<exists>e. res = Inl e)" "\<not> (ctx \<or> d_stopChan s)"
  | (item) item sched qp m where "c = HaveItem item"
      "s' = s\<lparr>d_Scheduler := sched, d_QueuePool := qp, d_metrics := m\<rparr>"
      "QueuePool_Pop (Scheduler_Pick W ResourceName) ks (d_Scheduler s) (d_QueuePool s) = (Inr (Some item), sched, qp)"
      "\<not> (ctx \<or> d_stopChan s)"
proof (cases "ctx \<or> d_stopChan s")
  case True
  then show ?thesis using assms(1) by (intro returned) (auto simp: ProcessRequests_top_def)
next
  case go: False
  obtain res sched qp where pop:
    "QueuePool_Pop (Scheduler_Pick W ResourceName) ks (d_Scheduler s) (d_QueuePool s) = (res, sched, qp)"
    by (metis prod_cases3)
  show ?thesis
  proof (cases "\<exists>i. res = Inr (Some i)")
    case False
    then have "res = Inr None \<or> (\<exists>e. res = Inl e)" by (metis not_None_eq sum.exhaust)
    then show ?thesis using assms(1) go pop
      by (intro idle) (auto simp: ProcessRequests_top_def Let_def)
  next
    case True
    then obtain i where i: "res = Inr (Some i)" by blast
    note ip = item_pickerI [OF Scheduler_contract [OF assms(4), of ResourceName]]
    from assms(2,3) pop have "mine i"
      by (cases rule: item_picker.Pop_cases [OF ip, consumes 3, case_names none err item])
        (use i assms(5) [of i "ResourceName i"] in \<open>auto simp: queued_def\<close>)
    then show ?thesis using assms(1) go pop i
      by (intro item) (auto simp: ProcessRequests_top_def Let_def)
  qed
qed

lemma top_view:
  assumes "ProcessRequests_top mine W ks ctx (bw_srv w) = (c, s')" "pool_ok mine w" "weightedrand_ok W"
  shows "let w' = w\<lparr>bw_srv := s', bw_pc := c, bw_served := bw_served w @ popped c\<rparr>
    in pool_view w' = pool_view w \<or> pool_view w' = pool_step (pool_view w) (PopEv ks (Scheduler_Pick W ResourceName))"
proof -
  have q: "mine i" if "i \<in> set (queued (d_QueuePool (bw_srv w)) g)" for g i
    using queued_accepted [OF _ that] assms(2) by (auto simp: pool_ok_def list_all_iff)
  from assms(1) show ?thesis
    by (cases rule: top_cases [OF _ _ _ assms(3) q])
      (use assms(2) in \<open>auto simp: pool_ok_def pool_view_def popped_def Let_def\<close>)
qed

text \<open>The events the broker causes.\<close>

fun broker_event :: "Scheduler pool_event \<Rightarrow> bool" where
  "broker_event (PushEv g i) = (ResourceName i = g)"
| "broker_event (PopEv ks pick) =
     (\<exists>W :: (QueueItem, QueueItem) weightedrand_pkg. weightedrand_ok W \<and> pick = Scheduler_Pick W ResourceName)"

lemma broker_event_ok: "broker_event e \<Longrightarrow> event_ok scheduler_inv e"
  by (cases e) (auto intro: Scheduler_contract)

lemma broker_step_view:
  assumes "broker_step mine w w'" "pool_ok mine w"
  shows "pool_view w' = pool_view w \<or>
    (\<exists>e. broker_event e \<and> pool_view w' = pool_step (pool_view w) e)"
  using assms(1)
proof (cases rule: broker_step.cases)
  case (http_arrival r res answer item s)
  from http_arrival(3) obtain err qp where
    p: "QueuePool_Push (d_QueuePool (bw_srv w)) (request_group r) (http_request_item r (bw_next w)) = (err, item, qp)"
      "d_QueuePool s = qp" "d_Scheduler s = d_Scheduler (bw_srv w)" "(res = Inr (bw_next w)) = (err = None)"
    by (rule Http_Enqueue_push)
  have "pool_view w' = pool_step (pool_view w) (PushEv (request_group r) (http_request_item r (bw_next w)))"
    unfolding http_arrival(1) p(4) by (rule arrival_view [OF p(1-3)])
  then show ?thesis by (metis broker_event.simps(1) item_group(1))
next
  case (grpc_arrival g t res item s)
  from grpc_arrival(3) obtain err qp where
    p: "QueuePool_Push (d_QueuePool (bw_srv w)) g (grpc_request_item g t (bw_next w)) = (err, item, qp)"
      "d_QueuePool s = qp" "d_Scheduler s = d_Scheduler (bw_srv w)" "(res = Inr (bw_next w)) = (err = None)"
    by (rule Grpc_Enqueue_push)
  have "pool_view w' = pool_step (pool_view w) (PushEv g (grpc_request_item g t (bw_next w)))"
    unfolding grpc_arrival(1) p(4) by (rule arrival_view [OF p(1-3)])
  then show ?thesis by (metis broker_event.simps(1) item_group(3))
next
  case (top W ks c s)
  then show ?thesis using top_view [OF top(5) assms(2) top(3)] top(3)
    by (auto simp: Let_def intro!: exI [of _ "PopEv ks (Scheduler_Pick W ResourceName)"])
next
  case (select item ch c s)
  then show ?thesis
    by (auto simp: pool_view_def ProcessRequests_select_def split: select_case.splits if_splits)
next
  case (handle item closed s)
  then show ?thesis by (auto simp: pool_view_def HandleRequest_def split: sum.splits)
next
  case cancel
  then show ?thesis by (simp add: pool_view_def)
next
  case (stop s)
  then show ?thesis by (auto simp: pool_view_def Stop_def split: if_splits)
qed

section \<open>Invariant\<close>

definition in_flight :: "pc \<Rightarrow> QueueItem list" where
  "in_flight c = (case c of HaveItem i \<Rightarrow> [i] | Handling i \<Rightarrow> [i] | _ \<Rightarrow> [])"

definition chan_inv :: "'x broker_world \<Rightarrow> bool" where
  "chan_inv w \<longleftrightarrow> distinct (map WaitChan (bw_accepted w)) \<and> (\<forall>i \<in> set (bw_accepted w). WaitChan i < bw_next w)"

text \<open>
  What was popped is what was answered, in the same order, followed by the item in flight; a
  dispatcher that returned may have kept one popped item unanswered.
\<close>

definition served_inv :: "'x broker_world \<Rightarrow> bool" where
  "served_inv w \<longleftrightarrow>
     (\<exists>rest. map WaitChan (bw_served w) = bw_closed w @ rest \<and>
        (if bw_pc w = Returned then length rest \<le> 1 else rest = map WaitChan (in_flight (bw_pc w))))"

definition work_inv :: "'x broker_world \<Rightarrow> bool" where
  "work_inv w \<longleftrightarrow> d_WorkPool (bw_srv w) = (case bw_pc w of Handling _ \<Rightarrow> 1 | _ \<Rightarrow> 0) \<and>
     d_WorkPool (bw_srv w) \<le> d_WorkPoolCap (bw_srv w)"

definition broker_inv :: "(QueueItem \<Rightarrow> bool) \<Rightarrow> 'x broker_world \<Rightarrow> bool" where
  "broker_inv mine w \<longleftrightarrow> pool_ok mine w \<and> chan_inv w \<and> served_inv w \<and> work_inv w"

lemma push_item:
  assumes "QueuePool_Push qp g i = (err, item, qp')"
  shows "item = i \<or> item = SetResourceName i DefaultServiceGroup"
  using assms by (auto simp: QueuePool_Push_def Let_def split: option.splits prod.splits)

text \<open>What a step does to the list of accepted items.\<close>

lemma step_accepted:
  assumes "broker_step mine w w'" "item_kind mine"
  shows "bw_accepted w' = bw_accepted w \<and> bw_next w \<le> bw_next w' \<or>
    (\<exists>i. bw_accepted w' = bw_accepted w @ [i] \<and> mine i \<and> WaitChan i = bw_next w \<and> bw_next w' = Suc (bw_next w))"
  using assms(1)
proof (cases rule: broker_step.cases)
  case (http_arrival r res answer item s)
  obtain err qp where p: "QueuePool_Push (d_QueuePool (bw_srv w)) (request_group r)
      (http_request_item r (bw_next w)) = (err, item, qp)"
    using http_arrival(3) by (rule Http_Enqueue_push)
  show ?thesis using push_item [OF p] http_arrival(1,2) assms(2) item_group(2) [of r "bw_next w"]
    by (auto simp: item_kind_def)
next
  case (grpc_arrival g t res item s)
  obtain err qp where p: "QueuePool_Push (d_QueuePool (bw_srv w)) g
      (grpc_request_item g t (bw_next w)) = (err, item, qp)"
    using grpc_arrival(3) by (rule Grpc_Enqueue_push)
  show ?thesis using push_item [OF p] grpc_arrival(1,2) assms(2) item_group(4) [of g t "bw_next w"]
    by (auto simp: item_kind_def)
qed auto

lemma pool_ok_step [inv_intros]:
  assumes "broker_step mine w w'" "item_kind mine" "pool_ok mine w"
  shows "pool_ok mine w'"
proof -
  have "list_all mine (bw_accepted w')" using step_accepted [OF assms(1,2)] assms(3) by (auto simp: pool_ok_def)
  moreover have "pool_inv (ps_pool (pool_view w')) \<and> scheduler_inv (ps_picker (pool_view w')) \<and> history_inv (pool_view w')"
  proof -
    have "pool_inv (ps_pool (pool_view w))" "scheduler_inv (ps_picker (pool_view w))" "history_inv (pool_view w)"
      using assms(3) by (auto simp: pool_ok_def pool_view_def)
    then show ?thesis using broker_step_view [OF assms(1,3)] pool_step_inv [of scheduler_inv _ "pool_view w"]
        broker_event_ok by auto
  qed
  ultimately show ?thesis by (simp add: pool_ok_def pool_view_def)
qed

lemma chan_inv_step [inv_intros]:
  assumes "broker_step mine w w'" "item_kind mine" "chan_inv w"
  shows "chan_inv w'"
  using step_accepted [OF assms(1,2)] assms(3) by (fastforce simp: chan_inv_def)

lemma top_pc: "ProcessRequests_top mine W ks ctx s = (c, s') \<Longrightarrow>
    (c = AtTop \<or> c = Returned \<or> (\<exists>i. c = HaveItem i)) \<and> d_WorkPool s' = d_WorkPool s \<and>
    d_WorkPoolCap s' = d_WorkPoolCap s"
  by (auto simp: ProcessRequests_top_def Let_def split: if_splits prod.splits sum.splits option.splits)

lemma served_inv_step [inv_intros]:
  assumes "broker_step mine w w'" "served_inv w" shows "served_inv w'"
  using assms(1)
proof (cases rule: broker_step.cases)
  case (top W ks c s)
  then show ?thesis using assms(2) top_pc [OF top(5)]
    by (auto simp: served_inv_def in_flight_def popped_def)
next
  case (select item ch c s)
  then show ?thesis using assms(2)
    by (auto simp: served_inv_def in_flight_def ProcessRequests_select_def split: select_case.splits if_splits)
next
  case (handle item closed s)
  then show ?thesis using assms(2)
    by (auto simp: served_inv_def in_flight_def HandleRequest_def close_chan_def split: sum.splits if_splits)
qed (use assms(2) in \<open>auto simp: served_inv_def in_flight_def\<close>)

lemma work_inv_step [inv_intros]:
  assumes "broker_step mine w w'" "work_inv w" shows "work_inv w'"
  using assms(1)
proof (cases rule: broker_step.cases)
  case (http_arrival r res answer item s)
  then show ?thesis using assms(2) by (auto simp: work_inv_def elim!: Http_Enqueue_push)
next
  case (grpc_arrival g t res item s)
  then show ?thesis using assms(2) by (auto simp: work_inv_def elim!: Grpc_Enqueue_push)
next
  case (top W ks c s)
  then show ?thesis using assms(2) top_pc [OF top(5)] by (auto simp: work_inv_def)
next
  case (select item ch c s)
  then show ?thesis using assms(2)
    by (auto simp: work_inv_def ProcessRequests_select_def split: select_case.splits if_splits)
next
  case (handle item closed s)
  then show ?thesis using assms(2) by (auto simp: work_inv_def HandleRequest_def split: sum.splits)
qed (use assms(2) in \<open>auto simp: work_inv_def Stop_def split: if_splits\<close>)

lemma broker_inv_step [inv_intros]:
  "broker_step mine w w' \<Longrightarrow> item_kind mine \<Longrightarrow> broker_inv mine w \<Longrightarrow> broker_inv mine w'"
  unfolding broker_inv_def
  using pool_ok_step chan_inv_step served_inv_step work_inv_step by blast

lemma broker_inv_reach:
  "broker_reach mine w0 w \<Longrightarrow> item_kind mine \<Longrightarrow> broker_inv mine w0 \<Longrightarrow> broker_inv mine w"
  by (rule brk.reach_invariant [of mine w0 w "broker_inv mine"]) (auto intro: broker_inv_step)

lemma make_dispatcher_cases:
  assumes "make_dispatcher A ks rnd cfg = Inr d" "attributes_ok A"
    and "map_order ks (pbi_Resources (build_info A (cfg_ServiceGroups cfg)))" "rnd < length ks"
  obtains sched p where "NewScheduler (cfg_Schedule cfg) = Inr sched" "0 \<le> ms_WorkPoolSize (cfg_Broker cfg)"
    "d = new_dispatcher cfg (NewQueuePool (cfg_Queue cfg) (cfg_ServiceGroups cfg)) (sched\<lparr>sd_picker := Some p\<rparr>)"
    "p = (case sd_builder sched of RRPickerBuilder \<Rightarrow> RRPicker \<lparr>rr_subConns = ks, rr_next = rnd\<rparr>
         | WRRPickerBuilder \<Rightarrow> WRRPicker (map_of (rev (map (\<lambda>sc. (sg_Name sc, sg_Weight sc)) ks))))"
proof -
  obtain sched where n: "NewScheduler (cfg_Schedule cfg) = Inr sched"
    using assms(1) by (auto simp: make_dispatcher_def split: sum.splits)
  note b = Build_picker [OF assms(2-4), of "sd_builder sched"]
  then have r: "RegeneratePicker A ks rnd sched (cfg_ServiceGroups cfg) = Inr (sched\<lparr>sd_picker := Some
      (case sd_builder sched of RRPickerBuilder \<Rightarrow> RRPicker \<lparr>rr_subConns = ks, rr_next = rnd\<rparr>
         | WRRPickerBuilder \<Rightarrow> WRRPicker (map_of (rev (map (\<lambda>sc. (sg_Name sc, sg_Weight sc)) ks))))\<rparr>)"
    by (simp add: RegeneratePicker_def)
  from assms(1) [unfolded make_dispatcher_def Let_def n r sum.case] show thesis
    by (intro that [OF n _ _ refl]) (simp_all split: if_split_asm)
qed

lemma init_broker_inv:
  assumes "make_dispatcher A ks rnd cfg = Inr d" "attributes_ok A"
    and "map_order ks (pbi_Resources (build_info A (cfg_ServiceGroups cfg)))" "rnd < length ks"
    and "d_QueuePool s = d_QueuePool d" "d_Scheduler s = d_Scheduler d" "d_WorkPool s = d_WorkPool d"
  shows "broker_inv mine (init_world s)"
proof -
  obtain sched p where d: "NewScheduler (cfg_Schedule cfg) = Inr sched"
    "d = new_dispatcher cfg (NewQueuePool (cfg_Queue cfg) (cfg_ServiceGroups cfg)) (sched\<lparr>sd_picker := Some p\<rparr>)"
    "p = (case sd_builder sched of RRPickerBuilder \<Rightarrow> RRPicker \<lparr>rr_subConns = ks, rr_next = rnd\<rparr>
         | WRRPickerBuilder \<Rightarrow> WRRPicker (map_of (rev (map (\<lambda>sc. (sg_Name sc, sg_Weight sc)) ks))))"
    by (rule make_dispatcher_cases [OF assms(1-4)])
  have "scheduler_inv (d_Scheduler s)"
    using d assms(4,6) by (auto simp: new_dispatcher_def scheduler_inv_def NewScheduler_cases rr_inv_def split: PickerBuilder.splits)
  moreover have "pool_inv (d_QueuePool s)" using assms(5) d(2) by (simp add: new_dispatcher_def pool_inv_New)
  moreover have "history_inv (pool_view (init_world s))"
    using history_inv_init [of "cfg_Queue cfg" "cfg_ServiceGroups cfg"] assms(5) d(2)
    by (simp add: history_inv_def init_pool_state_def pool_view_def init_world_def new_dispatcher_def)
  ultimately show ?thesis
    using assms(7) d(2) by (simp add: broker_inv_def pool_ok_def chan_inv_def served_inv_def work_inv_def
        init_world_def in_flight_def new_dispatcher_def)
qed

section \<open>A picker that never fails\<close>

definition waiting :: "QueuePool \<Rightarrow> nat" where
  "waiting qp = (\<Sum>k \<in> dom (qp_Queues qp). length (queued qp k))"

locale live_picker = item_picker pick pinv
  for pick :: "'p \<Rightarrow> QueueItem list \<Rightarrow> QueueItem go_result \<times> 'p" and pinv +
  fixes names :: "string set"
  assumes pick_live: "pinv p \<Longrightarrow> cs \<noteq> [] \<Longrightarrow> length cs < 2 ^ 31 \<Longrightarrow> ResourceName ` set cs \<subseteq> names \<Longrightarrow>
    \<exists>r p'. pick p cs = (Inr r, p')"
begin

lemma Pop_live:
  assumes "pool_inv qp" "pinv p" "map_order ks (qp_Queues qp)" "dom (qp_Queues qp) = names"
    and "length ks < 2 ^ 31" "waiting qp = Suc n"
  obtains i p' qp' where "QueuePool_Pop pick ks p qp = (Inr (Some i), p', qp')" "waiting qp' = n"
    "dom (qp_Queues qp') = names" "pool_inv qp'" "pinv p'"
proof -
  obtain res p' qp' where pop: "QueuePool_Pop pick ks p qp = (res, p', qp')" by (metis prod_cases3)
  have ks: "set ks = dom (qp_Queues qp)" using assms(3) by (simp add: map_order_def)
  then have fin: "finite (dom (qp_Queues qp))" by (metis List.finite_set)
  let ?cs = "collect_candidates qp ks"
  have len: "length ?cs \<le> length ks"
    by (induction ks) (auto split: option.splits)
  have names: "ResourceName ` set ?cs \<subseteq> names"
    using assms(1,4) by (fastforce elim: candidate_queue)
  from assms(1,2) pop show thesis
  proof (cases rule: Pop_cases)
    case none
    then have "\<forall>k \<in> dom (qp_Queues qp). queued qp k = []" using ks by (simp add: collect_candidates_empty)
    then show thesis using assms(6) by (simp add: waiting_def)
  next
    case (err e)
    then show thesis using pick_live [OF assms(2) err(4) _ names] len assms(5) by auto
  next
    case (item i q rest)
    let ?k = "ResourceName i"
    have k: "?k \<in> dom (qp_Queues qp)" using item(4) by auto
    have dom: "dom (qp_Queues qp') = dom (qp_Queues qp)" using item(4,6) by auto
    have "waiting qp = length (queued qp ?k) + (\<Sum>j \<in> dom (qp_Queues qp) - {?k}. length (queued qp j))"
      unfolding waiting_def using fin k by (rule sum.remove)
    moreover have "waiting qp' = length (queued qp' ?k) + (\<Sum>j \<in> dom (qp_Queues qp) - {?k}. length (queued qp' j))"
      unfolding waiting_def dom using fin k by (rule sum.remove)
    moreover have "(\<Sum>j \<in> dom (qp_Queues qp) - {?k}. length (queued qp' j)) =
        (\<Sum>j \<in> dom (qp_Queues qp) - {?k}. length (queued qp j))"
      using item(6) by (intro sum.cong) (auto simp: queued_upd)
    moreover have "queued qp ?k = i # rest" "queued qp' ?k = rest" using item(4,5,6) by (auto simp: queued_def)
    ultimately have "waiting qp' = n" using assms(6) by simp
    then show thesis using that [of i p' qp'] pop item(1) dom assms(4) Pop_keeps_inv [OF assms(1,2) pop] by simp
  qed
qed

end

definition sched_live :: "string set \<Rightarrow> Scheduler \<Rightarrow> bool" where
  "sched_live names s \<longleftrightarrow> scheduler_inv s \<and>
     (case sd_picker s of
        Some (RRPicker p) \<Rightarrow> True
      | Some (WRRPicker ws) \<Rightarrow> \<forall>n \<in> names. \<exists>v. ws n = Some v \<and> 0 < sint v
      | _ \<Rightarrow> False)"

lemma sched_live_Pick:
  assumes "sched_live names s" "Scheduler_Pick W rname s cs = (res, s')"
  shows "sched_live names s'"
  using assms Scheduler_Pick_inv [of s W rname cs res s']
  by (auto simp: sched_live_def Scheduler_Pick_def split: option.splits prod.splits Picker.splits)

lemma rr_pick_live: "rr_inv p \<Longrightarrow> cs \<noteq> [] \<Longrightarrow> \<exists>r p'. rrPicker_Pick p cs = (Inr r, p')"
  by (auto simp: rrPicker_Pick_def rr_inv_def Let_def)

interpretation rrlive: live_picker rrPicker_Pick rr_inv names
  for names
  by unfold_locales (rule rr_pick_live)

lemma Scheduler_live:
  assumes "weightedrand_ok W"
  shows "live_picker (Scheduler_Pick W ResourceName) (sched_live names) names"
proof unfold_locales
  fix s :: Scheduler and cs r s' res
  show "sched_live names s \<Longrightarrow> Scheduler_Pick W ResourceName s cs = (Inr r, s') \<Longrightarrow> r \<in> set cs"
    using assms by (rule Scheduler_Pick_mem)
  show "sched_live names s \<Longrightarrow> Scheduler_Pick W ResourceName s cs = (res, s') \<Longrightarrow> sched_live names s'"
    by (rule sched_live_Pick)
  assume live: "sched_live names s" and cs: "cs \<noteq> []" "length cs < 2 ^ 31" "ResourceName ` set cs \<subseteq> names"
  consider (rr) p where "sd_picker s = Some (RRPicker p)" "rr_inv p"
    | (wrr) ws where "sd_picker s = Some (WRRPicker ws)" "\<forall>n \<in> names. \<exists>v. ws n = Some v \<and> 0 < sint v"
    using live by (auto simp: sched_live_def scheduler_inv_def split: option.splits Picker.splits)
  then show "\<exists>r s'. Scheduler_Pick W ResourceName s cs = (Inr r, s')"
  proof cases
    case rr
    then show ?thesis using rr_pick_live [OF rr(2) cs(1)] by (auto simp: Scheduler_Pick_def)
  next
    case wrr
    have pos: "\<exists>v. ws (ResourceName c) = Some v \<and> 0 < sint v" if "c \<in> set cs" for c
      using wrr(2) cs(3) that by blast
    have "0 < sint (the (ws (ResourceName (hd cs))))" "hd cs \<in> set cs" using pos [of "hd cs"] cs(1) by auto
    then have "\<exists>r. wrrPicker_Pick W ResourceName ws cs = Inr r"
      using wrr_pick_some [OF assms _ _ _ cs(2), of ResourceName ws "hd cs"] pos by blast
    then show ?thesis using wrr(1) by (auto simp: Scheduler_Pick_def)
  qed
qed

section \<open>Rounds of the dispatcher\<close>

text \<open>One pass through the loop of \<open>ProcessRequests\<close>, without interference, as a function.\<close>

definition top_round ::
  "(QueueItem \<Rightarrow> bool) \<Rightarrow> (QueueItem, QueueItem) weightedrand_pkg \<Rightarrow> string list \<Rightarrow> 'x broker_world \<Rightarrow> 'x broker_world" where
  "top_round mine W ks w =
     (let (c, s) = ProcessRequests_top mine W ks (bw_ctxDone w) (bw_srv w)
      in w\<lparr>bw_srv := s, bw_pc := c, bw_served := bw_served w @ popped c\<rparr>)"

definition select_round :: "'x broker_world \<Rightarrow> 'x broker_world" where
  "select_round w =
     (case bw_pc w of
        HaveItem item \<Rightarrow>
          (case ProcessRequests_select SelWorkPool (bw_ctxDone w) item (bw_srv w) of
             Some (c, s) \<Rightarrow> w\<lparr>bw_srv := s, bw_pc := c\<rparr> | None \<Rightarrow> w)
      | _ \<Rightarrow> w)"

definition handle_round :: "'x broker_world \<Rightarrow> 'x broker_world" where
  "handle_round w =
     (case bw_pc w of
        Handling item \<Rightarrow>
          (case HandleRequest item (bw_closed w) (bw_srv w) of
             Inr (closed, s) \<Rightarrow> w\<lparr>bw_srv := s, bw_pc := AtTop, bw_closed := closed\<rparr> | Inl _ \<Rightarrow> w)
      | _ \<Rightarrow> w)"

fun dispatch_rounds ::
  "(QueueItem \<Rightarrow> bool) \<Rightarrow> ((QueueItem, QueueItem) weightedrand_pkg \<times> string list) list \<Rightarrow> 'x broker_world \<Rightarrow> 'x broker_world" where
  "dispatch_rounds mine [] w = w"
| "dispatch_rounds mine ((W, ks) # rs) w =
     dispatch_rounds mine rs (handle_round (select_round (top_round mine W ks w)))"

lemma served_subset: "history_inv s \<Longrightarrow> mset (ps_served s) \<subseteq># mset (ps_accepted s)"
proof (intro mset_subset_eqI)
  fix i assume h: "history_inv s"
  have c: "count (mset xs) i = count (mset (of_group (ResourceName i) xs)) i" for xs
    by (induction xs) (auto simp: of_group_def)
  show "count (mset (ps_served s)) i \<le> count (mset (ps_accepted s)) i"
    unfolding c [of "ps_served s"] c [of "ps_accepted s"] using h by (simp add: history_inv_def)
qed

lemma distinct_served:
  assumes "broker_inv mine w"
  shows "distinct (map WaitChan (bw_served w))"
proof -
  have "mset (bw_served w) \<subseteq># mset (bw_accepted w)"
    using assms served_subset [of "pool_view w"] by (simp add: broker_inv_def pool_ok_def pool_view_def)
  then have "mset (map WaitChan (bw_served w)) \<subseteq># mset (map WaitChan (bw_accepted w))"
    by (simp add: image_mset_subseteq_mono)
  moreover have "distinct (map WaitChan (bw_accepted w))" using assms by (simp add: broker_inv_def chan_inv_def)
  ultimately show ?thesis
    unfolding distinct_count_atmost_1
    by (metis count_eq_zero_iff le_zero_eq mset_subset_eq_count nat_less_le less_one set_mset_mset)
qed

text \<open>The wait channel of the item in hand has never been closed, so \<open>HandleRequest\<close> does not panic.\<close>

lemma Handling_open:
  assumes "broker_inv mine w" "bw_pc w = Handling i"
  shows "WaitChan i \<notin> set (bw_closed w)"
proof -
  have "map WaitChan (bw_served w) = bw_closed w @ [WaitChan i]"
    using assms by (auto simp: broker_inv_def served_inv_def in_flight_def)
  then show ?thesis using distinct_served [OF assms(1)] by simp
qed

definition drain_state :: "(QueueItem \<Rightarrow> bool) \<Rightarrow> string set \<Rightarrow> 'x broker_world \<Rightarrow> bool" where
  "drain_state mine names w \<longleftrightarrow> broker_inv mine w \<and> bw_pc w = AtTop \<and> \<not> bw_ctxDone w \<and>
     \<not> d_stopChan (bw_srv w) \<and> 0 < d_WorkPoolCap (bw_srv w) \<and> sched_live names (d_Scheduler (bw_srv w)) \<and>
     dom (qp_Queues (d_QueuePool (bw_srv w))) = names"

text \<open>A round with something to do: the three steps of the dispatcher, one after the other.\<close>

lemma round_busy:
  assumes "item_kind mine" "drain_state mine names w" "weightedrand_ok W"
    and "map_order ks (qp_Queues (d_QueuePool (bw_srv w)))" "length ks < 2 ^ 31"
    and "waiting (d_QueuePool (bw_srv w)) = Suc n"
  defines "w' \<equiv> handle_round (select_round (top_round mine W ks w))"
  shows "broker_reach mine w w' \<and> drain_state mine names w' \<and> bw_accepted w' = bw_accepted w \<and>
    waiting (d_QueuePool (bw_srv w')) = n"
proof -
  let ?s = "bw_srv w" and ?pick = "Scheduler_Pick W ResourceName"
  have inv: "broker_inv mine w" "bw_pc w = AtTop" "\<not> (bw_ctxDone w \<or> d_stopChan ?s)" "0 < d_WorkPoolCap ?s"
    "sched_live names (d_Scheduler ?s)" "dom (qp_Queues (d_QueuePool ?s)) = names" "pool_inv (d_QueuePool ?s)"
    using assms(2) by (auto simp: drain_state_def broker_inv_def pool_ok_def)
  obtain i sched qp where pop: "QueuePool_Pop ?pick ks (d_Scheduler ?s) (d_QueuePool ?s) = (Inr (Some i), sched, qp)"
    "waiting qp = n" "dom (qp_Queues qp) = names" "sched_live names sched"
    by (rule live_picker.Pop_live [OF Scheduler_live [OF assms(3)] inv(7,5) assms(4) inv(6) assms(5,6)]) blast
  have q: "mine j" if "j \<in> set (queued (d_QueuePool ?s) g)" for g j
    using queued_accepted [OF _ that] inv(1) by (auto simp: broker_inv_def pool_ok_def list_all_iff)
  obtain c s1 where t: "ProcessRequests_top mine W ks (bw_ctxDone w) ?s = (c, s1)"
    by (cases "ProcessRequests_top mine W ks (bw_ctxDone w) ?s")
  have sc: "scheduler_inv (d_Scheduler ?s)" using inv(5) by (simp add: sched_live_def)
  obtain m where s1: "c = HaveItem i" "s1 = ?s\<lparr>d_Scheduler := sched, d_QueuePool := qp, d_metrics := m\<rparr>"
    using t inv(7) sc assms(3) q pop(1) inv(3) by (cases rule: top_cases) auto
  define w1 where "w1 = w\<lparr>bw_srv := s1, bw_pc := c, bw_served := bw_served w @ popped c\<rparr>"
  have st1: "broker_step mine w w1"
    unfolding w1_def using inv(2) assms(3,4) t by (rule broker_step.top)
  have idle: "d_WorkPool ?s = 0" using inv(1,2) by (simp add: broker_inv_def work_inv_def)
  define w2 where "w2 = w1\<lparr>bw_srv := s1\<lparr>d_WorkPool := 1\<rparr>, bw_pc := Handling i\<rparr>"
  have sel: "ProcessRequests_select SelWorkPool (bw_ctxDone w1) i (bw_srv w1) = Some (Handling i, s1\<lparr>d_WorkPool := 1\<rparr>)"
    using s1(2) inv(4) idle by (simp add: ProcessRequests_select_def w1_def)
  have pc1: "bw_pc w1 = HaveItem i" by (simp add: w1_def s1(1))
  have st2: "broker_step mine w1 w2"
    unfolding w2_def by (rule broker_step.select [OF pc1 sel])
  have inv2: "broker_inv mine w2"
    using broker_inv_step [OF st2 assms(1) broker_inv_step [OF st1 assms(1) inv(1)]] .
  have pc2: "bw_pc w2 = Handling i" by (simp add: w2_def)
  obtain s3 where h: "HandleRequest i (bw_closed w2) (bw_srv w2) = Inr (bw_closed w2 @ [WaitChan i], s3)"
    and s3: "d_Scheduler s3 = sched" "d_QueuePool s3 = qp" "d_stopChan s3 = d_stopChan ?s" "d_WorkPoolCap s3 = d_WorkPoolCap ?s"
    using Handling_open [OF inv2 pc2] s1(2) by (auto simp: HandleRequest_def close_chan_def w2_def)
  define w3 where "w3 = w2\<lparr>bw_srv := s3, bw_pc := AtTop, bw_closed := bw_closed w2 @ [WaitChan i]\<rparr>"
  have st3: "broker_step mine w2 w3"
    unfolding w3_def by (rule broker_step.handle [OF pc2 h])
  have w1: "top_round mine W ks w = w1" by (simp add: top_round_def t w1_def)
  have w2: "select_round w1 = w2" by (simp add: select_round_def pc1 sel w2_def)
  have w': "w' = w3" by (simp add: w'_def w1 w2 handle_round_def pc2 h w3_def)
  have "broker_reach mine w w3"
    using st1 st2 st3 by (blast intro: broker_reach.intros)
  moreover have "drain_state mine names w3"
    using broker_inv_step [OF st3 assms(1) inv2] inv(3,4) pop(3,4) s3
    by (simp add: drain_state_def w3_def w2_def w1_def)
  moreover have "bw_accepted w3 = bw_accepted w" by (simp add: w3_def w2_def w1_def)
  ultimately show ?thesis using pop(2) s3(2) by (simp add: w' w3_def)
qed

lemma round_idle:
  assumes "drain_state mine names w" "weightedrand_ok W"
    and "map_order ks (qp_Queues (d_QueuePool (bw_srv w)))" "waiting (d_QueuePool (bw_srv w)) = 0"
  shows "handle_round (select_round (top_round mine W ks w)) = w"
proof -
  let ?s = "bw_srv w"
  have inv: "bw_pc w = AtTop" "\<not> (bw_ctxDone w \<or> d_stopChan ?s)"
    using assms(1) by (auto simp: drain_state_def)
  have ks: "set ks = dom (qp_Queues (d_QueuePool ?s))" using assms(3) by (simp add: map_order_def)
  then have "finite (dom (qp_Queues (d_QueuePool ?s)))" by (metis List.finite_set)
  then have "\<forall>k \<in> set ks. queued (d_QueuePool ?s) k = []" using assms(4) ks by (simp add: waiting_def)
  then have "collect_candidates (d_QueuePool ?s) ks = []" by (simp add: collect_candidates_empty)
  then show ?thesis
    using inv by (simp add: top_round_def ProcessRequests_top_def QueuePool_Pop_def Let_def popped_def
        select_round_def handle_round_def)
qed

definition round_ok :: "string set \<Rightarrow> (QueueItem, QueueItem) weightedrand_pkg \<times> string list \<Rightarrow> bool" where
  "round_ok names r \<longleftrightarrow> weightedrand_ok (fst r) \<and> distinct (snd r) \<and> set (snd r) = names \<and> length (snd r) < 2 ^ 31"

lemma rounds_drain:
  assumes "item_kind mine" "drain_state mine names w" "\<forall>r \<in> set rs. round_ok names r"
  shows "broker_reach mine w (dispatch_rounds mine rs w) \<and> drain_state mine names (dispatch_rounds mine rs w) \<and>
    bw_accepted (dispatch_rounds mine rs w) = bw_accepted w \<and>
    waiting (d_QueuePool (bw_srv (dispatch_rounds mine rs w))) = waiting (d_QueuePool (bw_srv w)) - length rs"
  using assms(2,3)
proof (induction rs arbitrary: w)
  case Nil
  then show ?case by (simp add: broker_reach.init)
next
  case (Cons r rs)
  obtain W ks where r: "r = (W, ks)" by (cases r)
  let ?w = "handle_round (select_round (top_round mine W ks w))"
  have ok: "weightedrand_ok W" "map_order ks (qp_Queues (d_QueuePool (bw_srv w)))" "length ks < 2 ^ 31"
    using Cons.prems r by (auto simp: round_ok_def map_order_def drain_state_def)
  have "broker_reach mine w ?w \<and> drain_state mine names ?w \<and> bw_accepted ?w = bw_accepted w \<and>
      waiting (d_QueuePool (bw_srv ?w)) = waiting (d_QueuePool (bw_srv w)) - 1"
  proof (cases "waiting (d_QueuePool (bw_srv w))")
    case 0
    then show ?thesis using round_idle [OF Cons.prems(1) ok(1,2)] Cons.prems(1) by (simp add: broker_reach.init)
  next
    case (Suc n)
    then show ?thesis using round_busy [OF assms(1) Cons.prems(1) ok Suc] by simp
  qed
  then show ?case using Cons.IH [of ?w] Cons.prems(2) brk.reach_trans r by fastforce
qed

section \<open>What reachable states keep\<close>

lemma pool_step_dom:
  assumes "pool_inv (ps_pool s)" "event_ok pinv e" "pinv (ps_picker s)"
  shows "dom (qp_Queues (ps_pool (pool_step s e))) = dom (qp_Queues (ps_pool s))"
proof (cases e)
  case (PushEv g i)
  with assms(2) have g: "ResourceName i = g" by simp
  obtain name q i' where "qp_Queues (ps_pool s) name = Some q"
    "QueuePool_Push (ps_pool s) g i = (fst (Queue_Push q i'), i',
       (ps_pool s)\<lparr>qp_Queues := (qp_Queues (ps_pool s))(name \<mapsto> snd (Queue_Push q i'))\<rparr>)"
    by (rule QueuePool_Push_named [OF assms(1) g])
  then show ?thesis using PushEv by (auto split: option.splits)
next
  case (PopEv ks pick)
  then have ip: "item_picker pick pinv" using assms(2) by (simp add: item_picker_def)
  obtain res p' qp' where pop: "QueuePool_Pop pick ks (ps_picker s) (ps_pool s) = (res, p', qp')" by (metis prod_cases3)
  from assms(1,3) pop have "dom (qp_Queues qp') = dom (qp_Queues (ps_pool s))"
    by (cases rule: item_picker.Pop_cases [OF ip, consumes 3, case_names none err item]) auto
  then show ?thesis using PopEv pop by (auto split: sum.splits option.splits)
qed

lemma broker_event_live:
  assumes "broker_event e" shows "event_ok (sched_live names) e"
proof (cases e)
  case (PopEv ks pick)
  then obtain W :: "(QueueItem, QueueItem) weightedrand_pkg" where
    W: "weightedrand_ok W" "pick = Scheduler_Pick W ResourceName" using assms by auto
  have "picker_contract (Scheduler_Pick W ResourceName) (sched_live names)"
    using Scheduler_live [OF W(1), of names] by (simp add: live_picker_def item_picker_def)
  then show ?thesis by (simp add: PopEv W(2))
qed (use assms in simp)

definition live_state :: "string set \<Rightarrow> nat \<Rightarrow> 'x broker_world \<Rightarrow> bool" where
  "live_state names cap w \<longleftrightarrow> sched_live names (d_Scheduler (bw_srv w)) \<and>
     dom (qp_Queues (d_QueuePool (bw_srv w))) = names \<and> d_WorkPoolCap (bw_srv w) = cap"

lemma step_cap: "broker_step mine w w' \<Longrightarrow> d_WorkPoolCap (bw_srv w') = d_WorkPoolCap (bw_srv w)"
proof (induction rule: broker_step.induct)
  case (select w item ch c s)
  then show ?case by (auto simp: ProcessRequests_select_def split: select_case.splits if_splits)
qed (auto elim!: Http_Enqueue_push Grpc_Enqueue_push dest: top_pc simp: HandleRequest_def Stop_def
    split: sum.splits if_splits)

lemma live_state_step:
  assumes "broker_step mine w w'" "broker_inv mine w" "live_state names cap w"
  shows "live_state names cap w'"
proof -
  have ok: "pool_ok mine w" using assms(2) by (simp add: broker_inv_def)
  have v: "pool_inv (ps_pool (pool_view w))" "sched_live names (ps_picker (pool_view w))" "history_inv (pool_view w)"
    "dom (qp_Queues (ps_pool (pool_view w))) = names"
    using ok assms(3) by (auto simp: pool_ok_def pool_view_def live_state_def)
  have "sched_live names (ps_picker (pool_view w')) \<and> dom (qp_Queues (ps_pool (pool_view w'))) = names"
    using broker_step_view [OF assms(1) ok]
  proof (elim disjE exE conjE)
    fix e assume e: "broker_event e" "pool_view w' = pool_step (pool_view w) e"
    note ev = broker_event_live [OF e(1), of names]
    show ?thesis using pool_step_inv [OF ev v(1-3)] pool_step_dom [OF v(1) ev v(2)] v(4) e(2) by simp
  qed (use v in simp)
  then show ?thesis using step_cap [OF assms(1)] assms(3) by (simp add: live_state_def pool_view_def)
qed

lemma live_state_reach:
  "broker_reach mine w0 w \<Longrightarrow> item_kind mine \<Longrightarrow> broker_inv mine w0 \<Longrightarrow> live_state names cap w0 \<Longrightarrow>
   live_state names cap w"
  by (induction rule: broker_reach.induct) (auto intro: live_state_step broker_inv_reach)

text \<open>A started broker: the dispatcher part of either server, as its constructor makes it.\<close>

definition started ::
  "'a attributes_pkg \<Rightarrow> ServiceGroup list \<Rightarrow> nat \<Rightarrow> BrokerConfig \<Rightarrow> 'x dispatcher_scheme \<Rightarrow> bool" where
  "started A ks rnd cfg s \<longleftrightarrow> attributes_ok A \<and>
     map_order ks (pbi_Resources (build_info A (cfg_ServiceGroups cfg))) \<and> rnd < length ks \<and>
     make_dispatcher A ks rnd cfg = Inr (dispatcher.truncate s)"

lemma truncate_fields:
  "d_QueuePool (dispatcher.truncate s) = d_QueuePool s" "d_Scheduler (dispatcher.truncate s) = d_Scheduler s"
  "d_WorkPool (dispatcher.truncate s) = d_WorkPool s" "d_WorkPoolCap (dispatcher.truncate s) = d_WorkPoolCap s"
  by (simp_all add: dispatcher.defs)

lemma started_inv: "started A ks rnd cfg s \<Longrightarrow> broker_inv mine (init_world s)"
  unfolding started_def by (rule init_broker_inv) (auto simp: truncate_fields)

lemma started_reach:
  "started A ks rnd cfg s \<Longrightarrow> item_kind mine \<Longrightarrow> broker_reach mine (init_world s) w \<Longrightarrow> broker_inv mine w"
  by (blast intro: broker_inv_reach started_inv)

lemma started_live:
  assumes "started A ks rnd cfg s" "\<forall>g \<in> set (cfg_ServiceGroups cfg). 0 < sint (sg_Weight g)"
  shows "live_state (group_names (cfg_ServiceGroups cfg)) (nat (ms_WorkPoolSize (cfg_Broker cfg))) (init_world s)"
proof -
  let ?groups = "cfg_ServiceGroups cfg"
  have st: "attributes_ok A" "map_order ks (pbi_Resources (build_info A ?groups))" "rnd < length ks"
    "make_dispatcher A ks rnd cfg = Inr (dispatcher.truncate s)" using assms(1) by (auto simp: started_def)
  obtain sched p where d: "NewScheduler (cfg_Schedule cfg) = Inr sched"
    "dispatcher.truncate s = new_dispatcher cfg (NewQueuePool (cfg_Queue cfg) ?groups) (sched\<lparr>sd_picker := Some p\<rparr>)"
    "p = (case sd_builder sched of RRPickerBuilder \<Rightarrow> RRPicker \<lparr>rr_subConns = ks, rr_next = rnd\<rparr>
         | WRRPickerBuilder \<Rightarrow> WRRPicker (map_of (rev (map (\<lambda>sc. (sg_Name sc, sg_Weight sc)) ks))))"
    by (rule make_dispatcher_cases [OF st(4,1-3)])
  note f = truncate_fields [of s, unfolded d(2) new_dispatcher_def, simplified, symmetric]
  let ?ws = "map_of (rev (map (\<lambda>sc. (sg_Name sc, sg_Weight sc)) ks))"
  have ks: "set ks = registered ?groups" using st(2) by (simp add: map_order_def build_info_dom)
  have pos: "0 < sint v" if ws: "?ws n = Some v" for n v
  proof -
    from map_of_SomeD [OF ws] obtain g where "g \<in> set ks" "v = sg_Weight g" by auto
    then show ?thesis using ks assms(2) by (auto simp: registered_def default_group_def split: if_splits)
  qed
  have "\<exists>v. ?ws n = Some v \<and> 0 < sint v" if "n \<in> group_names ?groups" for n
    using dom_weights [OF st(2)] that pos by blast
  moreover have "scheduler_inv (d_Scheduler s)"
    using started_inv [OF assms(1), of "\<lambda>_. True"] by (simp add: broker_inv_def pool_ok_def init_world_def)
  ultimately have "sched_live (group_names ?groups) (d_Scheduler s)"
    unfolding sched_live_def f(2) d(3) by (simp split: PickerBuilder.splits)
  then show ?thesis using f NewQueuePool_dom [of "cfg_Queue cfg" ?groups]
    by (simp add: live_state_def init_world_def group_names_def)
qed

lemma started_drain:
  assumes "started A ks rnd cfg s" "item_kind mine" "broker_reach mine (init_world s) w"
    and "\<forall>g \<in> set (cfg_ServiceGroups cfg). 0 < sint (sg_Weight g)" "0 < ms_WorkPoolSize (cfg_Broker cfg)"
    and "bw_pc w = AtTop" "\<not> bw_ctxDone w" "\<not> d_stopChan (bw_srv w)"
  shows "drain_state mine (group_names (cfg_ServiceGroups cfg)) w"
proof -
  have "live_state (group_names (cfg_ServiceGroups cfg)) (nat (ms_WorkPoolSize (cfg_Broker cfg))) w"
    using live_state_reach [OF assms(3,2) started_inv [OF assms(1)] started_live [OF assms(1,4)]] .
  then show ?thesis using started_reach [OF assms(1-3)] assms(5-8) by (simp add: drain_state_def live_state_def)
qed

lemma finite_group_names: "finite (group_names gs)"
  by (simp add: group_names_def)

lemma drain_answers:
  assumes "item_kind mine" "drain_state mine names w" "finite names" "\<forall>r \<in> set rs. round_ok names r"
    and "waiting (d_QueuePool (bw_srv w)) \<le> length rs"
  defines "w' \<equiv> dispatch_rounds mine rs w"
  shows "broker_reach mine w w' \<and> bw_accepted w' = bw_accepted w \<and> set (bw_closed w') = WaitChan ` set (bw_accepted w) \<and>
    drain_state mine names w'"
proof -
  note r = rounds_drain [OF assms(1,2,4), folded w'_def]
  then have inv': "broker_inv mine w'" "bw_pc w' = AtTop" "waiting (d_QueuePool (bw_srv w')) = 0"
    and acc: "bw_accepted w' = bw_accepted w" and dom: "dom (qp_Queues (d_QueuePool (bw_srv w'))) = names"
    using assms(5) by (auto simp: drain_state_def)
  have empty: "queued (d_QueuePool (bw_srv w')) g = []" for g
    using inv'(3) dom assms(3) by (cases "g \<in> names") (auto simp: waiting_def queued_def split: option.splits)
  have hist: "of_group g (bw_accepted w') = of_group g (bw_served w')" for g
    using inv'(1) empty by (simp add: broker_inv_def pool_ok_def history_inv_def pool_view_def)
  have "set (bw_accepted w') = set (bw_served w')"
  proof -
    have "i \<in> set xs \<longleftrightarrow> i \<in> set (of_group (ResourceName i) xs)" for i xs by (simp add: of_group_def)
    then show ?thesis using hist by (metis subsetI subset_antisym)
  qed
  moreover have "map WaitChan (bw_served w') = bw_closed w'"
    using inv'(1,2) by (auto simp: broker_inv_def served_inv_def in_flight_def)
  ultimately show ?thesis using r acc by (metis set_map)
qed

section \<open>Properties\<close>

text \<open>A small configuration for the witnesses.\<close>

definition small_cfg :: BrokerConfig where
  "small_cfg = BrokerConfig_New\<lparr>cfg_ServiceGroups := [], cfg_Schedule := \<lparr>sch_Method = ''RR'', sch_EnableFlowControl = True\<rparr>\<rparr>"

definition small_broker :: dispatcher where
  "small_broker = new_dispatcher small_cfg (NewQueuePool (cfg_Queue small_cfg) [])
     \<lparr>sd_builder = RRPickerBuilder, sd_picker = Some (RRPicker \<lparr>rr_subConns = [default_group], rr_next = 0\<rparr>),
      sd_errPicker = ErrPicker (Errorf ''picker is nil'')\<rparr>"

lemma small_started: "started alist_attributes [default_group] 0 small_cfg small_broker"
proof -
  have n: "NewScheduler (cfg_Schedule small_cfg) = Inr \<lparr>sd_builder = RRPickerBuilder, sd_picker = None,
      sd_errPicker = ErrPicker (Errorf ''picker is nil'')\<rparr>"
    by (simp add: small_cfg_def NewScheduler_def NewErrPicker_def Builder_def pickers_def)
  have g: "cfg_ServiceGroups small_cfg = []" "0 \<le> ms_WorkPoolSize (cfg_Broker small_cfg)"
    by (simp_all add: small_cfg_def BrokerConfig_New_def)
  have "make_dispatcher alist_attributes [default_group] 0 small_cfg = Inr small_broker"
    using Build_picker [OF alist_attributes_ok order_nil, of 0 RRPickerBuilder] g
    by (simp add: make_dispatcher_def n RegeneratePicker_def small_broker_def)
  moreover have "dispatcher.truncate small_broker = small_broker" by (simp add: dispatcher.defs small_broker_def new_dispatcher_def)
  ultimately show ?thesis using alist_attributes_ok order_nil g by (simp add: started_def)
qed



text \<open>
  C1. No accepted request is lost while the dispatcher runs: it has been answered, or the dispatcher holds
  it, or it waits in the queue of its group, and then behind exactly the requests of its group that
  were accepted before it and not yet popped.
\<close>

theorem no_request_lost:
  assumes "started A ks rnd cfg s" "item_kind mine" "broker_reach mine (init_world s) w" "bw_pc w \<noteq> Returned"
    and "i \<in> set (bw_accepted w)"
  shows "(WaitChan i \<in> set (bw_closed w) \<or> WaitChan i \<in> WaitChan ` set (in_flight (bw_pc w)) \<or>
       i \<in> set (queued (d_QueuePool (bw_srv w)) (ResourceName i))) \<and>
    of_group (ResourceName i) (bw_accepted w) =
      of_group (ResourceName i) (bw_served w) @ queued (d_QueuePool (bw_srv w)) (ResourceName i)"
proof -
  have inv: "broker_inv mine w" by (rule started_reach [OF assms(1-3)])
  then have h: "of_group (ResourceName i) (bw_accepted w) =
      of_group (ResourceName i) (bw_served w) @ queued (d_QueuePool (bw_srv w)) (ResourceName i)"
    by (simp add: broker_inv_def pool_ok_def history_inv_def pool_view_def)
  have "i \<in> set (of_group (ResourceName i) (bw_accepted w))" using assms(5) by (simp add: of_group_def)
  then consider "i \<in> set (bw_served w)" | "i \<in> set (queued (d_QueuePool (bw_srv w)) (ResourceName i))"
    unfolding h by (auto simp: of_group_def)
  then show ?thesis
  proof cases
    case 1
    have "map WaitChan (bw_served w) = bw_closed w @ map WaitChan (in_flight (bw_pc w))"
      using inv assms(4) by (auto simp: broker_inv_def served_inv_def)
    then have "WaitChan ` set (bw_served w) = set (bw_closed w) \<union> WaitChan ` set (in_flight (bw_pc w))"
      by (metis set_append set_map)
    then show ?thesis using 1 h by blast
  qed (use h in simp)
qed

text \<open>
  C2. Every waiting request is answered: when the configured weights are positive and the work pool has
  room for a token, a dispatcher that is neither stopped nor cancelled and sits at the top of its loop
  answers every accepted request within as many rounds as there are requests waiting, whatever the
  random draws and the iteration orders of these rounds are.
\<close>

theorem all_requests_answered:
  assumes "started A ks rnd cfg s" "item_kind mine" "broker_reach mine (init_world s) w"
    and "\<forall>g \<in> set (cfg_ServiceGroups cfg). 0 < sint (sg_Weight g)" "0 < ms_WorkPoolSize (cfg_Broker cfg)"
    and "bw_pc w = AtTop" "\<not> bw_ctxDone w" "\<not> d_stopChan (bw_srv w)"
    and "\<forall>r \<in> set rs. round_ok (group_names (cfg_ServiceGroups cfg)) r"
    and "waiting (d_QueuePool (bw_srv w)) \<le> length rs"
  shows "let w' = dispatch_rounds mine rs w
    in broker_reach mine w w' \<and> bw_accepted w' = bw_accepted w \<and>
       set (bw_closed w') = WaitChan ` set (bw_accepted w)"
  using drain_answers [OF assms(2) started_drain [OF assms(1-8)] finite_group_names assms(9,10)] by simp

theorem all_requests_answered_witness:
  "let w' = dispatch_rounds is_http [(first_positive, [DefaultServiceGroup])] (init_world small_broker)
   in broker_reach is_http (init_world small_broker) w' \<and> bw_accepted w' = bw_accepted (init_world small_broker) \<and>
      set (bw_closed w') = WaitChan ` set (bw_accepted (init_world small_broker))"
proof (rule all_requests_answered [OF small_started item_kind_http(1) broker_reach.init])
  have "queued (NewQueuePool c []) k = []" for c k
    by (auto simp: queued_def NewQueue_def split: option.splits dest!: NewQueuePool_queues)
  then show "waiting (d_QueuePool (bw_srv (init_world small_broker))) \<le> length [(first_positive, [DefaultServiceGroup])]"
    by (simp add: init_world_def small_broker_def new_dispatcher_def waiting_def)
qed (simp_all add: small_cfg_def BrokerConfig_New_def init_world_def small_broker_def new_dispatcher_def
    round_ok_def first_positive_ok group_names_def)

definition sample_request :: HttpRequest where
  "sample_request = \<lparr>rq_id = 7, rq_Header = (\<lambda>_. []), rq_now = 0\<rparr>"

definition sample_world :: "unit broker_world" where
  "sample_world = (let (res, answer, item, s) = Http_EnqueueRequests sample_request 0 small_broker
     in (init_world small_broker)\<lparr>bw_srv := s, bw_next := 1, bw_accepted := [item]\<rparr>)"

lemma small_pool: "d_QueuePool small_broker = \<lparr>qp_Queues = [DefaultServiceGroup \<mapsto> \<lparr>q_maxSize = 200, q_list = []\<rparr>]\<rparr>"
  by (simp add: small_broker_def new_dispatcher_def NewQueuePool_def NewQueue_def small_cfg_def BrokerConfig_New_def)

lemma sample_enqueue:
  "Http_EnqueueRequests sample_request 0 small_broker =
     (Inr 0, None, http_request_item sample_request 0,
      small_broker\<lparr>d_QueuePool := \<lparr>qp_Queues = [DefaultServiceGroup \<mapsto>
          \<lparr>q_maxSize = 200, q_list = [http_request_item sample_request 0]\<rparr>]\<rparr>,
        d_metrics := d_metrics small_broker @ [BrokerReceivedRequestTotal (d_ScheduleMethod small_broker) DefaultServiceGroup]\<rparr>)"
  by (simp add: Http_EnqueueRequests_def small_pool QueuePool_Push_def Queue_Push_def request_group_def
      sample_request_def Let_def)

lemma sample_world_eq:
  "sample_world = (init_world small_broker)\<lparr>bw_srv := small_broker\<lparr>d_QueuePool := \<lparr>qp_Queues = [DefaultServiceGroup \<mapsto>
          \<lparr>q_maxSize = 200, q_list = [http_request_item sample_request 0]\<rparr>]\<rparr>,
        d_metrics := d_metrics small_broker @ [BrokerReceivedRequestTotal (d_ScheduleMethod small_broker) DefaultServiceGroup]\<rparr>,
     bw_next := 1, bw_accepted := [http_request_item sample_request 0]\<rparr>"
  by (simp add: sample_world_def sample_enqueue)

lemma sample_reach: "broker_reach is_http (init_world small_broker) sample_world"
proof -
  have m: "is_http (http_request_item sample_request (bw_next (init_world small_broker)))"
    by (simp add: http_request_item_def)
  have e: "Http_EnqueueRequests sample_request (bw_next (init_world small_broker)) (bw_srv (init_world small_broker)) =
      (Inr 0, None, http_request_item sample_request 0, bw_srv sample_world)"
    by (simp add: init_world_def sample_enqueue sample_world_eq)
  have "broker_step is_http (init_world small_broker) sample_world"
    using broker_step.http_arrival [where mine = is_http and w = "init_world small_broker", OF m e] by (simp add: sample_world_eq init_world_def)
  then show ?thesis using broker_reach.init broker_reach.step by blast
qed

theorem no_request_lost_witness:
  "0 \<in> set (bw_closed sample_world) \<or> 0 \<in> WaitChan ` set (in_flight (bw_pc sample_world)) \<or>
   http_request_item sample_request 0 \<in>
     set (queued (d_QueuePool (bw_srv sample_world)) (ResourceName (http_request_item sample_request 0)))"
  using no_request_lost [OF small_started item_kind_http(1) sample_reach, of "http_request_item sample_request 0"]
  by (simp add: item_group sample_world_eq init_world_def)

text \<open>
  C4. The broker refines the queue pool: in every reachable state its queues, its scheduler, the accepted
  and the popped items are the result of a sequence of pushes and pops on a new pool, each push under the
  item's own group and each pop through the scheduler.
\<close>

theorem broker_refines_pool:
  assumes "started A ks rnd cfg s" "item_kind mine" "broker_reach mine (init_world s) w"
  shows "\<exists>es. list_all broker_event es \<and>
    pool_view w = pool_run (init_pool_state (cfg_Queue cfg) (cfg_ServiceGroups cfg) (d_Scheduler s)) es"
  using assms(3)
proof (induction rule: broker_reach.induct)
  case init
  have st: "attributes_ok A" "map_order ks (pbi_Resources (build_info A (cfg_ServiceGroups cfg)))" "rnd < length ks"
    "make_dispatcher A ks rnd cfg = Inr (dispatcher.truncate s)" using assms(1) by (auto simp: started_def)
  have "d_QueuePool s = NewQueuePool (cfg_Queue cfg) (cfg_ServiceGroups cfg)"
    by (rule make_dispatcher_cases [OF st(4,1-3)]) (metis truncate_fields(1) new_dispatcher_def dispatcher.select_convs(1))
  then have "pool_view (init_world s) = pool_run (init_pool_state (cfg_Queue cfg) (cfg_ServiceGroups cfg) (d_Scheduler s)) []"
    by (simp add: pool_view_def init_world_def pool_run_def init_pool_state_def)
  then show ?case by (intro exI [of _ "[]"]) simp
next
  case (step w w')
  then obtain es where es: "list_all broker_event es"
    "pool_view w = pool_run (init_pool_state (cfg_Queue cfg) (cfg_ServiceGroups cfg) (d_Scheduler s)) es" by blast
  have "pool_ok mine w" using started_reach [OF assms(1,2) step.hyps(1)] by (simp add: broker_inv_def)
  from broker_step_view [OF step.hyps(2) this] show ?case
  proof (elim disjE exE conjE)
    fix e assume e: "broker_event e" "pool_view w' = pool_step (pool_view w) e"
    have "pool_view w' = pool_run (init_pool_state (cfg_Queue cfg) (cfg_ServiceGroups cfg) (d_Scheduler s)) (es @ [e])"
      using e(2) es(2) by (simp add: pool_run_def)
    moreover have "list_all broker_event (es @ [e])" using es(1) e(1) by simp
    ultimately show ?thesis by blast
  qed (use es in auto)
qed

theorem broker_refines_pool_witness:
  "\<exists>es. list_all broker_event es \<and>
    pool_view sample_world = pool_run (init_pool_state (cfg_Queue small_cfg) (cfg_ServiceGroups small_cfg) (d_Scheduler small_broker)) es"
  using broker_refines_pool [OF small_started item_kind_http(1) sample_reach] .

lemma http_admit:
  assumes "pool_inv (d_QueuePool s)" "Http_EnqueueRequests r c s = (res, answer, item, s')"
    and "g = (if rq_Header r ServiceGroupHeader = [] then DefaultServiceGroup else rq_Header r ServiceGroupHeader)"
    and "name = (if g \<in> dom (qp_Queues (d_QueuePool s)) then g else DefaultServiceGroup)"
  shows "ResourceName item = name \<and> WaitChan item = c \<and>
    (if int (length (queued (d_QueuePool s) name)) < q_maxSize (the (qp_Queues (d_QueuePool s) name))
     then res = Inr c \<and> answer = None \<and> queued (d_QueuePool s') name = queued (d_QueuePool s) name @ [item] \<and>
       d_metrics s' = d_metrics s @ [BrokerReceivedRequestTotal (d_ScheduleMethod s) g]
     else res = Inl (Errorf ''queue is full'') \<and> answer = Some 429 \<and> d_metrics s' = d_metrics s \<and>
       qp_Queues (d_QueuePool s') = qp_Queues (d_QueuePool s))"
proof -
  let ?i = "http_request_item r c"
  have g: "request_group r = g" by (simp add: request_group_def assms(3) Let_def)
  obtain n q i' where p: "n = name" "i' = (if g \<in> dom (qp_Queues (d_QueuePool s)) then ?i else SetResourceName ?i DefaultServiceGroup)"
    "qp_Queues (d_QueuePool s) n = Some q"
    "QueuePool_Push (d_QueuePool s) g ?i = (fst (Queue_Push q i'), i',
       (d_QueuePool s)\<lparr>qp_Queues := (qp_Queues (d_QueuePool s))(n \<mapsto> snd (Queue_Push q i'))\<rparr>)"
    using QueuePool_Push_cases [OF assms(1), of g ?i] unfolding assms(4) by metis
  have i': "ResourceName i' = name" "WaitChan i' = c"
    using p(2) item_group(1,2) [of r c] g by (auto simp: assms(4))
  have q: "queued (d_QueuePool s) name = q_list q" using p(1,3) by (simp add: queued_def)
  show ?thesis
    using assms(2) p(1,3) i' q unfolding Http_EnqueueRequests_def g Let_def p(4)
    by (auto simp: Queue_Push_def queued_upd TooManyRequestsCode_def fun_upd_idem split: if_splits)
qed

text \<open>
  Admission of an HTTP request: it is filed under the group its header names, or "default" when the
  header is missing or empty or names a group without a queue; when that queue is full the client gets
  status 429 and no queue changes, otherwise no answer is written yet and the request is last in its queue.
\<close>

theorem http_admission:
  assumes "pool_inv (d_QueuePool s)" "Http_EnqueueRequests r c s = (res, answer, item, s')"
    and "g = (if rq_Header r ServiceGroupHeader = [] then DefaultServiceGroup else rq_Header r ServiceGroupHeader)"
    and "name = (if g \<in> dom (qp_Queues (d_QueuePool s)) then g else DefaultServiceGroup)"
  shows "ResourceName item = name \<and> WaitChan item = c \<and>
    (if int (length (queued (d_QueuePool s) name)) < q_maxSize (the (qp_Queues (d_QueuePool s) name))
     then res = Inr c \<and> answer = None \<and> queued (d_QueuePool s') name = queued (d_QueuePool s) name @ [item] \<and>
       d_metrics s' = d_metrics s @ [BrokerReceivedRequestTotal (d_ScheduleMethod s) g]
     else res = Inl (Errorf ''queue is full'') \<and> answer = Some 429 \<and> d_metrics s' = d_metrics s \<and>
       qp_Queues (d_QueuePool s') = qp_Queues (d_QueuePool s))"
  by (rule http_admit [OF assms])

theorem http_admission_witness:
  "ResourceName (http_request_item sample_request 0) = DefaultServiceGroup \<and>
   queued (d_QueuePool (bw_srv sample_world)) DefaultServiceGroup = [http_request_item sample_request 0]"
proof -
  have "pool_inv (d_QueuePool small_broker)"
    using started_inv [OF small_started, of is_http] by (simp add: broker_inv_def pool_ok_def init_world_def)
  from http_admission [OF this sample_enqueue refl refl] show ?thesis
    by (simp add: small_pool sample_request_def queued_def sample_world_eq)
qed

lemma returned_stays:
  "broker_reach mine w w' \<Longrightarrow> bw_pc w = Returned \<Longrightarrow> bw_pc w' = Returned \<and> bw_closed w' = bw_closed w"
proof (induction rule: broker_reach.induct)
  case (step w1 w2)
  from step.hyps(2) show ?case using step.IH [OF step.prems]
    by (cases rule: broker_step.cases) auto
qed simp

text \<open>
  C40. Stopping abandons a popped request: when the server is stopped (or its context cancelled) while the
  dispatcher holds an item it has popped but not yet handed over, the second select may return, and then
  in no later state is the wait channel of that request closed, so its caller waits for ever.
\<close>

theorem stop_abandons_request:
  assumes "started A ks rnd cfg s" "item_kind mine" "broker_reach mine (init_world s) w"
    and "bw_pc w = HaveItem i" "bw_ctxDone w \<or> d_stopChan (bw_srv w)"
  shows "\<exists>w1. broker_step mine w w1 \<and> bw_pc w1 = Returned \<and>
    (\<forall>w2. broker_reach mine w1 w2 \<longrightarrow> WaitChan i \<notin> set (bw_closed w2))"
proof -
  have inv: "broker_inv mine w" by (rule started_reach [OF assms(1-3)])
  have "map WaitChan (bw_served w) = bw_closed w @ [WaitChan i]"
    using inv assms(4) by (auto simp: broker_inv_def served_inv_def in_flight_def)
  then have open_i: "WaitChan i \<notin> set (bw_closed w)" using distinct_served [OF inv] by simp
  let ?c = "if bw_ctxDone w then SelCtxDone else SelStop" and ?w1 = "w\<lparr>bw_srv := bw_srv w, bw_pc := Returned\<rparr>"
  have "ProcessRequests_select ?c (bw_ctxDone w) i (bw_srv w) = Some (Returned, bw_srv w)"
    using assms(5) by (auto simp: ProcessRequests_select_def)
  with assms(4) have "broker_step mine w ?w1" by (rule broker_step.select)
  moreover have "WaitChan i \<notin> set (bw_closed w2)" if "broker_reach mine ?w1 w2" for w2
    using returned_stays [OF that] open_i by simp
  ultimately show ?thesis by (intro exI [of _ ?w1]) simp
qed

definition popped_world :: "unit broker_world" where
  "popped_world = (top_round is_http first_positive [DefaultServiceGroup] sample_world)\<lparr>bw_ctxDone := True\<rparr>"

lemma popped_world_facts:
  "broker_reach is_http (init_world small_broker) popped_world"
  "bw_pc popped_world = HaveItem (http_request_item sample_request 0)"
proof -
  obtain c s where t: "ProcessRequests_top is_http first_positive [DefaultServiceGroup] (bw_ctxDone sample_world) (bw_srv sample_world) = (c, s)"
    by (cases "ProcessRequests_top is_http first_positive [DefaultServiceGroup] (bw_ctxDone sample_world) (bw_srv sample_world)")
  have c: "c = HaveItem (http_request_item sample_request 0)"
    using t by (simp add: ProcessRequests_top_def sample_world_eq init_world_def small_broker_def new_dispatcher_def
        QueuePool_Pop_def Queue_Peek_def Queue_Pop_def Scheduler_Pick_def rrPicker_Pick_def http_request_item_def
        request_group_def sample_request_def Let_def)
  have o: "map_order [DefaultServiceGroup] (qp_Queues (d_QueuePool (bw_srv sample_world)))" "bw_pc sample_world = AtTop"
    by (simp_all add: map_order_def sample_world_eq init_world_def)
  have top: "broker_step is_http sample_world (top_round is_http first_positive [DefaultServiceGroup] sample_world)"
    unfolding top_round_def t using broker_step.top [OF o(2) first_positive_ok o(1) t] by simp
  show "broker_reach is_http (init_world small_broker) popped_world"
    unfolding popped_world_def
    by (rule broker_reach.step [OF broker_reach.step [OF sample_reach top] broker_step.cancel])
  show "bw_pc popped_world = HaveItem (http_request_item sample_request 0)"
    by (simp add: popped_world_def top_round_def t c)
qed

theorem stop_abandons_request_witness:
  "\<exists>w1. broker_step is_http popped_world w1 \<and> bw_pc w1 = Returned \<and>
    (\<forall>w2. broker_reach is_http w1 w2 \<longrightarrow> 0 \<notin> set (bw_closed w2))"
  using stop_abandons_request [OF small_started item_kind_http(1) popped_world_facts]
  by (simp add: popped_world_def item_group)

text \<open>
  A work pool of size 0 blocks the broker: it starts without an error, but then no request is ever
  answered, in no interleaving.
\<close>

theorem workpool_zero_blocks:
  assumes "started A ks rnd cfg s" "item_kind mine" "broker_reach mine (init_world s) w"
    and "ms_WorkPoolSize (cfg_Broker cfg) = 0"
  shows "bw_closed w = []"
proof -
  have st: "attributes_ok A" "map_order ks (pbi_Resources (build_info A (cfg_ServiceGroups cfg)))" "rnd < length ks"
    "make_dispatcher A ks rnd cfg = Inr (dispatcher.truncate s)" using assms(1) by (auto simp: started_def)
  have cap0: "d_WorkPoolCap s = 0"
    by (rule make_dispatcher_cases [OF st(4,1-3)])
      (metis assms(4) nat_zero_as_int new_dispatcher_def truncate_fields(4) dispatcher.select_convs(5) of_nat_0 nat_int)
  from assms(3) have "bw_closed w = [] \<and> d_WorkPoolCap (bw_srv w) = 0"
  proof (induction rule: broker_reach.induct)
    case init
    then show ?case by (simp add: init_world_def cap0)
  next
    case (step w w')
    have "work_inv w" using started_reach [OF assms(1,2) step.hyps(1)] by (simp add: broker_inv_def)
    then have "\<nexists>i. bw_pc w = Handling i" using step.IH by (auto simp: work_inv_def)
    then have nh: "bw_pc w \<noteq> Handling i" for i by blast
    from step.hyps(2) have "bw_closed w' = bw_closed w" by (cases rule: broker_step.cases) (simp_all add: nh)
    then show ?case using step.IH step_cap [OF step.hyps(2)] by simp
  qed
  then show ?thesis by simp
qed

lemma zero_started:
  "\<exists>s. started alist_attributes [default_group] 0
     (small_cfg\<lparr>cfg_Broker := (cfg_Broker small_cfg)\<lparr>ms_WorkPoolSize := 0\<rparr>\<rparr>) (s :: dispatcher)"
proof -
  let ?cfg = "small_cfg\<lparr>cfg_Broker := (cfg_Broker small_cfg)\<lparr>ms_WorkPoolSize := 0\<rparr>\<rparr>"
  have "make_dispatcher alist_attributes [default_group] 0 ?cfg = Inr (small_broker\<lparr>d_WorkPoolCap := 0\<rparr>)"
    using small_started by (auto simp: started_def make_dispatcher_def small_broker_def new_dispatcher_def dispatcher.defs
        split: sum.splits if_splits)
  moreover have "dispatcher.truncate (small_broker\<lparr>d_WorkPoolCap := 0\<rparr>) = small_broker\<lparr>d_WorkPoolCap := 0\<rparr>"
    by (simp add: dispatcher.defs small_broker_def new_dispatcher_def)
  ultimately show ?thesis using small_started by (intro exI [of _ "small_broker\<lparr>d_WorkPoolCap := 0\<rparr>"]) (simp add: started_def)
qed

theorem workpool_zero_blocks_witness:
  "\<exists>s :: dispatcher. bw_closed (init_world s) = []"
proof -
  obtain s :: dispatcher where "started alist_attributes [default_group] 0
     (small_cfg\<lparr>cfg_Broker := (cfg_Broker small_cfg)\<lparr>ms_WorkPoolSize := 0\<rparr>\<rparr>) s"
    using zero_started by blast
  from workpool_zero_blocks [OF this item_kind_http(1) broker_reach.init] show ?thesis by auto
qed

text \<open>
  The HTTP broker starts exactly from a \<open>TARGET_PORT\<close> that is a decimal number whose low 32 bits are a
  non-negative \<open>int32\<close>, forwards to that port of the local host, and is a started broker in the sense of
  the properties above. The number is truncated, not checked: 4294967376 means port 80.
\<close>

theorem http_broker_target:
  assumes "attributes_ok A" "map_order ks (pbi_Resources (build_info A (cfg_ServiceGroups cfg)))" "rnd < length ks"
    and "NewHttpBrokerServer A ks rnd env cfg = Inr s"
  shows "started A ks rnd cfg s \<and>
    (\<exists>v. Atoi env = Some v \<and> signed_take_bit 31 v \<ge> 0 \<and>
       hb_Target s = ''http://127.0.0.1:'' @ show_int (signed_take_bit 31 v))"
proof -
  obtain v d where v: "Atoi env = Some v" "0 \<le> sint (word_of_int v :: int32)"
    "make_dispatcher A ks rnd cfg = Inr d" "dispatcher.truncate s = d"
    "hb_Target s = ''http://127.0.0.1:'' @ show_int (sint (word_of_int v :: int32))"
    using assms(4)
    by (auto simp: NewHttpBrokerServer_def GetTargetPortFromEnv_def parse_target_def Let_def dispatcher.defs
        split: option.splits sum.splits if_splits)
  have "sint (word_of_int v :: int32) = signed_take_bit 31 v" by (simp add: signed_of_int)
  then show ?thesis using v assms(1-3) by (auto simp: started_def)
qed

theorem http_broker_target_witness:
  "\<exists>s. NewHttpBrokerServer alist_attributes [default_group] 0 ''4294967376'' small_cfg = Inr s \<and>
     hb_Target s = ''http://127.0.0.1:80''"
proof -
  have m: "make_dispatcher alist_attributes [default_group] 0 small_cfg = Inr small_broker"
    using small_started by (simp add: started_def dispatcher.defs small_broker_def new_dispatcher_def)
  have a: "Atoi ''4294967376'' = Some 4294967376" by (simp add: Atoi_def parse_nat_def is_digit_def digit_val_def)
  obtain s where s: "NewHttpBrokerServer alist_attributes [default_group] 0 ''4294967376'' small_cfg = Inr s"
    by (simp add: NewHttpBrokerServer_def GetTargetPortFromEnv_def a parse_target_def m Let_def)
  have g: "cfg_ServiceGroups small_cfg = []" by (simp add: small_cfg_def)
  have "hb_Target s = ''http://127.0.0.1:'' @ show_int 80"
    using http_broker_target [OF alist_attributes_ok _ _ s] order_nil [of alist_attributes] g a
    by (auto simp: signed_take_bit_def)
  then show ?thesis using s by (simp add: show_int_def show_nat.simps)
qed



text \<open>The same broker, or state of a broker, with a work pool of another size.\<close>

definition with_cap :: "nat \<Rightarrow> 'x dispatcher_scheme \<Rightarrow> 'x dispatcher_scheme" where
  "with_cap n s = s\<lparr>d_WorkPoolCap := n\<rparr>"

definition world_cap :: "nat \<Rightarrow> 'x broker_world \<Rightarrow> 'x broker_world" where
  "world_cap n w = w\<lparr>bw_srv := with_cap n (bw_srv w)\<rparr>"

lemma world_cap_simps [simp]:
  "bw_srv (world_cap n w) = with_cap n (bw_srv w)" "bw_pc (world_cap n w) = bw_pc w" "bw_ctxDone (world_cap n w) = bw_ctxDone w"
  "bw_next (world_cap n w) = bw_next w" "bw_closed (world_cap n w) = bw_closed w" "bw_accepted (world_cap n w) = bw_accepted w"
  "bw_served (world_cap n w) = bw_served w" "world_cap m (world_cap n w) = world_cap m w"
  "d_QueuePool (with_cap n s) = d_QueuePool s" "d_Scheduler (with_cap n s) = d_Scheduler s" "d_stopChan (with_cap n s) = d_stopChan s"
  "d_WorkPool (with_cap n s) = d_WorkPool s" "d_WorkPoolCap (with_cap n s) = n" "with_cap m (with_cap n s) = with_cap m s"
  "d_metrics (with_cap n s) = d_metrics s" "d_ScheduleMethod (with_cap n s) = d_ScheduleMethod s"
  by (simp_all add: world_cap_def with_cap_def)

lemma world_cap_init: "world_cap n (init_world s) = init_world (with_cap n s)"
  by (simp add: world_cap_def init_world_def)

lemma cap_commutes:
  "Http_EnqueueRequests r c (with_cap n s) = (case Http_EnqueueRequests r c s of (res, a, i, s') \<Rightarrow> (res, a, i, with_cap n s'))"
  "Grpc_EnqueueRequests g t c (with_cap n s) = (case Grpc_EnqueueRequests g t c s of (res, i, s') \<Rightarrow> (res, i, with_cap n s'))"
  "ProcessRequests_top mine W ks ctx (with_cap n s) = (case ProcessRequests_top mine W ks ctx s of (pc, s') \<Rightarrow> (pc, with_cap n s'))"
  "HandleRequest i closed (with_cap n s) = map_sum id (map_prod id (with_cap n)) (HandleRequest i closed s)"
  "Stop (with_cap n s) = map_sum id (with_cap n) (Stop s)"
  by (auto simp: Http_EnqueueRequests_def Grpc_EnqueueRequests_def ProcessRequests_top_def HandleRequest_def Stop_def with_cap_def Let_def
      split: prod.splits option.splits sum.splits)

lemma select_cap:
  assumes "ProcessRequests_select ch ctx i s = Some (pc, s')" "d_WorkPool s = 0" "0 < n"
  shows "ProcessRequests_select ch ctx i (with_cap n s) = Some (pc, with_cap n s')"
  using assms by (auto simp: ProcessRequests_select_def with_cap_def split: select_case.splits if_splits)

lemma world_cap_updates:
  "world_cap n (w\<lparr>bw_srv := s, bw_next := k, bw_accepted := xs\<rparr>) = (world_cap n w)\<lparr>bw_srv := with_cap n s, bw_next := k, bw_accepted := xs\<rparr>"
  "world_cap n (w\<lparr>bw_srv := s, bw_pc := c, bw_served := xs\<rparr>) = (world_cap n w)\<lparr>bw_srv := with_cap n s, bw_pc := c, bw_served := xs\<rparr>"
  "world_cap n (w\<lparr>bw_srv := s, bw_pc := c, bw_closed := ys\<rparr>) = (world_cap n w)\<lparr>bw_srv := with_cap n s, bw_pc := c, bw_closed := ys\<rparr>"
  "world_cap n (w\<lparr>bw_srv := s, bw_pc := c\<rparr>) = (world_cap n w)\<lparr>bw_srv := with_cap n s, bw_pc := c\<rparr>"
  "world_cap n (w\<lparr>bw_srv := s\<rparr>) = (world_cap n w)\<lparr>bw_srv := with_cap n s\<rparr>"
  "world_cap n (w\<lparr>bw_ctxDone := b\<rparr>) = (world_cap n w)\<lparr>bw_ctxDone := b\<rparr>"
  by (rule broker_world.equality; simp)+

lemma step_world_cap:
  assumes "broker_step mine w w'" "work_inv w" "0 < n"
  shows "broker_step mine (world_cap n w) (world_cap n w')"
  using assms(1)
proof (cases rule: broker_step.cases)
  case (http_arrival r res answer item s)
  then show ?thesis using broker_step.http_arrival [of mine r "world_cap n w" res answer item "with_cap n s"]
    by (simp add: cap_commutes world_cap_updates)
next
  case (grpc_arrival g t res item s)
  then show ?thesis using broker_step.grpc_arrival [of mine g t "world_cap n w" res item "with_cap n s"]
    by (simp add: cap_commutes world_cap_updates)
next
  case (top W ks c s)
  then show ?thesis using broker_step.top [of "world_cap n w" W ks mine c "with_cap n s"]
    by (simp add: cap_commutes world_cap_updates)
next
  case (select item ch c s)
  then have "d_WorkPool (bw_srv w) = 0" using assms(2) by (simp add: work_inv_def)
  with select show ?thesis
    using broker_step.select [of "world_cap n w" item ch c "with_cap n s" mine] select_cap [OF select(3) _ assms(3)]
    by (simp add: world_cap_updates)
next
  case (handle item closed s)
  then show ?thesis using broker_step.handle [of "world_cap n w" item closed "with_cap n s" mine]
    by (simp add: cap_commutes world_cap_updates)
next
  case cancel
  then show ?thesis using broker_step.cancel [of mine "world_cap n w"] by (simp add: world_cap_updates)
next
  case (stop s)
  then show ?thesis using broker_step.stop [of "world_cap n w" "with_cap n s" mine]
    by (simp add: cap_commutes world_cap_updates)
qed

interpretation caps: self_simulation "broker_step mine" "broker_reach mine" "\<lambda>w. item_kind mine \<and> 0 < n \<and> broker_inv mine w" "world_cap n"
  for mine :: "QueueItem \<Rightarrow> bool" and n :: nat
proof unfold_locales
  show "broker_step mine (world_cap n x) (world_cap n y)" if "item_kind mine \<and> 0 < n \<and> broker_inv mine x" "broker_step mine x y"
    for x y :: "'x broker_world"
    using that by (intro step_world_cap) (auto simp: broker_inv_def)
qed (auto intro: broker_inv_step)

lemma broker_inv_cap: "broker_inv mine w \<Longrightarrow> 0 < n \<Longrightarrow> broker_inv mine (world_cap n w)"
  by (auto simp: broker_inv_def pool_ok_def chan_inv_def served_inv_def work_inv_def pool_view_def split: pc.splits)

text \<open>
  C5. The size of the work pool makes no difference. The dispatcher takes a token and handles the item itself, in the same goroutine, so
  never more than one token is out; two brokers that differ only in a positive size of the work pool reach
  exactly the same states. In particular the HTTP broker forwards one request at a time however large the pool is.
\<close>

theorem workpool_size_irrelevant:
  assumes "started A ks rnd cfg s" "item_kind mine" "0 < m" "0 < n"
  shows "broker_reach mine (init_world (with_cap m s)) (world_cap m w) = broker_reach mine (init_world (with_cap n s)) (world_cap n w) \<and>
    (broker_reach mine (init_world (with_cap m s)) w \<longrightarrow> d_WorkPool (bw_srv w) \<le> 1)"
proof -
  have inv: "broker_inv mine (init_world (with_cap k s))" if "0 < k" for k
    using broker_inv_cap [OF started_inv [OF assms(1)] that] by (simp add: world_cap_init)
  have sim: "broker_reach mine (init_world (with_cap j s)) (world_cap j w)"
    if "broker_reach mine (init_world (with_cap k s)) (world_cap k w)" "0 < k" "0 < j" for k j
    using caps.reach_sim [OF that(1), of j] inv [OF that(2)] assms(2) that(3) by (simp add: world_cap_init)
  have "d_WorkPool (bw_srv w) \<le> 1" if "broker_reach mine (init_world (with_cap m s)) w"
    using broker_inv_reach [OF that assms(2) inv [OF assms(3)]] by (auto simp: broker_inv_def work_inv_def split: pc.splits)
  then show ?thesis using sim assms(3,4) by blast
qed

theorem workpool_size_irrelevant_witness:
  "broker_reach is_http (init_world (with_cap 64 small_broker)) (world_cap 64 sample_world)"
proof -
  have c: "with_cap (d_WorkPoolCap small_broker) small_broker = small_broker" by (simp add: with_cap_def)
  have w: "world_cap (d_WorkPoolCap small_broker) sample_world = sample_world"
    by (simp add: world_cap_def with_cap_def sample_world_eq init_world_def)
  have p: "0 < d_WorkPoolCap small_broker" by (simp add: small_broker_def new_dispatcher_def small_cfg_def BrokerConfig_New_def)
  from workpool_size_irrelevant [OF small_started item_kind_http(1) p, of 64 sample_world] sample_reach
  show ?thesis by (simp add: c w)
qed

end
