(* ===== verification/Utils.thy ===== *)
theory Utils
  imports Xconfig
begin

unbundle bit_operations_syntax

text \<open>
  \<open>pkg/utils\<close>: gRPC metadata and the service group in it (\<open>context.go\<close>), addresses (\<open>network.go\<close>), the
  string list and label helpers the controllers use (\<open>common.go\<close>), request identifiers (\<open>uuid.go\<close>) and the
  field-wise override of a structure (\<open>reflect.go\<close>).

  A metadata map is a map from lower-case keys to lists of values; a context carries the incoming and the
  outgoing one. \<open>net.SplitHostPort\<close> is written out. \<open>metav1.GetControllerOf\<close> is an argument.
\<close>

section \<open>Metadata\<close>

type_synonym metadata = "string \<rightharpoonup> string list"

record ctx =
  ctx_in :: "metadata option"
  ctx_out :: "metadata option"

definition ServiceGroupTag :: string where
  "ServiceGroupTag = ''x-service-group''"

definition ContextWithServiceGroup :: "ctx \<Rightarrow> string \<Rightarrow> ctx" where
  "ContextWithServiceGroup c serviceGroup = c\<lparr>ctx_out := Some [ServiceGroupTag \<mapsto> [serviceGroup]]\<rparr>"

definition FromIncomingContext :: "ctx \<Rightarrow> metadata" where
  "FromIncomingContext c = (case ctx_in c of None \<Rightarrow> Map.empty | Some md \<Rightarrow> md)"

text \<open>The loop over the values keeps the last one.\<close>

definition ServiceGroupFromContext :: "ctx \<Rightarrow> string" where
  "ServiceGroupFromContext c =
     (case FromIncomingContext c ServiceGroupTag of
        None \<Rightarrow> ''default''
      | Some t \<Rightarrow> foldl (\<lambda>serviceGroup e. e) ''default'' t)"

section \<open>Addresses\<close>

definition ExtractNetAddress :: "string \<Rightarrow> string \<times> string" where
  "ExtractNetAddress apiAddress =
     (case Index apiAddress ''://'' of
        None \<Rightarrow> (''tcp'', apiAddress)
      | Some idx \<Rightarrow> (take idx apiAddress, drop (idx + 3) apiAddress))"

fun LastIndexChar :: "string \<Rightarrow> char \<Rightarrow> nat option" where
  "LastIndexChar [] c = None"
| "LastIndexChar (x # xs) c =
     (case LastIndexChar xs c of Some i \<Rightarrow> Some (Suc i) | None \<Rightarrow> if x = c then Some 0 else None)"

text \<open>The host part of \<open>net.SplitHostPort\<close>; every error gives the empty string.\<close>

definition SplitHostPort_host :: "string \<Rightarrow> string" where
  "SplitHostPort_host hostport =
     (case LastIndexChar hostport CHR '':'' of
        None \<Rightarrow> []
      | Some i \<Rightarrow>
          if hostport \<noteq> [] \<and> hd hostport = CHR ''['' then
            (case Index hostport '']'' of
               None \<Rightarrow> []
             | Some e \<Rightarrow>
                 if Suc e \<noteq> i then []
                 else if CHR ''['' \<in> set (drop 1 hostport) \<or> CHR '']'' \<in> set (drop (Suc e) hostport) then []
                 else take (e - 1) (drop 1 hostport))
          else (let host = take i hostport
                in if CHR '':'' \<in> set host \<or> CHR ''['' \<in> set hostport \<or> CHR '']'' \<in> set hostport then []
                   else host))"

definition RemoteIp :: "string \<Rightarrow> (string \<Rightarrow> string) \<Rightarrow> string" where
  "RemoteIp remote header =
     (let remoteAddr =
            (if header ''x-client-ip'' \<noteq> [] then header ''x-client-ip''
             else if header ''X-Real-IP'' \<noteq> [] then header ''X-Real-IP''
             else if header ''X-Forwarded-For'' \<noteq> [] then header ''X-Forwarded-For''
             else SplitHostPort_host remote)
      in if remoteAddr = ''::1'' then ''127.0.0.1'' else remoteAddr)"

section \<open>Lists, labels, pods\<close>

fun RemoveString :: "string list \<Rightarrow> string \<Rightarrow> string list" where
  "RemoveString [] s = []"
| "RemoveString (item # items) s = (if item = s then RemoveString items s else item # RemoveString items s)"

fun HasString :: "string list \<Rightarrow> string \<Rightarrow> bool" where
  "HasString [] str = False"
| "HasString (s # items) str = (if s = str then True else HasString items str)"

definition CurrentNamespace :: "string \<Rightarrow> string go_result \<Rightarrow> string go_result" where
  "CurrentNamespace namespaceEnv readFile = (if namespaceEnv \<noteq> [] then Inr namespaceEnv else readFile)"

type_synonym labels = "string \<rightharpoonup> string"

fun merge_loop :: "labels \<Rightarrow> (string \<times> string) list \<Rightarrow> labels" where
  "merge_loop originLabels [] = originLabels"
| "merge_loop originLabels ((key, v) # rest) = merge_loop (originLabels(key \<mapsto> v)) rest"

text \<open>\<open>kvs\<close> lists the entries of \<open>additionLabels\<close> in the order of the \<open>range\<close>; a nil map is \<open>None\<close>.\<close>

definition MergeLabels :: "(string \<times> string) list \<Rightarrow> labels option \<Rightarrow> labels" where
  "MergeLabels kvs originLabels =
     merge_loop (case originLabels of None \<Rightarrow> Map.empty | Some m \<Rightarrow> m) kvs"

record ContainerPort =
  cp_Name :: string
  cp_HostPort :: int32
  cp_ContainerPort :: int32

fun find_host_port :: "ContainerPort list \<Rightarrow> int32 \<Rightarrow> int32 option" where
  "find_host_port [] hostPort = None"
| "find_host_port (portInfo # ports) hostPort =
     (if cp_HostPort portInfo = hostPort then Some (cp_ContainerPort portInfo) else find_host_port ports hostPort)"

fun GetTargetContainerPort :: "ContainerPort list list \<Rightarrow> int32 \<Rightarrow> int32" where
  "GetTargetContainerPort [] hostPort = 0"
| "GetTargetContainerPort (ports # containers) hostPort =
     (case find_host_port ports hostPort of
        Some containerPort \<Rightarrow> containerPort
      | None \<Rightarrow> GetTargetContainerPort containers hostPort)"

definition GetPodOwnerRefName :: "('pod \<Rightarrow> string option) \<Rightarrow> ('pod \<Rightarrow> string) \<Rightarrow> 'pod \<Rightarrow> string" where
  "GetPodOwnerRefName controllerOf podName pod =
     (case controllerOf pod of None \<Rightarrow> podName pod | Some ownerName \<Rightarrow> ownerName)"

section \<open>Identifiers\<close>

definition hex_digit :: "nat \<Rightarrow> char" where
  "hex_digit d = ''0123456789abcdef'' ! d"

definition hex_byte :: "8 word \<Rightarrow> string" where
  "hex_byte b = [hex_digit (unat b div 16), hex_digit (unat b mod 16)]"

definition hex_bytes :: "8 word list \<Rightarrow> string" where
  "hex_bytes bs = concat (map hex_byte bs)"

definition mark_uuid :: "8 word list \<Rightarrow> 8 word list" where
  "mark_uuid uuid =
     (let u1 = uuid[8 := (uuid ! 8 AND NOT 0xc0) OR 0x80]
      in u1[6 := (u1 ! 6 AND NOT 0xf0) OR 0x40])"

text \<open>\<open>random\<close> is what \<open>rand.Read\<close> put into the sixteen bytes, or its error.\<close>

definition UUID :: "8 word list go_result \<Rightarrow> string \<Rightarrow> string" where
  "UUID random prefix =
     (case random of
        Inl err \<Rightarrow> []
      | Inr bytes \<Rightarrow>
          (let uuid = mark_uuid bytes;
               uid = hex_bytes (take 4 uuid) @ ''-'' @ hex_bytes (take 2 (drop 4 uuid)) @ ''-'' @
                     hex_bytes (take 2 (drop 6 uuid)) @ ''-'' @ hex_bytes (take 2 (drop 8 uuid)) @ ''-'' @
                     hex_bytes (drop 10 uuid);
               prefixLen = length prefix
           in if prefixLen > 0 \<and> prefixLen < 15 then prefix @ drop prefixLen uid else uid))"

definition ReqUUID :: "8 word list go_result \<Rightarrow> string" where
  "ReqUUID random = UUID random ''req-''"

section \<open>Overriding a structure\<close>

text \<open>A structure is the list of its fields; \<open>isZero\<close> compares a field with the zero value of its type.\<close>

definition Override :: "('v \<Rightarrow> bool) \<Rightarrow> 'v list option \<Rightarrow> 'v list option \<Rightarrow> 'v list option" where
  "Override isZero left right =
     (case (left, right) of
        (Some oldVal, Some newVal) \<Rightarrow>
          Some (map (\<lambda>(old, val). if \<not> isZero val then val else old) (zip oldVal newVal))
      | _ \<Rightarrow> left)"

section \<open>Lemmas\<close>

lemma RemoveString_filter: "RemoveString xs s = filter (\<lambda>x. x \<noteq> s) xs"
  by (induction xs) auto

lemma HasString_iff [simp]: "HasString xs s \<longleftrightarrow> s \<in> set xs"
  by (induction xs) auto

lemma merge_loop_eq: "merge_loop m kvs = m ++ map_of (rev kvs)"
proof (induction kvs arbitrary: m)
  case (Cons kv kvs)
  then show ?case by (cases kv) (auto simp: map_add_def fun_eq_iff split: option.splits)
qed simp

lemma MergeLabels_eq:
  "distinct (map fst kvs) \<Longrightarrow>
   MergeLabels kvs m = (case m of None \<Rightarrow> Map.empty | Some m \<Rightarrow> m) ++ map_of kvs"
  unfolding MergeLabels_def merge_loop_eq
  by (subst map_of_inject_set [THEN iffD2, of "rev kvs" kvs]) (simp_all add: rev_map [symmetric])

lemma ServiceGroupFromContext_eq:
  "ServiceGroupFromContext c =
     (case FromIncomingContext c ServiceGroupTag of None \<Rightarrow> ''default''
      | Some t \<Rightarrow> if t = [] then ''default'' else last t)"
proof -
  have "foldl (\<lambda>s e. e) a t = (if t = [] then a else last t)" for a and t :: "string list"
    by (induction t arbitrary: a) auto
  then show ?thesis by (auto simp: ServiceGroupFromContext_def split: option.splits)
qed

lemma length_hex_bytes [simp]: "length (hex_bytes bs) = 2 * length bs"
  by (induction bs) (auto simp: hex_bytes_def hex_byte_def)

lemma length_mark_uuid [simp]: "length (mark_uuid bs) = length bs"
  by (simp add: mark_uuid_def Let_def)

lemma mark_version:
  assumes "length bs = 16" shows "unat (mark_uuid bs ! 6) div 16 = 4"
proof -
  have "mark_uuid bs ! 6 = (bs ! 6 AND NOT 0xf0) OR 0x40" using assms by (simp add: mark_uuid_def Let_def)
  moreover have "drop_bit 4 ((b AND NOT 0xf0) OR 0x40) = (4 :: 8 word)" for b :: "8 word"
    by (rule bit_word_eqI) (auto simp: bit_simps numeral_eq_Suc less_Suc_eq)
  ultimately have "unat (drop_bit 4 (mark_uuid bs ! 6)) = 4" by simp
  then show ?thesis by (simp add: drop_bit_eq_div unat_div_distrib)
qed

lemma mark_variant:
  assumes "length bs = 16" shows "unat (mark_uuid bs ! 8) div 64 = 2"
proof -
  have "mark_uuid bs ! 8 = (bs ! 8 AND NOT 0xc0) OR 0x80" using assms by (simp add: mark_uuid_def Let_def)
  moreover have "drop_bit 6 ((b AND NOT 0xc0) OR 0x80) = (2 :: 8 word)" for b :: "8 word"
    by (rule bit_word_eqI) (auto simp: bit_simps numeral_eq_Suc less_Suc_eq)
  ultimately have "unat (drop_bit 6 (mark_uuid bs ! 8)) = 2" by simp
  then show ?thesis by (simp add: drop_bit_eq_div unat_div_distrib)
qed

lemma hex_bytes_two: "length bs = 2 \<Longrightarrow> hex_bytes bs = hex_byte (bs ! 0) @ hex_byte (bs ! 1)"
  by (auto simp: hex_bytes_def numeral_2_eq_2 length_Suc_conv)

lemma uuid_layout:
  assumes "length bs = 16"
  shows "\<exists>a b c. UUID (Inr bs) [] = a @ hex_byte (mark_uuid bs ! 6) @ b @ hex_byte (mark_uuid bs ! 8) @ c \<and>
    length a = 14 \<and> length b = 3 \<and> length c = 15"
proof -
  let ?u = "mark_uuid bs"
  have l: "length ?u = 16" using assms by simp
  have six: "hex_bytes (take 2 (drop 6 ?u)) = hex_byte (?u ! 6) @ hex_byte (?u ! 7)"
    and eight: "hex_bytes (take 2 (drop 8 ?u)) = hex_byte (?u ! 8) @ hex_byte (?u ! 9)"
    using l by (simp_all add: hex_bytes_two)
  show ?thesis
    unfolding UUID_def Let_def sum.case six eight
    using l by (intro exI [of _ "hex_bytes (take 4 ?u) @ ''-'' @ hex_bytes (take 2 (drop 4 ?u)) @ ''-''"]
        exI [of _ "hex_byte (?u ! 7) @ ''-''"] exI [of _ "hex_byte (?u ! 9) @ ''-'' @ hex_bytes (drop 10 ?u)"])
      (simp add: hex_byte_def)
qed

lemma UUID_prefix:
  "UUID (Inr bs) p = (if 0 < length p \<and> length p < 15 then p @ drop (length p) (UUID (Inr bs) []) else UUID (Inr bs) [])"
  by (simp add: UUID_def Let_def)

section \<open>Properties\<close>

text \<open>
  A request identifier keeps the form of a version 4 UUID under every prefix of fewer than 15
  characters: it has 36 characters, starts with the prefix, has the version digit 4 at position 14, and a
  variant digit 8, 9, a or b at position 19; when the random source fails the identifier is empty.
\<close>

theorem uuid_shape:
  assumes "length bs = 16" "length prefix < 15"
  shows "length (UUID (Inr bs) prefix) = 36 \<and> take (length prefix) (UUID (Inr bs) prefix) = prefix \<and>
    UUID (Inr bs) prefix ! 14 = CHR ''4'' \<and> UUID (Inr bs) prefix ! 19 \<in> set ''89ab'' \<and> UUID (Inl e) prefix = []"
proof -
  obtain a b c where u: "UUID (Inr bs) [] = a @ hex_byte (mark_uuid bs ! 6) @ b @ hex_byte (mark_uuid bs ! 8) @ c"
    "length a = 14" "length b = 3" "length c = 15" using uuid_layout [OF assms(1)] by blast
  let ?u = "UUID (Inr bs) []" and ?v = "UUID (Inr bs) prefix"
  have "?u ! 14 = hex_digit 4"
    using u mark_version [OF assms(1)] by (simp add: nth_append hex_byte_def)
  moreover have "?u ! 19 = hex_digit (unat (mark_uuid bs ! 8) div 16)"
    using u by (simp add: nth_append hex_byte_def)
  moreover have "unat (mark_uuid bs ! 8) div 16 \<in> {8, 9, 10, 11}"
  proof -
    have "unat (mark_uuid bs ! 8) div 16 div 4 = 2"
      using mark_variant [OF assms(1)] by (simp add: div_mult2_eq [symmetric])
    then show ?thesis by auto
  qed
  ultimately have uv: "?u ! 14 = CHR ''4''" "?u ! 19 \<in> set ''89ab''"
    by (auto simp: hex_digit_def)
  have len: "length ?u = 36" using u by (simp add: hex_byte_def)
  have v: "?v = prefix @ drop (length prefix) ?u"
    using UUID_prefix [of bs prefix] assms(2) by (cases "prefix = []") auto
  have "?v ! 14 = ?u ! 14 \<and> ?v ! 19 = ?u ! 19" using len assms(2) by (simp add: v nth_append)
  then show ?thesis using uv len assms(2) by (simp add: v) (simp add: UUID_def)
qed

theorem uuid_shape_witness:
  "length (UUID (Inr (replicate 16 255)) ''req-'') = 36"
  using uuid_shape [of "replicate 16 255" "''req-''" EOF] by simp

end
