(* ===== verification/Handler.thy ===== *)
theory Handler
  imports Broker Utils
begin

text \<open>
  \<open>pkg/endpoint/pool/handler.go\<close>: the transparent gRPC handler that both the proxy and the broker
  register. It asks its director for a connection (with retries), opens a stream to the backend (with
  retries), and forwards messages in both directions until one side ends.

  The streams are grpc's: receiving and sending are arguments, functions from the state of the stream
  to a result and the next state. A forwarding loop may run for ever, so it has fuel; the fuel counts
  messages. What a loop received is returned as well, for the statements. The runtime's choices in the
  select of \<open>handler\<close> are the order in which the ends of the two loops are observed.
\<close>

section \<open>The codec\<close>

type_synonym bytes = "nat list"

datatype 'm go_message = Frame bytes | Proto 'm

definition rawCodec_Marshal :: "('m \<Rightarrow> bytes go_result) \<Rightarrow> 'm go_message \<Rightarrow> bytes go_result" where
  "rawCodec_Marshal parent v = (case v of Frame payload \<Rightarrow> Inr payload | Proto m \<Rightarrow> parent m)"

definition rawCodec_Unmarshal ::
  "(bytes \<Rightarrow> 'm \<Rightarrow> 'm go_result) \<Rightarrow> bytes \<Rightarrow> 'm go_message \<Rightarrow> 'm go_message go_result" where
  "rawCodec_Unmarshal parent data v =
     (case v of Frame _ \<Rightarrow> Inr (Frame data) | Proto m \<Rightarrow> map_sum id Proto (parent data m))"

definition rawCodec_String :: "string \<Rightarrow> string" where
  "rawCodec_String parent = ''proxy>'' @ parent"

section \<open>Registration\<close>

record StreamDesc =
  std_StreamName :: string
  std_ServerStreams :: bool
  std_ClientStreams :: bool

record ServiceDesc =
  svd_ServiceName :: string
  svd_Streams :: "StreamDesc list"

definition RegisterService :: "string \<Rightarrow> string list \<Rightarrow> ServiceDesc" where
  "RegisterService serviceName methodNames =
     \<lparr>svd_ServiceName = serviceName,
      svd_Streams = map (\<lambda>m. \<lparr>std_StreamName = m, std_ServerStreams = True, std_ClientStreams = True\<rparr>) methodNames\<rparr>"

text \<open>What \<open>RunGRPCServer\<close> registers: the first name is the service, the others its methods.\<close>

definition ping_service :: ServiceDesc where
  "ping_service = RegisterService ''PingEmpty'' [''Ping'', ''PingError'', ''PingList'']"

definition RunGRPCServer :: "go_error option \<Rightarrow> go_error option \<Rightarrow> go_error option" where
  "RunGRPCServer listenErr serveErr = (case listenErr of Some err \<Rightarrow> Some err | None \<Rightarrow> serveErr)"

section \<open>Retries\<close>

definition grpcRetryTimesInt :: nat where
  "grpcRetryTimesInt = 10"

definition grpcRetrySleepTimesInt :: nat where
  "grpcRetrySleepTimesInt = 100"

text \<open>The milliseconds \<open>SleepTime\<close> sleeps.\<close>

fun sleep_loop :: "nat \<Rightarrow> nat" where
  "sleep_loop 0 = 0"
| "sleep_loop (Suc n) = 100 + sleep_loop n"

definition SleepTime :: "nat \<Rightarrow> nat" where
  "SleepTime sleepTimes = sleep_loop (sleepTimes div 100)"

text \<open>
  The loop \<open>for ; c < grpcRetryTimesInt; c++\<close> around a call that failed with \<open>err\<close>: it ends with the first
  success, or with the error of its last attempt. The third component is the time slept.
\<close>

fun retry :: "nat \<Rightarrow> nat \<Rightarrow> ('s \<Rightarrow> 'a go_result \<times> 's) \<Rightarrow> go_error \<Rightarrow> 's \<Rightarrow> 'a go_result \<times> 's \<times> nat" where
  "retry 0 ms f err s = (Inl err, s, 0)"
| "retry (Suc n) ms f err s =
     (case f s of
        (Inr a, s') \<Rightarrow> (Inr a, s', 0)
      | (Inl e, s') \<Rightarrow> (let (r, s'', t) = retry n ms f e s' in (r, s'', ms + t)))"

definition with_retry :: "nat \<Rightarrow> ('s \<Rightarrow> 'a go_result \<times> 's) \<Rightarrow> 's \<Rightarrow> 'a go_result \<times> 's \<times> nat" where
  "with_retry ms f s =
     (case f s of
        (Inr a, s') \<Rightarrow> (Inr a, s', 0)
      | (Inl e, s') \<Rightarrow> retry grpcRetryTimesInt ms f e s')"

section \<open>Forwarding\<close>

text \<open>\<open>RecvMsg\<close> in a loop: an end of stream at the first attempt is not retried.\<close>

definition recv_retry :: "('s \<Rightarrow> bytes go_result \<times> 's) \<Rightarrow> 's \<Rightarrow> bytes go_result \<times> 's \<times> nat" where
  "recv_retry recv s =
     (case recv s of
        (Inr f, s') \<Rightarrow> (Inr f, s', 0)
      | (Inl e, s') \<Rightarrow>
          if e = EOF then (Inl EOF, s', 0)
          else retry grpcRetryTimesInt (SleepTime grpcRetrySleepTimesInt) recv e s')"

definition send_retry :: "('d \<Rightarrow> bytes \<Rightarrow> unit go_result \<times> 'd) \<Rightarrow> bytes \<Rightarrow> 'd \<Rightarrow> unit go_result \<times> 'd \<times> nat" where
  "send_retry send f d = with_retry (SleepTime grpcRetrySleepTimesInt) (\<lambda>d. send d f) d"

text \<open>
  \<open>forwardServerToClient\<close>: the error sent on the channel (\<open>None\<close> when the fuel ends first, the loop being
  still busy), the state of both streams, and the messages received.
\<close>

fun forwardServerToClient ::
  "('s \<Rightarrow> bytes go_result \<times> 's) \<Rightarrow> ('d \<Rightarrow> bytes \<Rightarrow> unit go_result \<times> 'd) \<Rightarrow> nat \<Rightarrow> 's \<Rightarrow> 'd
   \<Rightarrow> go_error option \<times> 's \<times> 'd \<times> bytes list" where
  "forwardServerToClient recv send 0 src dst = (None, src, dst, [])"
| "forwardServerToClient recv send (Suc n) src dst =
     (case recv_retry recv src of
        (Inl err, src', _) \<Rightarrow> (Some err, src', dst, [])
      | (Inr f, src', _) \<Rightarrow>
          (case send_retry send f dst of
             (Inl err, dst', _) \<Rightarrow> (Some err, src', dst', [f])
           | (Inr _, dst', _) \<Rightarrow>
               (let (r, s, d, fs) = forwardServerToClient recv send n src' dst' in (r, s, d, f # fs))))"

text \<open>\<open>forwardClientToServer\<close> sends the header before the first message (\<open>i = 0\<close>).\<close>

definition forward_header ::
  "('s \<Rightarrow> metadata go_result) \<Rightarrow> ('d \<Rightarrow> metadata \<Rightarrow> unit go_result \<times> 'd) \<Rightarrow> nat \<Rightarrow> 's \<Rightarrow> 'd \<Rightarrow> go_error option \<times> 'd" where
  "forward_header header sendHeader i src dst =
     (if i = 0 then
        (case header src of
           Inl err \<Rightarrow> (Some err, dst)
         | Inr md \<Rightarrow> (case sendHeader dst md of (Inl err, d) \<Rightarrow> (Some err, d) | (Inr _, d) \<Rightarrow> (None, d)))
      else (None, dst))"

fun forwardClientToServer ::
  "('s \<Rightarrow> bytes go_result \<times> 's) \<Rightarrow> ('s \<Rightarrow> metadata go_result) \<Rightarrow> ('d \<Rightarrow> metadata \<Rightarrow> unit go_result \<times> 'd)
   \<Rightarrow> ('d \<Rightarrow> bytes \<Rightarrow> unit go_result \<times> 'd) \<Rightarrow> nat \<Rightarrow> nat \<Rightarrow> 's \<Rightarrow> 'd \<Rightarrow> go_error option \<times> 's \<times> 'd \<times> bytes list" where
  "forwardClientToServer recv header sendHeader send 0 i src dst = (None, src, dst, [])"
| "forwardClientToServer recv header sendHeader send (Suc n) i src dst =
     (case recv_retry recv src of
        (Inl err, src', _) \<Rightarrow> (Some err, src', dst, [])
      | (Inr f, src', _) \<Rightarrow>
          (let (herr, dst1) = forward_header header sendHeader i src' dst
           in case herr of
                Some err \<Rightarrow> (Some err, src', dst1, [f])
              | None \<Rightarrow>
                  (case send_retry send f dst1 of
                     (Inl err, dst', _) \<Rightarrow> (Some err, src', dst', [f])
                   | (Inr _, dst', _) \<Rightarrow>
                       (let (r, s, d, fs) = forwardClientToServer recv header sendHeader send n (Suc i) src' dst'
                        in (r, s, d, f # fs)))))"

section \<open>The handler\<close>

datatype fwd_event = S2C go_error | C2S go_error

datatype action = ActCloseSend | ActCancel | ActSetTrailer | ActCloseConn nat

definition Internal :: nat where
  "Internal = 13"

definition Unimplemented :: nat where
  "Unimplemented = 12"

text \<open>
  The select loop: \<open>i\<close> iterations are left, and \<open>evs\<close> are the ends of the loops in the order they are
  received; \<open>None\<close> while it waits. The result \<open>Some None\<close> is a nil error.
\<close>

fun select_loop :: "nat \<Rightarrow> fwd_event list \<Rightarrow> go_error option option \<times> action list" where
  "select_loop 0 evs = (Some (Some (StatusErr Internal ''gRPC proxying should never reach this stage.'')), [])"
| "select_loop (Suc i) [] = (None, [])"
| "select_loop (Suc i) (S2C e # evs) =
     (if e = EOF then (let (r, acts) = select_loop i evs in (r, ActCloseSend # acts))
      else (Some (Some (StatusErr Internal ''failed proxying s2c'')), [ActCancel]))"
| "select_loop (Suc i) (C2S e # evs) =
     (if e \<noteq> EOF then (Some (Some e), [ActSetTrailer]) else (Some None, [ActSetTrailer]))"

record 'w director =
  dir_GetConn :: "'w \<Rightarrow> (metadata \<times> nat) go_result \<times> 'w"
  dir_ScheduleMethod :: string

text \<open>
  \<open>handler\<close>: \<open>methodOk\<close> is the lookup of the method name, \<open>newStream\<close> is \<open>grpc.NewClientStream\<close>. The actions end
  with the deferred ones, in the reverse order of their declaration.
\<close>

definition handler_run ::
  "'w director \<Rightarrow> bool \<Rightarrow> ('w \<Rightarrow> unit go_result \<times> 'w) \<Rightarrow> fwd_event list \<Rightarrow> 'w
   \<Rightarrow> go_error option option \<times> action list \<times> 'w" where
  "handler_run dir methodOk newStream evs w =
     (if \<not> methodOk then (Some (Some (StatusErr Internal ''lowLevelServerStream not exists in context'')), [], w)
      else case with_retry 0 (dir_GetConn dir) w of
             (Inl err, w1, _) \<Rightarrow> (Some (Some err), [], w1)
           | (Inr (md, conn), w1, _) \<Rightarrow>
               (case with_retry (SleepTime grpcRetrySleepTimesInt) newStream w1 of
                  (Inl err, w2, _) \<Rightarrow> (Some (Some err), [ActCancel, ActCloseConn conn], w2)
                | (Inr _, w2, _) \<Rightarrow>
                    (let (r, acts) = select_loop 2 evs
                     in (r, acts @ (if r = None then [] else [ActCancel, ActCloseConn conn]), w2))))"

text \<open>\<open>TransparentHandler\<close> adds one metric after the handler returned.\<close>

definition TransparentHandler ::
  "'w director \<Rightarrow> ctx \<Rightarrow> bool \<Rightarrow> ('w \<Rightarrow> unit go_result \<times> 'w) \<Rightarrow> fwd_event list \<Rightarrow> 'w
   \<Rightarrow> go_error option option \<times> action list \<times> metric_call list" where
  "TransparentHandler dir c methodOk newStream evs w =
     (let serviceGroup = ServiceGroupFromContext c;
          (r, acts, w') = handler_run dir methodOk newStream evs w
      in (r, acts, if r = None then [] else [BackendReceivedRequestTotal (dir_ScheduleMethod dir) serviceGroup]))"

section \<open>The broker as director\<close>

text \<open>
  \<open>GRPCBrokerServer.GetConn\<close>, after the request has waited in the queue: \<open>enq\<close> is the result of
  \<open>EnqueueRequests\<close>, \<open>acq\<close> that of \<open>Pool.Acquire\<close>.
\<close>

definition Broker_GetConn :: "bool \<Rightarrow> ctx \<Rightarrow> nat go_result \<Rightarrow> nat go_result \<Rightarrow> (metadata \<times> nat) go_result" where
  "Broker_GetConn flowControl c enq acq =
     (let md = FromIncomingContext c
      in case (flowControl, enq) of
           (True, Inl err) \<Rightarrow> Inl err
         | _ \<Rightarrow> (case acq of Inr conn \<Rightarrow> Inr (md, conn) | Inl _ \<Rightarrow> Inl (StatusErr Unimplemented ''unknown method'')))"

section \<open>Lemmas\<close>

lemma retry_Inr_or_last:
  "retry n ms f err s = (r, s', t) \<Longrightarrow> t \<le> ms * n \<and> (n = 0 \<longrightarrow> r = Inl err)"
  by (induction n arbitrary: err s r t) (auto split: prod.splits sum.splits intro: add_mono)

text \<open>A failing operation leaves \<open>delivered\<close> as it is, a successful send appends the message.\<close>

definition send_ok :: "('d \<Rightarrow> bytes \<Rightarrow> unit go_result \<times> 'd) \<Rightarrow> ('d \<Rightarrow> bytes list) \<Rightarrow> bool" where
  "send_ok send delivered \<longleftrightarrow>
     (\<forall>d f d'. send d f = (Inr (), d') \<longrightarrow> delivered d' = delivered d @ [f]) \<and>
     (\<forall>d f e d'. send d f = (Inl e, d') \<longrightarrow> delivered d' = delivered d)"

lemma retry_send:
  assumes "send_ok send delivered" "retry n ms (\<lambda>d. send d f) err d = (r, d', t)"
  shows "delivered d' = delivered d @ (case r of Inr _ \<Rightarrow> [f] | Inl _ \<Rightarrow> [])"
  using assms(2)
proof (induction n arbitrary: err d r t)
  case (Suc n)
  obtain x d1 where x: "send d f = (x, d1)" by (cases "send d f")
  show ?case
  proof (cases x)
    case (Inl e)
    then have "delivered d1 = delivered d" using x assms(1) by (simp add: send_ok_def)
    moreover obtain t' where "retry n ms (\<lambda>d. send d f) e d1 = (r, d', t')"
      using Suc.prems x Inl by (auto split: prod.splits)
    ultimately show ?thesis using Suc.IH by simp
  next
    case (Inr u)
    then show ?thesis using Suc.prems x assms(1) by (auto simp: send_ok_def)
  qed
qed auto

lemma send_retry_delivered:
  assumes "send_ok send delivered" "send_retry send f d = (r, d', t)"
  shows "delivered d' = delivered d @ (case r of Inr _ \<Rightarrow> [f] | Inl _ \<Rightarrow> [])"
proof -
  obtain x d1 where x: "send d f = (x, d1)" by (cases "send d f")
  show ?thesis
  proof (cases x)
    case (Inl e)
    then have "delivered d1 = delivered d" using x assms(1) by (simp add: send_ok_def)
    then show ?thesis
      using retry_send [OF assms(1), of _ _ f e d1 r d' t] assms(2) x Inl
      by (simp add: send_retry_def with_retry_def)
  next
    case (Inr u)
    then show ?thesis using assms x by (auto simp: send_retry_def with_retry_def send_ok_def)
  qed
qed

text \<open>A stream that yields the messages \<open>ms\<close> and then ends.\<close>

fun yields :: "('s \<Rightarrow> bytes go_result \<times> 's) \<Rightarrow> 's \<Rightarrow> bytes list \<Rightarrow> bool" where
  "yields recv s [] = (\<exists>s'. recv s = (Inl EOF, s'))"
| "yields recv s (m # ms) = (\<exists>s'. recv s = (Inr m, s') \<and> yields recv s' ms)"

definition always_sends :: "('d \<Rightarrow> bytes \<Rightarrow> unit go_result \<times> 'd) \<Rightarrow> bool" where
  "always_sends send \<longleftrightarrow> (\<forall>d f. \<exists>d'. send d f = (Inr (), d'))"

definition header_ok :: "('d \<Rightarrow> metadata \<Rightarrow> unit go_result \<times> 'd) \<Rightarrow> ('d \<Rightarrow> bytes list) \<Rightarrow> bool" where
  "header_ok sendHeader delivered \<longleftrightarrow> (\<forall>d md. delivered (snd (sendHeader d md)) = delivered d)"

text \<open>What a forwarding loop has delivered: everything it received, but for a last message it failed to send.\<close>

definition relayed :: "bytes list \<Rightarrow> bytes list \<Rightarrow> bytes list \<Rightarrow> go_error option \<Rightarrow> bool" where
  "relayed before after fs r \<longleftrightarrow>
     after = before @ fs \<or> (r \<noteq> None \<and> (\<exists>us f. fs = us @ [f] \<and> after = before @ us))"

lemma relayed_Cons: "relayed (before @ [f]) after fs r \<Longrightarrow> relayed before after (f # fs) r"
  unfolding relayed_def by (metis append.assoc append_Cons append_Nil)

lemma relayed_simps [simp]: "relayed before before [] r" "relayed before before [f] (Some e)"
  by (auto simp: relayed_def)

lemma s2c_relayed:
  assumes "send_ok send delivered"
  shows "forwardServerToClient recv send n src dst = (r, src', dst', fs) \<Longrightarrow>
    relayed (delivered dst) (delivered dst') fs r"
proof (induction n arbitrary: src dst r src' dst' fs)
  case (Suc n)
  obtain x s1 t1 where x: "recv_retry recv src = (x, s1, t1)" by (metis prod_cases3)
  show ?case
  proof (cases x)
    case (Inr f)
    obtain y d1 t2 where y: "send_retry send f dst = (y, d1, t2)" by (metis prod_cases3)
    note dl = send_retry_delivered [OF assms y]
    show ?thesis
    proof (cases y)
      case (Inl e)
      then show ?thesis using Suc.prems x Inr y dl by auto
    next
      case u: (Inr u)
      obtain r2 s2 d2 fs2 where rec: "forwardServerToClient recv send n s1 d1 = (r2, s2, d2, fs2)" by (metis prod_cases4)
      have "relayed (delivered dst @ [f]) (delivered d2) fs2 r2" using Suc.IH [OF rec] dl u by simp
      then show ?thesis using Suc.prems x Inr y u rec by (auto intro: relayed_Cons)
    qed
  qed (use Suc.prems x in auto)
qed auto

lemma c2s_relayed:
  assumes "send_ok send delivered" "header_ok sendHeader delivered"
  shows "forwardClientToServer recv header sendHeader send n i src dst = (r, src', dst', fs) \<Longrightarrow>
    relayed (delivered dst) (delivered dst') fs r"
proof (induction n arbitrary: i src dst r src' dst' fs)
  case (Suc n)
  obtain x s1 t1 where x: "recv_retry recv src = (x, s1, t1)" by (metis prod_cases3)
  show ?case
  proof (cases x)
    case (Inr f)
    obtain herr d1 where h: "forward_header header sendHeader i s1 dst = (herr, d1)"
      by (cases "forward_header header sendHeader i s1 dst")
    have hd: "delivered d = delivered dst" if "sendHeader dst md = (e, d)" for md e d
      using assms(2) that unfolding header_ok_def by (metis snd_conv)
    from h have d1: "delivered d1 = delivered dst"
      by (auto simp: forward_header_def hd split: if_split_asm sum.split_asm prod.split_asm)
    show ?thesis
    proof (cases herr)
      case (Some e)
      then show ?thesis using Suc.prems x Inr h d1 by (auto simp: Let_def)
    next
      case None
      obtain y d2 t2 where y: "send_retry send f d1 = (y, d2, t2)" by (metis prod_cases3)
      note dl = send_retry_delivered [OF assms(1) y]
      show ?thesis
      proof (cases y)
        case (Inl e)
        then show ?thesis using Suc.prems x Inr h None y dl d1 by (auto simp: Let_def)
      next
        case u: (Inr u)
        obtain r2 s2 d3 fs2 where rec: "forwardClientToServer recv header sendHeader send n (Suc i) s1 d2 = (r2, s2, d3, fs2)"
          by (metis prod_cases4)
        have "relayed (delivered dst @ [f]) (delivered d3) fs2 r2" using Suc.IH [OF rec] dl u d1 by simp
        then show ?thesis using Suc.prems x Inr h None y u rec by (auto simp: Let_def intro: relayed_Cons)
      qed
    qed
  qed (use Suc.prems x in auto)
qed auto

lemma s2c_complete:
  assumes "always_sends send"
  shows "yields recv src ms \<Longrightarrow> length ms < n \<Longrightarrow>
    \<exists>s d. forwardServerToClient recv send n src dst = (Some EOF, s, d, ms)"
proof (induction ms arbitrary: n src dst)
  case Nil
  then obtain k where "n = Suc k" by (cases n) auto
  then show ?case using Nil by (auto simp: recv_retry_def)
next
  case (Cons m ms)
  then obtain k where n: "n = Suc k" "length ms < k" by (cases n) auto
  obtain s1 where s1: "recv src = (Inr m, s1)" "yields recv s1 ms" using Cons.prems(1) by auto
  obtain d1 where d1: "send dst m = (Inr (), d1)" using assms by (auto simp: always_sends_def)
  from Cons.IH [OF s1(2) n(2), of d1] s1(1) d1 n(1) show ?case
    by (auto simp: recv_retry_def send_retry_def with_retry_def)
qed

section \<open>Properties\<close>

text \<open>
  C20. Messages are relayed in order, without loss, duplication or invention, in both directions and over
  every pattern of transient failures: what a forwarding loop has delivered is what it received, in the
  same order, except that a message whose sends all failed is the last one and ends the loop with an error.
\<close>

theorem relay_in_order:
  assumes "send_ok send delivered" "header_ok sendHeader delivered"
  shows "(forwardServerToClient recv send n src dst = (r, src', dst', fs) \<longrightarrow>
      relayed (delivered dst) (delivered dst') fs r) \<and>
    (forwardClientToServer recv header sendHeader send n 0 src dst = (r, src', dst', fs) \<longrightarrow>
      relayed (delivered dst) (delivered dst') fs r)"
  by (intro conjI impI; erule s2c_relayed [OF assms(1)] c2s_relayed [OF assms])

text \<open>A sink that records what it is sent and refuses every second attempt, for the witness.\<close>

definition flaky_send :: "nat \<times> bytes list \<Rightarrow> bytes \<Rightarrow> unit go_result \<times> (nat \<times> bytes list)" where
  "flaky_send d f = (let (k, ms) = d in if even k then (Inl (OtherErr ''transient''), Suc k, ms) else (Inr (), Suc k, ms @ [f]))"

definition script_recv :: "bytes list \<Rightarrow> bytes go_result \<times> bytes list" where
  "script_recv s = (case s of [] \<Rightarrow> (Inl EOF, []) | m # ms \<Rightarrow> (Inr m, ms))"

theorem relay_in_order_witness:
  "relayed [] (snd (fst (snd (snd (forwardServerToClient script_recv flaky_send 3 [[1], [2]] (0, []))))))
     (snd (snd (snd (forwardServerToClient script_recv flaky_send 3 [[1], [2]] (0, [])))))
     (fst (forwardServerToClient script_recv flaky_send 3 [[1], [2]] (0, [])))"
proof -
  have "send_ok flaky_send snd" by (auto simp: send_ok_def flaky_send_def split: if_splits prod.splits)
  moreover have "header_ok (\<lambda>d md. (Inr (), d)) (snd :: nat \<times> bytes list \<Rightarrow> bytes list)" by (simp add: header_ok_def)
  moreover obtain r s d fs where "forwardServerToClient script_recv flaky_send 3 [[1], [2]] (0, []) = (r, s, d, fs)"
    by (metis prod_cases4)
  ultimately show ?thesis using relay_in_order by fastforce
qed

text \<open>
  C21. A stream that ends is forwarded completely: when the source yields the messages \<open>ms\<close> and then the end of
  the stream, and sends succeed, the loop ends with the end of the stream and all of \<open>ms\<close> delivered, and
  more fuel than the number of messages is enough.
\<close>

theorem relay_complete:
  assumes "always_sends send" "send_ok send delivered" "yields recv src ms" "length ms < n"
  shows "\<exists>s d. forwardServerToClient recv send n src dst = (Some EOF, s, d, ms) \<and> delivered d = delivered dst @ ms"
proof -
  obtain s d where f: "forwardServerToClient recv send n src dst = (Some EOF, s, d, ms)"
    using s2c_complete [OF assms(1,3,4)] by blast
  moreover have "delivered d = delivered dst @ ms"
    using assms(1,3,4) f
  proof (induction ms arbitrary: n src dst)
    case Nil
    then show ?case by (cases n) (auto simp: recv_retry_def)
  next
    case (Cons m ms)
    then obtain k where n: "n = Suc k" "length ms < k" by (cases n) auto
    obtain s1 where s1: "recv src = (Inr m, s1)" "yields recv s1 ms" using Cons.prems(2) by auto
    obtain d1 where d1: "send dst m = (Inr (), d1)" using assms(1) by (auto simp: always_sends_def)
    have dl: "delivered d1 = delivered dst @ [m]" using assms(2) d1 by (simp add: send_ok_def)
    have "forwardServerToClient recv send k s1 d1 = (Some EOF, s, d, ms)"
      using Cons.prems(4) n(1) s1(1) d1 by (auto simp: recv_retry_def send_retry_def with_retry_def split: prod.splits)
    from Cons.IH [OF Cons.prems(1) s1(2) n(2) this] dl show ?case by simp
  qed
  ultimately show ?thesis by blast
qed

theorem relay_complete_witness:
  "\<exists>s d. forwardServerToClient script_recv (\<lambda>d f. (Inr (), d @ [f])) 3 [[1], [2]] [] = (Some EOF, s, d, [[1], [2]]) \<and> d = [] @ [[1], [2]]"
  by (rule relay_complete [where delivered = "\<lambda>d. d"]) (auto simp: always_sends_def send_ok_def script_recv_def)

definition is_s2c :: "fwd_event \<Rightarrow> bool" where
  "is_s2c e = (case e of S2C _ \<Rightarrow> True | C2S _ \<Rightarrow> False)"

text \<open>The ends of the two loops, in the order the handler sees them, when each loop has reported at most once.\<close>

lemma select_two:
  assumes "length (filter is_s2c evs) \<le> 1"
  shows "fst (select_loop 2 evs) = None \<or>
    (\<exists>e. C2S e \<in> set evs \<and> fst (select_loop 2 evs) = Some (if e = EOF then None else Some e)) \<or>
    (\<exists>e. S2C e \<in> set evs \<and> e \<noteq> EOF \<and> fst (select_loop 2 evs) = Some (Some (StatusErr Internal ''failed proxying s2c'')))"
proof (cases evs)
  case (Cons e rest)
  show ?thesis
  proof (cases e)
    case (S2C x)
    then have no: "filter is_s2c rest = []" using assms Cons by (simp add: is_s2c_def)
    show ?thesis
    proof (cases rest)
      case (Cons e2 rest2)
      then obtain y where "e2 = C2S y" using no by (cases e2) (auto simp: is_s2c_def)
      then show ?thesis using S2C \<open>evs = e # rest\<close> Cons by (auto simp: numeral_2_eq_2)
    qed (use S2C Cons in \<open>auto simp: numeral_2_eq_2\<close>)
  qed (use Cons in \<open>auto simp: numeral_2_eq_2\<close>)
qed (simp add: numeral_2_eq_2)

lemma select_actions: "filter (\<lambda>a. \<exists>c. a = ActCloseConn c) (snd (select_loop i evs)) = []"
  by (induction i evs rule: select_loop.induct) (auto split: prod.splits)

lemma select_nil:
  "fst (select_loop 2 evs) = Some None \<Longrightarrow> \<exists>rest. evs = C2S EOF # rest \<or> evs = S2C EOF # C2S EOF # rest"
proof (cases evs)
  case (Cons e rest)
  assume "fst (select_loop 2 evs) = Some None"
  then show ?thesis using Cons
    by (cases e; cases rest; (cases "hd rest")?) (auto simp: numeral_2_eq_2 split: if_splits prod.splits)
qed (simp add: numeral_2_eq_2)

text \<open>
  The outcome of a handled call. Once the connection and the backend stream exist, the handler returns the
  end of the backend's stream (nil when it ended normally) or the failure of the other direction, and
  never reaches its last return statement; a nil result means the backend ended normally, after at most a
  normal end of the client; and whenever the handler returns, the connection it acquired has been closed
  exactly once, while a call that acquired none closes none.
\<close>

theorem handler_outcome:
  assumes "handler_run dir methodOk newStream evs w = (Some r, acts, w')" "length (filter is_s2c evs) \<le> 1"
  shows "(r = None \<longrightarrow> (\<exists>rest. evs = C2S EOF # rest \<or> evs = S2C EOF # C2S EOF # rest)) \<and>
    (case with_retry 0 (dir_GetConn dir) w of
       (Inr (md, conn), w1, t) \<Rightarrow>
         methodOk \<longrightarrow> filter (\<lambda>a. \<exists>c. a = ActCloseConn c) acts = [ActCloseConn conn] \<and>
           (\<forall>w2 t2. with_retry (SleepTime grpcRetrySleepTimesInt) newStream w1 = (Inr (), w2, t2) \<longrightarrow>
              (\<exists>e. C2S e \<in> set evs \<and> r = (if e = EOF then None else Some e)) \<or>
              (\<exists>e. S2C e \<in> set evs \<and> e \<noteq> EOF \<and> r = Some (StatusErr Internal ''failed proxying s2c'')))
     | (Inl err, w1, t) \<Rightarrow> methodOk \<longrightarrow> acts = [] \<and> r = Some err)"
proof (cases methodOk)
  case False
  then have "r \<noteq> None" using assms(1) by (auto simp: handler_run_def)
  then show ?thesis using False by (auto split: prod.splits sum.splits)
next
  case True
  obtain x w1 t where x: "with_retry 0 (dir_GetConn dir) w = (x, w1, t)" by (metis prod_cases3)
  show ?thesis
  proof (cases x)
    case (Inl err)
    then show ?thesis using assms(1) True x by (auto simp: handler_run_def)
  next
    case (Inr mc)
    obtain md conn where mc: "mc = (md, conn)" by (cases mc)
    obtain y w2 t2 where y: "with_retry (SleepTime grpcRetrySleepTimesInt) newStream w1 = (y, w2, t2)"
      by (metis prod_cases3)
    obtain res sacts where sel: "select_loop 2 evs = (res, sacts)" by (cases "select_loop 2 evs")
    have none: "filter (\<lambda>a. \<exists>c. a = ActCloseConn c) sacts = []" using select_actions [of 2 evs] sel by simp
    show ?thesis
    proof (cases y)
      case (Inl err)
      then show ?thesis using assms(1) True x Inr mc y by (auto simp: handler_run_def)
    next
      case u: (Inr u)
      then have r: "res = Some r" "acts = sacts @ [ActCancel, ActCloseConn conn]"
        using assms(1) True x Inr mc y sel by (auto simp: handler_run_def split: if_splits)
      have "r = None \<longrightarrow> (\<exists>rest. evs = C2S EOF # rest \<or> evs = S2C EOF # C2S EOF # rest)"
        using select_nil [of evs] sel r(1) by auto
      moreover have "(\<exists>e. C2S e \<in> set evs \<and> r = (if e = EOF then None else Some e)) \<or>
          (\<exists>e. S2C e \<in> set evs \<and> e \<noteq> EOF \<and> r = Some (StatusErr Internal ''failed proxying s2c''))"
        using select_two [OF assms(2)] sel r(1) by auto
      ultimately show ?thesis using x Inr mc y u r(2) none by simp
    qed
  qed
qed

theorem handler_outcome_witness:
  "let (r, acts, w) = handler_run \<lparr>dir_GetConn = (\<lambda>w. (Inr (Map.empty, 5), w)), dir_ScheduleMethod = ''RR''\<rparr>
       True (\<lambda>w. (Inr (), w)) [S2C EOF, C2S EOF] ()
   in r = Some None \<and> filter (\<lambda>a. \<exists>c. a = ActCloseConn c) acts = [ActCloseConn 5]"
proof -
  let ?d = "\<lparr>dir_GetConn = (\<lambda>w. (Inr (Map.empty, 5), w)), dir_ScheduleMethod = ''RR''\<rparr> :: unit director"
  have h: "handler_run ?d True (\<lambda>w. (Inr (), w)) [S2C EOF, C2S EOF] () =
      (Some None, [ActCloseSend, ActSetTrailer, ActCancel, ActCloseConn 5], ())"
    by (simp add: handler_run_def with_retry_def numeral_2_eq_2)
  have "filter (\<lambda>a. \<exists>c. a = ActCloseConn c) [ActCloseSend, ActSetTrailer, ActCancel, ActCloseConn 5] = [ActCloseConn 5]"
    using handler_outcome [OF h] by (simp add: with_retry_def is_s2c_def)
  then show ?thesis by (simp add: h)
qed

end
