(* ===== verification/Holder.thy ===== *)
theory Holder
  imports Xconfig
begin

text \<open>
  \<open>internal/proxy/holder\<close>: a registry of callers waiting for a response under an identifier. Each waiter has
  a channel with room for two responses and a goroutine that gives up when the context is done or the
  timeout expires. \<open>Notify\<close> and that goroutine race for the channel; \<open>Cancel\<close> sends to every registered one.

  The state has the map of holders, what was ever sent on each channel, and the goroutines that have not
  given up yet. The steps are the critical sections with the send that follows them. A send blocks when
  the channel holds two responses that nobody has received: a channel on which at most two were ever sent
  never blocks. The metadata and the data of a response are one opaque value, which no operation looks at. The
  holder's timeout is not in the state: when a timer expires is the environment's choice.
\<close>

section \<open>State and operations\<close>

datatype Status = StatusUnset | StatusCanceled | StatusOK | StatusFailed | StatusTimeout

record Response =
  resp_ID :: string
  resp_Status :: Status
  resp_ErrMessage :: string
  resp_Data :: string

record holder =
  h_holders :: "string \<rightharpoonup> nat"
  h_sent :: "nat \<Rightarrow> Response list"
  h_pending :: "(nat \<times> string) list"
  h_next :: nat

definition wait_capacity :: nat where
  "wait_capacity = 2"

definition holder_New :: holder where
  "holder_New = \<lparr>h_holders = Map.empty, h_sent = (\<lambda>_. []), h_pending = [], h_next = 0\<rparr>"

definition send_chan :: "nat \<Rightarrow> Response \<Rightarrow> holder \<Rightarrow> holder" where
  "send_chan ch resp h = h\<lparr>h_sent := (h_sent h)(ch := h_sent h ch @ [resp])\<rparr>"

definition holder_wait :: "string \<Rightarrow> holder \<Rightarrow> nat \<times> holder" where
  "holder_wait i h =
     (let waitCh = h_next h
      in (waitCh, h\<lparr>h_holders := (h_holders h)(i \<mapsto> waitCh), h_pending := (waitCh, i) # h_pending h,
                    h_next := waitCh + 1\<rparr>))"

text \<open>Why a waiter's goroutine gives up: the error of its context, if any, or the timeout.\<close>

datatype give_up = CtxErr "string option" | WaitTimeout

definition give_up_response :: "string \<Rightarrow> give_up \<Rightarrow> Response" where
  "give_up_response i why =
     (case why of
        CtxErr None \<Rightarrow> \<lparr>resp_ID = i, resp_Status = StatusUnset, resp_ErrMessage = [], resp_Data = []\<rparr>
      | CtxErr (Some e) \<Rightarrow> \<lparr>resp_ID = i, resp_Status = StatusCanceled, resp_ErrMessage = e, resp_Data = []\<rparr>
      | WaitTimeout \<Rightarrow> \<lparr>resp_ID = i, resp_Status = StatusTimeout,
                        resp_ErrMessage = ''waiting response timeout'', resp_Data = []\<rparr>)"

definition holder_fire :: "nat \<times> string \<Rightarrow> give_up \<Rightarrow> holder \<Rightarrow> holder" where
  "holder_fire p why h =
     (let (waitCh, i) = p;
          h1 = h\<lparr>h_holders := (h_holders h)(i := None), h_pending := remove1 p (h_pending h)\<rparr>
      in send_chan waitCh (give_up_response i why) h1)"

definition Notify :: "Response \<Rightarrow> holder \<Rightarrow> holder" where
  "Notify resp h =
     (let h1 = h\<lparr>h_holders := (h_holders h)(resp_ID resp := None)\<rparr>
      in case h_holders h (resp_ID resp) of
           None \<Rightarrow> h1
         | Some waitCh \<Rightarrow> send_chan waitCh resp h1)"

definition cancel_response :: "string \<Rightarrow> Response" where
  "cancel_response i = \<lparr>resp_ID = i, resp_Status = StatusCanceled, resp_ErrMessage = ''canceled'', resp_Data = []\<rparr>"

text \<open>\<open>Cancel\<close> sends along the iteration \<open>ids\<close> over the map and leaves the registrations in place.\<close>

fun Cancel :: "string list \<Rightarrow> holder \<Rightarrow> holder" where
  "Cancel [] h = h"
| "Cancel (i # ids) h =
     Cancel ids (case h_holders h i of None \<Rightarrow> h | Some ch \<Rightarrow> send_chan ch (cancel_response i) h)"

text \<open>\<open>Wait\<close> returns the first response sent on its channel; \<open>None\<close> while there is none.\<close>

definition Wait_result :: "nat \<Rightarrow> holder \<Rightarrow> Response option" where
  "Wait_result ch h = (case h_sent h ch of [] \<Rightarrow> None | r # _ \<Rightarrow> Some r)"

inductive holder_step :: "holder \<Rightarrow> holder \<Rightarrow> bool" where
  wait: "holder_wait i h = (ch, h') \<Longrightarrow> holder_step h h'"
| fire: "p \<in> set (h_pending h) \<Longrightarrow> holder_step h (holder_fire p why h)"
| notify: "holder_step h (Notify resp h)"

inductive holder_reach :: "holder \<Rightarrow> bool" where
  init: "holder_reach holder_New"
| step: "holder_reach h \<Longrightarrow> holder_step h h' \<Longrightarrow> holder_reach h'"

section \<open>Invariant\<close>

text \<open>A channel can still be sent one response by \<open>Notify\<close> and one by its goroutine.\<close>

definition credit :: "holder \<Rightarrow> nat \<Rightarrow> nat" where
  "credit h ch = (if ch \<in> ran (h_holders h) then 1 else 0) + (if ch \<in> fst ` set (h_pending h) then 1 else 0)"

definition holder_inv :: "holder \<Rightarrow> bool" where
  "holder_inv h \<longleftrightarrow>
     (\<forall>ch. length (h_sent h ch) + credit h ch \<le> wait_capacity) \<and>
     (\<forall>ch \<ge> h_next h. h_sent h ch = [] \<and> ch \<notin> ran (h_holders h)) \<and>
     distinct (map fst (h_pending h)) \<and> (\<forall>(ch, i) \<in> set (h_pending h). ch < h_next h) \<and>
     (\<forall>i j ch. h_holders h i = Some ch \<and> h_holders h j = Some ch \<longrightarrow> i = j)"

lemma ran_upd_None: "ran (m(i := None)) = {c. \<exists>j. j \<noteq> i \<and> m j = Some c}"
  by (auto simp: ran_def)

lemma holder_inv_wait:
  assumes "holder_inv h" "holder_wait i h = (ch, h')"
  shows "holder_inv h'"
proof -
  have ch: "ch = h_next h" and h': "h' = h\<lparr>h_holders := (h_holders h)(i \<mapsto> ch), h_pending := (ch, i) # h_pending h, h_next := ch + 1\<rparr>"
    using assms(2) by (auto simp: holder_wait_def Let_def)
  have fresh: "h_sent h ch = []" "ch \<notin> ran (h_holders h)"
    using assms(1) unfolding holder_inv_def ch by blast+
  have "\<forall>(c, i) \<in> set (h_pending h). c < h_next h" using assms(1) unfolding holder_inv_def by blast
  then have fresh_p: "ch \<notin> fst ` set (h_pending h)" unfolding ch by fastforce
  have "length (h_sent h' c) + credit h' c \<le> wait_capacity" for c
  proof (cases "c = ch")
    case True
    then show ?thesis using fresh(1) by (simp add: h' credit_def wait_capacity_def)
  next
    case False
    then have "credit h' c \<le> credit h c" by (auto simp: credit_def h' ran_def)
    moreover have "length (h_sent h c) + credit h c \<le> wait_capacity" using assms(1) by (simp add: holder_inv_def)
    ultimately show ?thesis by (simp add: h')
  qed
  moreover have "h_sent h' c = [] \<and> c \<notin> ran (h_holders h')" if "c \<ge> h_next h'" for c
  proof -
    have "c \<ge> h_next h" "c \<noteq> ch" using that by (auto simp: h' ch)
    moreover have "h_sent h c = [] \<and> c \<notin> ran (h_holders h)"
      using assms(1) \<open>c \<ge> h_next h\<close> unfolding holder_inv_def by blast
    ultimately show ?thesis by (auto simp: h' ran_def)
  qed
  moreover have "h_holders h' a = Some c \<and> h_holders h' b = Some c \<longrightarrow> a = b" for a b c
  proof -
    have "h_holders h a = Some c \<and> h_holders h b = Some c \<longrightarrow> a = b"
      using assms(1) unfolding holder_inv_def by blast
    then show ?thesis using fresh(2) by (auto simp: h' ran_def)
  qed
  moreover have "distinct (map fst (h_pending h'))"
    using assms(1) fresh_p unfolding holder_inv_def by (simp add: h')
  moreover have "\<forall>(c, i) \<in> set (h_pending h'). c < h_next h'"
    using \<open>\<forall>(c, i) \<in> set (h_pending h). c < h_next h\<close> by (fastforce simp: h' ch)
  ultimately show ?thesis unfolding holder_inv_def by blast
qed

lemma holder_inv_send:
  assumes "holder_inv h" "credit h1 ch < credit h ch" "\<And>c. credit h1 c \<le> credit h c"
    and "h_sent h1 = h_sent h" "h_next h1 = h_next h" "ran (h_holders h1) \<subseteq> ran (h_holders h)"
    and "distinct (map fst (h_pending h1))" "set (h_pending h1) \<subseteq> set (h_pending h)"
    and "\<And>i c. h_holders h1 i = Some c \<Longrightarrow> h_holders h i = Some c" "ch < h_next h"
  shows "holder_inv (send_chan ch r h1)"
proof -
  have "length (h_sent (send_chan ch r h1) c) + credit (send_chan ch r h1) c \<le> wait_capacity" for c
  proof -
    have "length (h_sent h c) + credit h c \<le> wait_capacity" using assms(1) by (simp add: holder_inv_def)
    moreover have "credit (send_chan ch r h1) c = credit h1 c" by (simp add: credit_def send_chan_def)
    ultimately show ?thesis using assms(2) assms(3) [of c] assms(4) by (auto simp: send_chan_def)
  qed
  then show ?thesis
    using assms(1,4-10) unfolding holder_inv_def send_chan_def by (auto 4 4)
qed

lemma holder_inv_D:
  assumes "holder_inv h"
  shows "length (h_sent h ch) + credit h ch \<le> wait_capacity" "distinct (map fst (h_pending h))"
    "(ch, i) \<in> set (h_pending h) \<Longrightarrow> ch < h_next h" "h_holders h i = Some ch \<Longrightarrow> ch < h_next h"
    "h_holders h i = Some ch \<Longrightarrow> h_holders h j = Some ch \<Longrightarrow> i = j"
proof -
  show "length (h_sent h ch) + credit h ch \<le> wait_capacity" "distinct (map fst (h_pending h))"
    using assms unfolding holder_inv_def by blast+
  show "(ch, i) \<in> set (h_pending h) \<Longrightarrow> ch < h_next h" using assms unfolding holder_inv_def by fast
  show "h_holders h i = Some ch \<Longrightarrow> h_holders h j = Some ch \<Longrightarrow> i = j"
    using assms unfolding holder_inv_def by blast
  assume "h_holders h i = Some ch"
  then have "ch \<in> ran (h_holders h)" by (auto simp: ran_def)
  then show "ch < h_next h" using assms unfolding holder_inv_def by (meson not_le_imp_less)
qed

lemma holder_inv_fire:
  assumes "holder_inv h" "p \<in> set (h_pending h)"
  shows "holder_inv (holder_fire p why h)"
proof -
  obtain ch i where p: "p = (ch, i)" by (cases p)
  let ?h1 = "h\<lparr>h_holders := (h_holders h)(i := None), h_pending := remove1 p (h_pending h)\<rparr>"
  note d = holder_inv_D [OF assms(1)]
  have dp: "distinct (h_pending h)" using d(2) by (simp add: distinct_map)
  have "q = p" if "q \<in> set (h_pending h)" "fst q = ch" for q
    using eq_key_imp_eq_value [OF d(2), of ch "snd q" i] that assms(2) by (metis p prod.collapse)
  then have gone: "ch \<notin> fst ` set (remove1 p (h_pending h))" using dp by (auto simp: set_remove1_eq)
  have ran: "ran ((h_holders h)(i := None)) \<subseteq> ran (h_holders h)" by (auto simp: ran_def)
  have pend: "set (remove1 p (h_pending h)) \<subseteq> set (h_pending h)" by (rule set_remove1_subset)
  have "holder_inv (send_chan ch (give_up_response i why) ?h1)"
  proof (rule holder_inv_send [OF assms(1)])
    show "credit ?h1 c \<le> credit h c" for c
      using ran pend by (auto simp: credit_def)
    have "ch \<in> fst ` set (h_pending h)" using assms(2) p by force
    then show "credit ?h1 ch < credit h ch" using gone ran by (auto simp: credit_def)
    show "distinct (map fst (h_pending ?h1))"
      using d(2) pend by (auto simp: distinct_map intro: inj_on_subset)
    show "ch < h_next h" using d(3) assms(2) p by blast
  qed (use ran pend in \<open>auto split: if_splits\<close>)
  then show ?thesis by (simp add: holder_fire_def p Let_def)
qed

lemma holder_inv_drop:
  assumes "holder_inv h"
  shows "holder_inv (h\<lparr>h_holders := (h_holders h)(i := None)\<rparr>)"
proof -
  have ran: "ran ((h_holders h)(i := None)) \<subseteq> ran (h_holders h)" by (auto simp: ran_def)
  then have "credit (h\<lparr>h_holders := (h_holders h)(i := None)\<rparr>) c \<le> credit h c" for c
    by (auto simp: credit_def)
  then show ?thesis using assms ran unfolding holder_inv_def
    by (auto intro: le_trans [OF add_left_mono])
qed

lemma holder_inv_Notify:
  assumes "holder_inv h" shows "holder_inv (Notify resp h)"
proof (cases "h_holders h (resp_ID resp)")
  case None
  then show ?thesis using holder_inv_drop [OF assms] by (simp add: Notify_def)
next
  case (Some ch)
  let ?i = "resp_ID resp"
  let ?h1 = "h\<lparr>h_holders := (h_holders h)(?i := None)\<rparr>"
  note d = holder_inv_D [OF assms]
  have ran: "ran ((h_holders h)(?i := None)) \<subseteq> ran (h_holders h)" by (auto simp: ran_def)
  have in_ran: "ch \<in> ran (h_holders h)" using Some by (rule ranI)
  have "h_holders h j \<noteq> Some ch" if "j \<noteq> ?i" for j using d(5) [OF Some] that by blast
  then have not_ran: "ch \<notin> ran ((h_holders h)(?i := None))" unfolding ran_upd_None by blast
  have "holder_inv (send_chan ch resp ?h1)"
    by (intro holder_inv_send [OF assms])
      (use ran in_ran not_ran d(2) d(4) [OF Some] in \<open>auto simp: credit_def split: if_splits\<close>)
  then show ?thesis by (simp add: Notify_def Some Let_def)
qed

lemma holder_reach_inv: "holder_reach h \<Longrightarrow> holder_inv h"
proof (induction rule: holder_reach.induct)
  case init
  then show ?case by (simp add: holder_inv_def holder_New_def credit_def)
next
  case (step h h')
  from step.hyps(2) show ?case
    by (cases rule: holder_step.cases)
      (use step.IH in \<open>auto intro: holder_inv_wait holder_inv_fire holder_inv_Notify\<close>)
qed

section \<open>Properties\<close>

text \<open>
  No response is ever stuck: as long as nobody calls \<open>Cancel\<close>, over every interleaving of waits,
  notifications and expiries, at most two responses are sent on any waiter's channel, so that neither
  \<open>Notify\<close> nor a waiter's goroutine blocks; and a waiter that is registered and not yet answered
  gets the response that \<open>Notify\<close> is called with.
\<close>

theorem holder_never_blocks:
  assumes "holder_reach h"
  shows "length (h_sent h ch) \<le> 2 \<and>
    (h_holders h (resp_ID resp) = Some ch \<and> Wait_result ch h = None \<longrightarrow> Wait_result ch (Notify resp h) = Some resp)"
proof -
  have "length (h_sent h ch) \<le> 2"
    using holder_inv_D(1) [OF holder_reach_inv [OF assms], of ch] by (simp add: wait_capacity_def)
  then show ?thesis
    by (auto simp: Wait_result_def Notify_def Let_def send_chan_def split: list.splits)
qed

definition one_waiter :: holder where
  "one_waiter = snd (holder_wait ''req-1'' holder_New)"

lemma one_waiter_reach: "holder_reach one_waiter"
  using holder_reach.step [OF holder_reach.init holder_step.wait [of "''req-1''" holder_New]]
  by (simp add: one_waiter_def holder_wait_def Let_def)

theorem holder_never_blocks_witness:
  "Wait_result 0 (Notify \<lparr>resp_ID = ''req-1'', resp_Status = StatusOK, resp_ErrMessage = [], resp_Data = ''x''\<rparr> one_waiter)
   = Some \<lparr>resp_ID = ''req-1'', resp_Status = StatusOK, resp_ErrMessage = [], resp_Data = ''x''\<rparr>"
  using holder_never_blocks [OF one_waiter_reach, of 0
      "\<lparr>resp_ID = ''req-1'', resp_Status = StatusOK, resp_ErrMessage = [], resp_Data = ''x''\<rparr>"]
  by (simp add: one_waiter_def holder_wait_def holder_New_def Wait_result_def Let_def)

text \<open>
  \<open>Cancel\<close> breaks that bound, since it leaves the registrations in place: two calls already fill the channel
  of a waiter, and the expiry of that waiter then sends a third response.
\<close>

theorem cancel_overfills:
  "length (h_sent (holder_fire (0, ''req-1'') WaitTimeout (Cancel [''req-1''] (Cancel [''req-1''] one_waiter))) 0) = 3"
  by (simp add: one_waiter_def holder_wait_def holder_New_def holder_fire_def send_chan_def Let_def)

end
