(* ===== verification/Proxy.thy ===== *)
theory Proxy
  imports Handler Holder
begin

text \<open>
  The proxy's endpoints (\<open>internal/proxy/endpoint\<close>) and the run loops of the two servers
  (\<open>internal/proxy/server.go\<close>, \<open>internal/broker/server.go\<close>). The proxy forwards a client's request to the broker
  and marks it with the service group of its configuration: the HTTP proxy by a header, the gRPC proxy
  by metadata. \<open>url.Parse\<close> is an argument.

  HTTP headers are a map from canonical names to lists of values, with \<open>Get\<close> and \<open>Add\<close> of \<open>net/http\<close>.
\<close>

section \<open>The gRPC proxy\<close>

record GRPCProxyServer =
  gp_Addr :: string
  gp_StopChan :: bool
  gp_Pool :: pool_world
  gp_ServiceGroupName :: string

definition NewGRPCProxyServer :: "int \<Rightarrow> (nat \<Rightarrow> dial) \<Rightarrow> ProxyConfig \<Rightarrow> GRPCProxyServer go_result" where
  "NewGRPCProxyServer now dials cfg =
     (case initPool (mp_GRPC (pcfg_Proxy cfg)) now dials of
        (None, Some pool) \<Rightarrow>
          (let sgName = (if sg_Name (pcfg_ServiceGroup cfg) = [] then DefaultServiceGroup else sg_Name (pcfg_ServiceGroup cfg))
           in Inr \<lparr>gp_Addr = mp_Addr (pcfg_Proxy cfg), gp_StopChan = False, gp_Pool = pool,
                   gp_ServiceGroupName = sgName\<rparr>)
      | (Some err, _) \<Rightarrow> Inl err
      | (None, None) \<Rightarrow> Inl ErrPoolInit)"

definition Proxy_ContextWithServiceGroup :: "GRPCProxyServer \<Rightarrow> ctx \<Rightarrow> ctx" where
  "Proxy_ContextWithServiceGroup ps c = c\<lparr>ctx_out := Some [ServiceGroupContext \<mapsto> [gp_ServiceGroupName ps]]\<rparr>"

text \<open>
  \<open>GetConn\<close>; \<open>acq\<close> is the result of \<open>Pool.Acquire\<close>. The context with the service group is overwritten by one
  with a copy of the incoming metadata.
\<close>

definition Proxy_GetConn :: "GRPCProxyServer \<Rightarrow> ctx \<Rightarrow> nat go_result \<Rightarrow> (ctx \<times> nat) go_result" where
  "Proxy_GetConn ps c acq =
     (let md = FromIncomingContext c;
          outCtx = Proxy_ContextWithServiceGroup ps c;
          outCtx = c\<lparr>ctx_out := Some md\<rparr>
      in case acq of
           Inr conn \<Rightarrow> Inr (outCtx, conn)
         | Inl _ \<Rightarrow> Inl (StatusErr Unimplemented ''unknown method''))"

definition Proxy_Stop :: "GRPCProxyServer \<Rightarrow> GRPCProxyServer go_result" where
  "Proxy_Stop g = (if gp_StopChan g then Inl (GoPanic ''close of closed channel'') else Inr (g\<lparr>gp_StopChan := True\<rparr>))"

text \<open>What the called server sees of a context: the outgoing metadata of the caller are its incoming ones.\<close>

definition transmit :: "ctx \<Rightarrow> ctx" where
  "transmit c = \<lparr>ctx_in = Some (case ctx_out c of None \<Rightarrow> Map.empty | Some md \<Rightarrow> md), ctx_out = None\<rparr>"

section \<open>The HTTP proxy\<close>

type_synonym headers = "string \<rightharpoonup> string list"

definition Header_Get :: "headers \<Rightarrow> string \<Rightarrow> string" where
  "Header_Get h k = (case h k of Some (v # _) \<Rightarrow> v | _ \<Rightarrow> [])"

definition Header_Add :: "headers \<Rightarrow> string \<Rightarrow> string \<Rightarrow> headers" where
  "Header_Add h k v = h(k \<mapsto> (case h k of None \<Rightarrow> [] | Some vs \<Rightarrow> vs) @ [v])"

record HttpProxyServer =
  hp_Proxy :: HttpServer
  hp_Transport :: Transport
  hp_Target :: string
  hp_GroupName :: string
  hp_Addr :: string

definition GetTargetURL :: "(string \<Rightarrow> string go_result) \<Rightarrow> (string \<Rightarrow> string) \<Rightarrow> string go_result" where
  "GetTargetURL urlParse env =
     (case Atoi (env ''TARGET_PORT'') of
        None \<Rightarrow> Inl (OtherErr ''strconv.Atoi'')
      | Some targetPort \<Rightarrow>
          if env ''TARGET_ADDRESS'' = [] then Inl (Errorf ''TARGET_ADDRESS environment variable not set'')
          else urlParse (''http://'' @ env ''TARGET_ADDRESS'' @ '':'' @ show_int targetPort))"

definition NewHttpProxyServer ::
  "(string \<Rightarrow> string go_result) \<Rightarrow> (string \<Rightarrow> string) \<Rightarrow> ProxyConfig \<Rightarrow> HttpProxyServer go_result" where
  "NewHttpProxyServer urlParse env cfg =
     (case GetTargetURL urlParse env of
        Inl err \<Rightarrow> Inl err
      | Inr targetURL \<Rightarrow>
          (let h = mp_HTTP (pcfg_Proxy cfg)
           in Inr \<lparr>hp_Proxy = \<lparr>hs_Addr = mp_Addr (pcfg_Proxy cfg), hs_ReadTimeout = http_ReadTimeout h,
                     hs_WriteTimeout = http_WriteTimeout h, hs_ReadHeaderTimeout = http_HeaderTimeout h,
                     hs_IdleTimeout = http_IdleConnTimeout h\<rparr>,
                   hp_Transport = \<lparr>tr_DialTimeout = http_DialTimeout h, tr_KeepAlive = http_KeepAlive h,
                     tr_ResponseHeaderTimeout = http_HeaderTimeout h,
                     tr_IdleConnTimeout = http_IdleConnTimeout h, tr_MaxIdleConns = http_MaxIdleConns h,
                     tr_MaxConnsPerHost = http_MaxConnsPerHost h\<rparr>,
                   hp_Target = targetURL, hp_GroupName = sg_Name (pcfg_ServiceGroup cfg),
                   hp_Addr = mp_Addr (pcfg_Proxy cfg)\<rparr>))"

text \<open>\<open>Rewrite\<close>: the headers of the outgoing request; \<open>xForwarded\<close> is \<open>SetXForwarded\<close>, which sets other headers.\<close>

definition Rewrite :: "(headers \<Rightarrow> headers) \<Rightarrow> HttpProxyServer \<Rightarrow> headers \<Rightarrow> string \<times> headers" where
  "Rewrite xForwarded p h = (hp_Target p, Header_Add (xForwarded h) ''X-Service-Group'' (hp_GroupName p))"

section \<open>The servers\<close>

datatype ProxyEndpoint = HttpProxy HttpProxyServer | GrpcProxy GRPCProxyServer

definition GetProxyEndpoint ::
  "(string \<Rightarrow> string go_result) \<Rightarrow> (string \<Rightarrow> string) \<Rightarrow> int \<Rightarrow> (nat \<Rightarrow> dial) \<Rightarrow> ProxyConfig \<Rightarrow> ProxyEndpoint go_result" where
  "GetProxyEndpoint urlParse env now dials cfg =
     (if mp_Type (pcfg_Proxy cfg) = HTTPEndpoint then map_sum id HttpProxy (NewHttpProxyServer urlParse env cfg)
      else if mp_Type (pcfg_Proxy cfg) = GRPCEndpoint then map_sum id GrpcProxy (NewGRPCProxyServer now dials cfg)
      else Inl (Errorf (''invalid proxy type: '' @ mp_Type (pcfg_Proxy cfg))))"

text \<open>
  \<open>Run\<close> of both servers: an error group. Its goroutines end in some order, each with an error or nil; the
  first error is the result and cancels the context. A goroutine that was waiting for a signal ends with the
  signal, or with the cancellation.
\<close>

fun errgroup_Wait :: "go_error option list \<Rightarrow> go_error option" where
  "errgroup_Wait [] = None"
| "errgroup_Wait (None # rs) = errgroup_Wait rs"
| "errgroup_Wait (Some e # rs) = Some e"

definition signal_goroutine :: "string option \<Rightarrow> go_error option" where
  "signal_goroutine sig =
     (case sig of Some s \<Rightarrow> Some (Errorf (''received signal '' @ s)) | None \<Rightarrow> Some Canceled)"

definition Server_Run :: "go_error option list \<Rightarrow> string option \<Rightarrow> go_error option list \<Rightarrow> go_error option" where
  "Server_Run endedBefore sig endedAfter = errgroup_Wait (endedBefore @ signal_goroutine sig # endedAfter)"

section \<open>Lemmas\<close>

lemma Header_Get_Add:
  "Header_Get (Header_Add h k v) k' =
     (if k' = k then (case h k of Some (u # _) \<Rightarrow> u | _ \<Rightarrow> v) else Header_Get h k')"
  by (auto simp: Header_Get_def Header_Add_def split: option.splits list.splits)

end
