(* ===== verification/Kube.thy ===== *)
theory Kube
  imports Utils
begin

text \<open>
  The Kubernetes objects the control plane reads and writes, with the fields its code uses: object metadata,
  pods with their containers and volumes, config maps, nodes, deployments, and the custom resources of
  \<open>pkg/apis/apps/v1alpha1\<close>. Fields of the platform's own types that the code only passes on are one opaque
  value. Also the remaining names of \<open>pkg/constants\<close>.
\<close>

section \<open>Names\<close>

definition ServerDeployNameLabel :: string where
  "ServerDeployNameLabel = ''server.edge-qos.edgewize.io/name''"

definition ServerDeployNamespaceLabel :: string where
  "ServerDeployNamespaceLabel = ''server.edge-qos.edgewize.io/namespace''"

definition ProxyServiceGroupLabel :: string where
  "ProxyServiceGroupLabel = ''client.edge-qos.edgewize.io/servicegroup''"

definition EdgeQosProxyConfigName :: string where
  "EdgeQosProxyConfigName = ''edge-qos-proxy.yaml''"

definition EdgeQosBrokerConfigName :: string where
  "EdgeQosBrokerConfigName = ''edge-qos-broker.yaml''"

definition DefaultBrokerVolumeName :: string where
  "DefaultBrokerVolumeName = ''broker-config''"

definition DefaultProxyVolumeName :: string where
  "DefaultProxyVolumeName = ''proxy-config''"

definition DefaultUserID :: string where
  "DefaultUserID = ''65532''"

definition WebhookConfigName :: string where
  "WebhookConfigName = ''edge-qos-injector-webhook''"

definition WebhookBrokerInjectLabel :: string where
  "WebhookBrokerInjectLabel = ''broker.edge-qos.edgewize.io/injection''"

definition WebhookProxyInjectLabel :: string where
  "WebhookProxyInjectLabel = ''proxy.edge-qos.edgewize.io/injection''"

definition WebhookInjectEnable :: string where
  "WebhookInjectEnable = ''enabled''"

definition LabelIMTemplate :: string where
  "LabelIMTemplate = ''apps.edgewize.io/imtemplate''"

definition LabelIMTemplateVersion :: string where
  "LabelIMTemplateVersion = ''apps.edgewize.io/imtemplateversion''"

definition LabelIMDeployment :: string where
  "LabelIMDeployment = ''apps.edgewize.io/imdeployment''"

definition LabelNodeGroup :: string where
  "LabelNodeGroup = ''apps.edgewize.io/nodegroup''"

definition LabelWorkload :: string where
  "LabelWorkload = ''apps.edgewize.io/workload''"

definition LabelNode :: string where
  "LabelNode = ''apps.edgewize.io/node''"

definition LabelCreator :: string where
  "LabelCreator = ''apps.edgewize.io/creator''"

definition DefaultCreator :: string where
  "DefaultCreator = ''edgewize''"

definition ProxyConfigCM :: string where
  "ProxyConfigCM = ''edge-qos-proxy''"

definition BrokerConfigCM :: string where
  "BrokerConfigCM = ''edge-qos-broker''"

definition IMServerDeployNameLabel :: string where
  "IMServerDeployNameLabel = ''server.edge-qos.edgewize.io/name''"

definition IMProxyServiceGroupLabel :: string where
  "IMProxyServiceGroupLabel = ''client.edge-qos.edgewize.io/servicegroup''"

definition IMServiceGroupClientAssignedPrefix :: string where
  "IMServiceGroupClientAssignedPrefix = ''client.servicegroup.edgewize.io/''"

definition IMDFinalizer :: string where
  "IMDFinalizer = ''imdeployment.finalizer.apps.edgewize.io''"

definition IMTFinalizer :: string where
  "IMTFinalizer = ''imTemplate.finalizer.apps.edgewize.io''"

definition IMSFinalizer :: string where
  "IMSFinalizer = ''imService.finalizer.apps.edgewize.io''"

lemmas label_defs =
  ServerDeployNameLabel_def ServerDeployNamespaceLabel_def ProxyServiceGroupLabel_def
  EdgeQosProxyConfigName_def EdgeQosBrokerConfigName_def DefaultBrokerVolumeName_def
  DefaultProxyVolumeName_def DefaultUserID_def WebhookConfigName_def WebhookBrokerInjectLabel_def
  WebhookProxyInjectLabel_def WebhookInjectEnable_def LabelIMTemplate_def LabelIMTemplateVersion_def
  LabelIMDeployment_def LabelNodeGroup_def LabelWorkload_def LabelNode_def IMServerDeployNameLabel_def
  LabelCreator_def DefaultCreator_def ProxyConfigCM_def BrokerConfigCM_def
  IMProxyServiceGroupLabel_def IMServiceGroupClientAssignedPrefix_def IMDFinalizer_def IMTFinalizer_def IMSFinalizer_def

section \<open>Objects\<close>

record OwnerReference =
  or_APIVersion :: string
  or_Kind :: string
  or_Name :: string
  or_UID :: string
  or_Controller :: "bool option"

record EnvVar =
  ev_Name :: string
  ev_Value :: string

record Container =
  ct_Name :: string
  ct_Command :: "string list"
  ct_Args :: "string list"
  ct_Env :: "EnvVar list"
  ct_Ports :: "ContainerPort list"
  ct_rest :: string

record Volume =
  vol_Name :: string
  vol_ConfigMap :: "string option"
  vol_rest :: string

text \<open>A nil map of labels reads like an empty one; a nil map of annotations is distinguished.\<close>

record Pod =
  pod_Name :: string
  pod_GenerateName :: string
  pod_Namespace :: string
  pod_Labels :: labels
  pod_Annotations :: "labels option"
  pod_OwnerReferences :: "OwnerReference list"
  pod_InitContainers :: "Container list"
  pod_Containers :: "Container list"
  pod_Volumes :: "Volume list"

record ConfigMap =
  cm_Name :: string
  cm_Namespace :: string
  cm_OwnerReferences :: "OwnerReference list"
  cm_Data :: "string \<rightharpoonup> string"

record Node =
  nd_Name :: string
  nd_Labels :: labels
  nd_Addresses :: "(string \<times> string) list"   \<comment> \<open>type and address\<close>

record Toleration =
  tol_Key :: string
  tol_Operator :: string
  tol_Value :: string
  tol_Effect :: string

text \<open>
  The pod template of a deployment. Labels and node selector may be nil; \<open>pt_rest\<close> is whatever else the
  template holds.
\<close>

record PodTemplate =
  pt_Labels :: "labels option"
  pt_NodeSelector :: labels
  pt_Tolerations :: "Toleration list"
  pt_rest :: string

record K8sDeployment =
  dp_Name :: string
  dp_Namespace :: string
  dp_UID :: string
  dp_Labels :: labels
  dp_Replicas :: "int32 option"
  dp_Template :: PodTemplate
  dp_Strategy :: string
  dp_MatchLabels :: labels

definition dp_NodeSelector :: "K8sDeployment \<Rightarrow> labels" where
  "dp_NodeSelector d = pt_NodeSelector (dp_Template d)"

section \<open>Custom resources\<close>

record EdgeQosBrokerConfig =
  eb_Broker :: MeshServer
  eb_Schedule :: Schedule
  eb_Queue :: QueueConfig
  eb_ServiceGroups :: "ServiceGroup list"
  eb_PromMetrics :: PromMetrics
  eb_BaseOptions :: BaseConfig

record EdgeQosProxyConfig =
  ep_Proxy :: MeshServer
  ep_ServiceGroup :: ServiceGroup
  ep_BaseOptions :: BaseConfig

record ServiceGroupItem =
  sgi_Name :: string
  sgi_Client :: string
  sgi_IsUsed :: bool

record InferModelService =
  ims_Name :: string
  ims_Namespace :: string
  ims_Labels :: labels
  ims_Annotations :: labels
  ims_Finalizers :: "string list"
  ims_Deleting :: bool
  ims_OwnerReferences :: "OwnerReference list"
  ims_BrokerConfig :: EdgeQosBrokerConfig
  ims_ProxyConfig :: EdgeQosProxyConfig
  ims_HostPort :: int32
  ims_Status :: "(string \<rightharpoonup> ServiceGroupItem) option"   \<comment> \<open>\<open>None\<close> is a nil map\<close>

record ModelNodeSelector =
  mns_Project :: string
  mns_NodeGroup :: string
  mns_NodeName :: string
  mns_HostPort :: int32
  mns_ResourceRequest :: "string \<rightharpoonup> int"

record ModelDeploymentSpec =
  mds_Replicas :: "int32 option"
  mds_Template :: PodTemplate
  mds_Strategy :: string

record InferModelDeployment =
  imd_APIVersion :: string
  imd_Kind :: string
  imd_Name :: string
  imd_Namespace :: string
  imd_UID :: string
  imd_Labels :: labels
  imd_Finalizers :: "string list"
  imd_Deleting :: bool
  imd_IMTemplateName :: string
  imd_Version :: string
  imd_DeploymentSpec :: ModelDeploymentSpec
  imd_NodeSelectors :: "ModelNodeSelector list"

record InferModelTemplate =
  imt_Name :: string
  imt_Labels :: labels
  imt_Finalizers :: "string list"
  imt_Deleting :: bool
  imt_ServiceGroup :: "(string \<rightharpoonup> int) option"

record InferModelTemplateVersion =
  imv_Name :: string
  imv_Labels :: labels
  imv_Version :: string
  imv_ServiceGroup :: "(string \<rightharpoonup> int) option"
  imv_rest :: string

section \<open>The typed client\<close>

text \<open>
  \<open>controller-runtime\<close>'s client for one kind of object, over a cluster state of any type: reading by namespace
  and name, listing by a label selector in a namespace (the empty one means all), and the writes. \<open>cl_Patch\<close>
  takes the object before and after the change and returns what the server answers.
\<close>

record ('s, 'o) typed_client =
  cl_Get :: "'s \<Rightarrow> string \<Rightarrow> string \<Rightarrow> 'o go_result"
  cl_List :: "'s \<Rightarrow> (string \<times> string) list \<Rightarrow> string \<Rightarrow> 'o list go_result"
  cl_Create :: "'s \<Rightarrow> 'o \<Rightarrow> go_error option \<times> 's"
  cl_Update :: "'s \<Rightarrow> 'o \<Rightarrow> go_error option \<times> 's"
  cl_UpdateStatus :: "'s \<Rightarrow> 'o \<Rightarrow> go_error option \<times> 's"
  cl_Patch :: "'s \<Rightarrow> 'o \<Rightarrow> 'o \<Rightarrow> 'o go_result \<times> 's"
  cl_Delete :: "'s \<Rightarrow> 'o \<Rightarrow> go_error option \<times> 's"

definition selects :: "(string \<times> string) list \<Rightarrow> labels \<Rightarrow> bool" where
  "selects sel ls = list_all (\<lambda>(k, v). ls k = Some v) sel"

definition IgnoreNotFound :: "go_error \<Rightarrow> go_error option" where
  "IgnoreNotFound err = (if IsNotFound err then None else Some err)"


text \<open>
  What the controllers rely on, without concurrent writers: an object is read under its own namespace and
  name; a patch and a status update are read back, except that an object which is being deleted and has
  no finalizer left is gone (\<open>gone\<close>); neither changes what is read of other kinds (\<open>others\<close>).
\<close>

definition client_ok ::
  "('s, 'o) typed_client \<Rightarrow> ('o \<Rightarrow> string) \<Rightarrow> ('o \<Rightarrow> string) \<Rightarrow> ('o \<Rightarrow> bool) \<Rightarrow> ('s \<Rightarrow> 'r) \<Rightarrow> bool" where
  "client_ok C nsOf nameOf gone others \<longleftrightarrow>
     (\<forall>s ns n x. cl_Get C s ns n = Inr x \<longrightarrow> nsOf x = ns \<and> nameOf x = n) \<and>
     (\<forall>s old new x s'. cl_Patch C s old new = (Inr x, s') \<longrightarrow> x = new \<and> others s' = others s \<and>
        (if gone new then \<exists>m. cl_Get C s' (nsOf new) (nameOf new) = Inl (NotFound m)
         else cl_Get C s' (nsOf new) (nameOf new) = Inr new)) \<and>
     (\<forall>s x s'. cl_UpdateStatus C s x = (None, s') \<longrightarrow>
        cl_Get C s' (nsOf x) (nameOf x) = Inr x \<and> others s' = others s)"

lemma client_ok_Get:
  "client_ok C nsOf nameOf gone others \<Longrightarrow> cl_Get C s ns n = Inr x \<Longrightarrow> nsOf x = ns \<and> nameOf x = n"
  unfolding client_ok_def by blast

lemma client_ok_Patch:
  assumes "client_ok C nsOf nameOf gone others" and "cl_Patch C s old new = (Inr x, s')"
  shows "x = new" and "others s' = others s" and "\<not> gone new \<Longrightarrow> cl_Get C s' (nsOf new) (nameOf new) = Inr new"
    and "gone new \<Longrightarrow> \<exists>m. cl_Get C s' (nsOf new) (nameOf new) = Inl (NotFound m)"
  using assms unfolding client_ok_def by (blast, blast, metis, metis)

lemma client_ok_UpdateStatus:
  assumes "client_ok C nsOf nameOf gone others" and "cl_UpdateStatus C s x = (None, s')"
  shows "cl_Get C s' (nsOf x) (nameOf x) = Inr x" and "others s' = others s"
  using assms unfolding client_ok_def by blast+

text \<open>
  Creation, without concurrent writers: only an object that is not there is created, it is read back, and
  no other object changes; a refused creation changes nothing, and it is refused as already existing only
  where there is an object.
\<close>

definition create_ok :: "('s, 'o) typed_client \<Rightarrow> ('o \<Rightarrow> string) \<Rightarrow> ('o \<Rightarrow> string) \<Rightarrow> ('s \<Rightarrow> 'r) \<Rightarrow> bool" where
  "create_ok C nsOf nameOf others \<longleftrightarrow>
     (\<forall>s x s'. cl_Create C s x = (None, s') \<longrightarrow>
        (\<forall>y. cl_Get C s (nsOf x) (nameOf x) \<noteq> Inr y) \<and> cl_Get C s' (nsOf x) (nameOf x) = Inr x) \<and>
     (\<forall>s x e s'. cl_Create C s x = (Some e, s') \<longrightarrow> s' = s \<and>
        (IsAlreadyExists e \<longrightarrow> (\<exists>y. cl_Get C s (nsOf x) (nameOf x) = Inr y))) \<and>
     (\<forall>s x r s'. cl_Create C s x = (r, s') \<longrightarrow> others s' = others s \<and>
        (\<forall>ns n. (ns, n) \<noteq> (nsOf x, nameOf x) \<longrightarrow> cl_Get C s' ns n = cl_Get C s ns n))"

lemma create_okD:
  assumes "create_ok C nsOf nameOf others"
  shows "cl_Create C s x = (None, s') \<Longrightarrow> cl_Get C s' (nsOf x) (nameOf x) = Inr x"
    and "cl_Create C s x = (Some e, s') \<Longrightarrow> s' = s"
    and "cl_Create C s x = (Some e, s') \<Longrightarrow> IsAlreadyExists e \<Longrightarrow> \<exists>y. cl_Get C s (nsOf x) (nameOf x) = Inr y"
    and "cl_Create C s x = (r, s') \<Longrightarrow> others s' = others s"
    and "cl_Create C s x = (r, s') \<Longrightarrow> (ns, n) \<noteq> (nsOf x, nameOf x) \<Longrightarrow> cl_Get C s' ns n = cl_Get C s ns n"
    and "cl_Create C s x = (None, s') \<Longrightarrow> cl_Get C s (nsOf x) (nameOf x) \<noteq> Inr y"
  using assms unfolding create_ok_def by blast+

lemma create_ok_keeps:
  assumes "create_ok C nsOf nameOf others" and "cl_Create C s x = (r, s')" and "cl_Get C s ns n = Inr y"
  shows "cl_Get C s' ns n = Inr y"
proof (cases "(ns, n) = (nsOf x, nameOf x)")
  case True
  with assms(3) create_okD(6) [OF assms(1)] assms(2) obtain e where "r = Some e" by (cases r) auto
  with assms create_okD(2) [OF assms(1)] show ?thesis by auto
next
  case False
  then show ?thesis using create_okD(5) [OF assms(1,2)] assms(3) by simp
qed

text \<open>Creating a list of objects one after the other, where an existing object is not an error.\<close>

fun create_all :: "('s, 'o) typed_client \<Rightarrow> 'o list \<Rightarrow> 's \<Rightarrow> go_error option \<times> 's" where
  "create_all C [] s = (None, s)"
| "create_all C (x # xs) s =
     (case cl_Create C s x of
        (None, s') \<Rightarrow> create_all C xs s'
      | (Some err, s') \<Rightarrow> if IsAlreadyExists err then create_all C xs s' else (Some err, s'))"

lemma create_all_Cons:
  assumes "create_all C (x # xs) s = (r, s')"
  obtains e s1 where "cl_Create C s x = (e, s1)" "e = None \<or> IsAlreadyExists (the e)" "create_all C xs s1 = (r, s')"
  | e s1 where "cl_Create C s x = (Some e, s1)" "\<not> IsAlreadyExists e" "r = Some e" "s' = s1"
  using assms by (auto split: prod.splits option.splits if_splits)

lemma create_all_frame:
  assumes ok: "create_ok C nsOf nameOf others" and "create_all C xs s = (r, s')"
  shows "others s' = others s \<and> (\<forall>ns n y. cl_Get C s ns n = Inr y \<longrightarrow> cl_Get C s' ns n = Inr y)"
  using assms(2)
proof (induction xs arbitrary: s)
  case (Cons x xs)
  from Cons.prems show ?case
  proof (cases rule: create_all_Cons)
    case (1 e s1)
    then show ?thesis using Cons.IH create_okD(4) [OF ok] create_ok_keeps [OF ok] by metis
  next
    case (2 e s1)
    then show ?thesis using create_okD(4) [OF ok] create_ok_keeps [OF ok] by metis
  qed
qed simp

text \<open>Each object is there afterwards: as it was before, or as an object of the list with its namespace and name.\<close>

lemma create_all_done:
  assumes ok: "create_ok C nsOf nameOf others" and "create_all C xs s = (None, s')" and "x \<in> set xs"
  shows "\<exists>y. cl_Get C s' (nsOf x) (nameOf x) = Inr y \<and> (cl_Get C s (nsOf x) (nameOf x) = Inr y \<or>
      y \<in> set xs \<and> nsOf y = nsOf x \<and> nameOf y = nameOf x)"
  using assms(2,3)
proof (induction xs arbitrary: s)
  case (Cons a xs)
  from Cons.prems(1) obtain e s1 where c: "cl_Create C s a = (e, s1)" "e = None \<or> IsAlreadyExists (the e)"
    and rest: "create_all C xs s1 = (None, s')" by (cases rule: create_all_Cons) auto
  have head: "\<exists>y. cl_Get C s1 (nsOf a) (nameOf a) = Inr y \<and> (cl_Get C s (nsOf a) (nameOf a) = Inr y \<or> y = a)"
    using c create_okD(1-3) [OF ok] by (cases e) (auto, metis)
  show ?case
  proof (cases "nsOf x = nsOf a \<and> nameOf x = nameOf a")
    case True
    then show ?thesis using head create_all_frame [OF ok rest] by (metis list.set_intros(1))
  next
    case False
    then have "x \<in> set xs" "cl_Get C s1 (nsOf x) (nameOf x) = cl_Get C s (nsOf x) (nameOf x)"
      using Cons.prems(2) create_okD(5) [OF ok c(1)] by auto
    with Cons.IH [OF rest] show ?thesis by (metis list.set_intros(2))
  qed
qed simp

subsection \<open>A store in memory\<close>

text \<open>A client over the list of the objects of its kind, which has the laws.\<close>

definition same_key :: "('o \<Rightarrow> string) \<Rightarrow> ('o \<Rightarrow> string) \<Rightarrow> 'o \<Rightarrow> 'o \<Rightarrow> bool" where
  "same_key nsOf nameOf x y \<longleftrightarrow> nsOf x = nsOf y \<and> nameOf x = nameOf y"

definition store_put :: "('o \<Rightarrow> string) \<Rightarrow> ('o \<Rightarrow> string) \<Rightarrow> 'o \<Rightarrow> 'o list \<Rightarrow> 'o list" where
  "store_put nsOf nameOf x s = map (\<lambda>y. if same_key nsOf nameOf y x then x else y) s"

definition store_client ::
  "('o \<Rightarrow> string) \<Rightarrow> ('o \<Rightarrow> string) \<Rightarrow> ('o \<Rightarrow> labels) \<Rightarrow> ('o \<Rightarrow> bool) \<Rightarrow> ('o list, 'o) typed_client" where
  "store_client nsOf nameOf labelsOf gone =
     \<lparr>cl_Get = (\<lambda>s ns n. case find (\<lambda>x. nsOf x = ns \<and> nameOf x = n) s of Some x \<Rightarrow> Inr x | None \<Rightarrow> Inl (NotFound n)),
      cl_List = (\<lambda>s sel ns. Inr (filter (\<lambda>x. selects sel (labelsOf x) \<and> (ns = [] \<or> nsOf x = ns)) s)),
      cl_Create = (\<lambda>s x. if list_ex (\<lambda>y. same_key nsOf nameOf y x) s then (Some (AlreadyExists (nameOf x)), s)
                        else (None, s @ [x])),
      cl_Update = (\<lambda>s x. if list_ex (\<lambda>y. same_key nsOf nameOf y x) s then (None, store_put nsOf nameOf x s)
                        else (Some (NotFound (nameOf x)), s)),
      cl_UpdateStatus = (\<lambda>s x. if list_ex (\<lambda>y. same_key nsOf nameOf y x) s then (None, store_put nsOf nameOf x s)
                              else (Some (NotFound (nameOf x)), s)),
      cl_Patch = (\<lambda>s old new. if list_ex (\<lambda>y. same_key nsOf nameOf y new) s
         then (Inr new, if gone new then filter (\<lambda>y. \<not> same_key nsOf nameOf y new) s else store_put nsOf nameOf new s)
         else (Inl (NotFound (nameOf new)), s)),
      cl_Delete = (\<lambda>s x. if list_ex (\<lambda>y. same_key nsOf nameOf y x) s
         then (None, filter (\<lambda>y. \<not> same_key nsOf nameOf y x) s) else (Some (NotFound (nameOf x)), s))\<rparr>"

lemma find_store_put:
  "list_ex (\<lambda>y. same_key nsOf nameOf y x) s \<Longrightarrow>
   find (\<lambda>y. nsOf y = nsOf x \<and> nameOf y = nameOf x) (store_put nsOf nameOf x s) = Some x"
  by (induction s) (auto simp: store_put_def same_key_def)

lemma find_removed:
  "find (\<lambda>y. nsOf y = nsOf x \<and> nameOf y = nameOf x) (filter (\<lambda>y. \<not> same_key nsOf nameOf y x) s) = None"
  by (auto simp: find_None_iff same_key_def)

lemma store_client_ok: "client_ok (store_client nsOf nameOf labelsOf gone) nsOf nameOf gone (\<lambda>s. r)"
  by (auto simp: client_ok_def store_client_def find_store_put find_removed dest: find_Some_iff [THEN iffD1]
      split: option.splits if_splits)

text \<open>The client of one kind in a cluster of several: \<open>get\<close> and \<open>put\<close> access its part of the state.\<close>

definition via :: "('s \<Rightarrow> 't) \<Rightarrow> ('t \<Rightarrow> 's \<Rightarrow> 's) \<Rightarrow> ('t, 'o) typed_client \<Rightarrow> ('s, 'o) typed_client" where
  "via get put C =
     \<lparr>cl_Get = (\<lambda>s. cl_Get C (get s)),
      cl_List = (\<lambda>s. cl_List C (get s)),
      cl_Create = (\<lambda>s x. case cl_Create C (get s) x of (e, t) \<Rightarrow> (e, put t s)),
      cl_Update = (\<lambda>s x. case cl_Update C (get s) x of (e, t) \<Rightarrow> (e, put t s)),
      cl_UpdateStatus = (\<lambda>s x. case cl_UpdateStatus C (get s) x of (e, t) \<Rightarrow> (e, put t s)),
      cl_Patch = (\<lambda>s old new. case cl_Patch C (get s) old new of (r, t) \<Rightarrow> (r, put t s)),
      cl_Delete = (\<lambda>s x. case cl_Delete C (get s) x of (e, t) \<Rightarrow> (e, put t s))\<rparr>"

lemma via_ok:
  assumes "client_ok C nsOf nameOf gone (\<lambda>_. ())" and "\<And>t s. get (put t s) = t"
    and "\<And>t s. others (put t s) = others s"
  shows "client_ok (via get put C) nsOf nameOf gone others"
  unfolding client_ok_def
proof (intro conjI allI impI, goal_cases)
  case (1 s ns n x)
  then show ?case using client_ok_Get [OF assms(1)] by (simp add: via_def)
next
  case (2 s ns n x)
  then show ?case using client_ok_Get [OF assms(1)] by (simp add: via_def)
next
  case (3 s old new x s')
  then obtain t where "cl_Patch C (get s) old new = (Inr x, t)" by (auto simp: via_def split: prod.splits)
  then show ?case using client_ok_Patch(1) [OF assms(1)] by blast
next
  case (4 s old new x s')
  then show ?case by (auto simp: via_def assms(3) split: prod.splits)
next
  case (5 s old new x s')
  then obtain t where "cl_Patch C (get s) old new = (Inr x, t)" "s' = put t s" by (auto simp: via_def split: prod.splits)
  then show ?case using client_ok_Patch(3,4) [OF assms(1)] by (simp add: via_def assms(2))
next
  case (6 s x s')
  then obtain t where "cl_UpdateStatus C (get s) x = (None, t)" "s' = put t s" by (auto simp: via_def split: prod.splits)
  then show ?case using client_ok_UpdateStatus(1) [OF assms(1)] by (simp add: via_def assms(2))
next
  case (7 s x s')
  then show ?case by (auto simp: via_def assms(3) split: prod.splits)
qed

lemma store_create_ok: "create_ok (store_client nsOf nameOf labelsOf gone) nsOf nameOf (\<lambda>s. r)"
proof -
  have ex: "list_ex (\<lambda>y. same_key nsOf nameOf y x) s \<longleftrightarrow> find (\<lambda>y. nsOf y = nsOf x \<and> nameOf y = nameOf x) s \<noteq> None"
    for x s by (auto simp: find_None_iff list_ex_iff same_key_def)
  have app: "find P (s @ [x]) = (case find P s of None \<Rightarrow> if P x then Some x else None | Some y \<Rightarrow> Some y)" for P s x
    by (induction s) auto
  show ?thesis
    unfolding create_ok_def by (auto simp: store_client_def ex app split: option.splits if_splits)
qed

lemma via_create_ok:
  assumes "create_ok C nsOf nameOf (\<lambda>_. ())" and "\<And>t s. get (put t s) = t" and "\<And>s. put (get s) s = s"
    and "\<And>t s. others (put t s) = others s"
  shows "create_ok (via get put C) nsOf nameOf others"
proof -
  have c: "\<exists>t. cl_Create C (get s) x = (r, t) \<and> s' = put t s" if "cl_Create (via get put C) s x = (r, s')" for s x r s'
    using that by (auto simp: via_def split: prod.splits)
  have g: "cl_Get (via get put C) s = cl_Get C (get s)" for s by (simp add: via_def)
  show ?thesis
    unfolding create_ok_def g
    by (auto dest!: c simp: assms(2-4) dest: create_okD(1-3,5,6) [OF assms(1)])
qed

section \<open>Objects with a finalizer\<close>

text \<open>
  The three controllers treat finalizers alike. An object that is not being deleted gets the controller's
  finalizer before any work; for one that is being deleted the controller cleans up and gives its finalizer
  back. \<open>work\<close> is the controller's reconciliation, \<open>cleanup\<close> the effect of its clean-up.
\<close>

locale finalized =
  fixes C :: "('s, 'o) typed_client" and nsOf nameOf :: "'o \<Rightarrow> string" and deleting :: "'o \<Rightarrow> bool"
    and fins :: "'o \<Rightarrow> string list" and set_fins :: "string list \<Rightarrow> 'o \<Rightarrow> 'o" and fin :: string
    and work :: "'o \<Rightarrow> 's \<Rightarrow> go_error option \<times> 's" and cleanup :: "'o \<Rightarrow> 's \<Rightarrow> 's"
    and reconcile :: "string \<Rightarrow> string \<Rightarrow> 's \<Rightarrow> go_error option \<times> 's"
  assumes fins_set: "fins (set_fins fs x) = fs"
    and deleting_set: "deleting (set_fins fs x) = deleting x"
    and key_set: "nsOf (set_fins fs x) = nsOf x" "nameOf (set_fins fs x) = nameOf x"
    and absent: "cl_Get C s ns n = Inl err \<Longrightarrow> reconcile ns n s = (IgnoreNotFound err, s)"
    and present: "cl_Get C s ns n = Inr x \<Longrightarrow> \<not> deleting x \<Longrightarrow> fin \<in> set (fins x) \<Longrightarrow> reconcile ns n s = work x s"
    and adopt: "cl_Get C s ns n = Inr x \<Longrightarrow> \<not> deleting x \<Longrightarrow> fin \<notin> set (fins x) \<Longrightarrow>
        cl_Patch C s x (set_fins (fins x @ [fin]) x) = (r, s1) \<Longrightarrow>
        reconcile ns n s = (case r of Inl err \<Rightarrow> (Some err, s1) | Inr y \<Rightarrow> work y s1)"
    and released: "cl_Get C s ns n = Inr x \<Longrightarrow> deleting x \<Longrightarrow> fin \<notin> set (fins x) \<Longrightarrow> reconcile ns n s = (None, s)"
    and release: "cl_Get C s ns n = Inr x \<Longrightarrow> deleting x \<Longrightarrow> fin \<in> set (fins x) \<Longrightarrow>
        cl_Patch C (cleanup x s) x (set_fins (RemoveString (fins x) fin) x) = (r, s1) \<Longrightarrow>
        reconcile ns n s = (case r of Inl err \<Rightarrow> (Some err, s1) | Inr y \<Rightarrow> (None, s1))"
begin

text \<open>A deleted object loses this finalizer and no other, and from then on the controller leaves it alone.\<close>

lemma release_once:
  assumes ok: "client_ok C nsOf nameOf (\<lambda>x. deleting x \<and> fins x = []) others"
    and x: "cl_Get C s ns n = Inr x" "deleting x" "fin \<in> set (fins x)"
    and r: "reconcile ns n s = (None, s')"
  shows "(if filter (\<lambda>f. f \<noteq> fin) (fins x) = [] then \<exists>m. cl_Get C s' ns n = Inl (NotFound m)
          else \<exists>y. cl_Get C s' ns n = Inr y \<and> fins y = filter (\<lambda>f. f \<noteq> fin) (fins x)) \<and>
     reconcile ns n s' = (None, s')"
proof -
  let ?y = "set_fins (RemoveString (fins x) fin) x"
  have f: "RemoveString (fins x) fin = filter (\<lambda>f. f \<noteq> fin) (fins x)" by (rule RemoveString_filter)
  have key: "nsOf ?y = ns" "nameOf ?y = n" using client_ok_Get [OF ok x(1)] by (simp_all add: key_set)
  obtain z s1 where p: "cl_Patch C (cleanup x s) x ?y = (z, s1)" by (cases "cl_Patch C (cleanup x s) x ?y")
  from release [OF x p] r obtain z' where "z = Inr z'" "s1 = s'" by (cases z) auto
  note patch = client_ok_Patch [OF ok p [unfolded this], unfolded key]
  show ?thesis
  proof (cases "filter (\<lambda>f. f \<noteq> fin) (fins x) = []")
    case True
    then have "deleting ?y \<and> fins ?y = []" using x(2) by (simp add: fins_set deleting_set f)
    then obtain m where m: "cl_Get C s' ns n = Inl (NotFound m)" using patch(4) by blast
    then have "reconcile ns n s' = (None, s')" by (simp add: absent [OF m] IgnoreNotFound_def IsNotFound_def)
    with m True show ?thesis by auto
  next
    case False
    then have y: "cl_Get C s' ns n = Inr ?y" using patch(3) by (simp add: fins_set f)
    moreover have "fin \<notin> set (fins ?y)" by (simp add: fins_set f)
    ultimately have "reconcile ns n s' = (None, s')" using released [OF y] x(2) by (simp add: deleting_set)
    with y False show ?thesis by (simp add: fins_set f)
  qed
qed

text \<open>Work is done only on an object that holds the finalizer, and on what the server stores of it.\<close>

lemma work_adopted:
  assumes ok: "client_ok C nsOf nameOf (\<lambda>x. deleting x \<and> fins x = []) others"
    and x: "cl_Get C s ns n = Inr x" "\<not> deleting x" and r: "reconcile ns n s = (None, s')"
  obtains y s1 where "cl_Get C s1 ns n = Inr y" "\<not> deleting y" "fin \<in> set (fins y)" "work y s1 = (None, s')"
    "others s1 = others s" "y = x \<or> y = set_fins (fins x @ [fin]) x"
proof (cases "fin \<in> set (fins x)")
  case True
  then show ?thesis using that [of s x] x r present [OF x True] by simp
next
  case False
  let ?y = "set_fins (fins x @ [fin]) x"
  have key: "nsOf ?y = ns" "nameOf ?y = n" using client_ok_Get [OF ok x(1)] by (simp_all add: key_set)
  obtain z s1 where p: "cl_Patch C s x ?y = (z, s1)" by (cases "cl_Patch C s x ?y")
  from adopt [OF x False p] r obtain z' where z: "z = Inr z'" "work z' s1 = (None, s')" by (cases z) auto
  note patch = client_ok_Patch [OF ok p [unfolded z(1)], unfolded key]
  have "cl_Get C s1 ns n = Inr ?y" using patch(3) x(2) by (simp add: deleting_set)
  then show ?thesis using that [of s1 ?y] x(2) z(2) patch(1,2) by (simp add: deleting_set fins_set)
qed

end

text \<open>A service to evaluate the operations on.\<close>

definition sample_ims :: InferModelService where
  "sample_ims =
     \<lparr>ims_Name = ''yolo'', ims_Namespace = ''models'', ims_Labels = Map.empty, ims_Annotations = Map.empty,
      ims_Finalizers = [], ims_Deleting = False, ims_OwnerReferences = [],
      ims_BrokerConfig =
        \<lparr>eb_Broker = \<lparr>ms_Addr = '':15050'', ms_Type = ''http'', ms_HTTP = default_HTTPConfig,
           ms_GRPC = default_GRPCConfig, ms_WorkPoolSize = 5\<rparr>,
         eb_Schedule = \<lparr>sch_Method = ''RR'', sch_EnableFlowControl = False\<rparr>, eb_Queue = \<lparr>qc_Size = 10\<rparr>,
         eb_ServiceGroups = [\<lparr>sg_Name = ''gold'', sg_Reclaimable = False, sg_Weight = 2\<rparr>], eb_PromMetrics = \<lparr>pm_Addr = [], pm_ScrapeInterval = 0, pm_RemoteWriteURL = []\<rparr>,
         eb_BaseOptions = default_BaseConfig\<rparr>,
      ims_ProxyConfig =
        \<lparr>ep_Proxy = \<lparr>ms_Addr = '':15051'', ms_Type = ''http'', ms_HTTP = default_HTTPConfig,
           ms_GRPC = default_GRPCConfig, ms_WorkPoolSize = 5\<rparr>,
         ep_ServiceGroup = \<lparr>sg_Name = ''default'', sg_Reclaimable = False, sg_Weight = 0\<rparr>,
         ep_BaseOptions = default_BaseConfig\<rparr>,
      ims_HostPort = 8000, ims_Status = None\<rparr>"

end
