(* ===== verification/Webhook.thy ===== *)
theory Webhook
  imports Kube
begin

text \<open>
  \<open>internal/controller/webhook.go\<close>: the admission webhook that injects the proxy sidecar into client pods and
  the broker sidecar into model server pods. The Kubernetes API is a parameter, a record of the calls the
  webhook makes over a cluster state of any type; so are the YAML encoder and \<open>metav1.GetControllerOf\<close>. The
  decision whether to mutate, the generated config maps, the sidecar configuration and the JSON patch are
  modelled.

  The API server applies the patch. \<open>apply_patch\<close> says what RFC 6902 prescribes for the operations and paths
  the webhook produces, and is what the patch is proved against.
\<close>

section \<open>The Kubernetes API\<close>

record ('s) kube_api =
  api_getIMS :: "'s \<Rightarrow> string \<Rightarrow> string \<Rightarrow> InferModelService go_result"
  api_getDeployment :: "'s \<Rightarrow> string \<Rightarrow> string \<Rightarrow> K8sDeployment go_result"
  api_getNode :: "'s \<Rightarrow> string \<Rightarrow> Node go_result"
  api_getConfigMap :: "'s \<Rightarrow> string \<Rightarrow> string \<Rightarrow> ConfigMap go_result"
  api_createConfigMap :: "'s \<Rightarrow> string \<Rightarrow> ConfigMap \<Rightarrow> go_error option \<times> 's"

text \<open>
  What the webhook relies on, without concurrent writers: an object is returned under the names it was asked
  for, a created config map is found under its namespace and name, a refused creation changes nothing, and it
  is refused as already existing only where the config map is found.
\<close>

definition kube_ok :: "'s kube_api \<Rightarrow> bool" where
  "kube_ok K \<longleftrightarrow>
     (\<forall>s ns n d. api_getDeployment K s ns n = Inr d \<longrightarrow> dp_Namespace d = ns \<and> dp_Name d = n) \<and>
     (\<forall>s ns cm s'. api_createConfigMap K s ns cm = (None, s') \<longrightarrow>
        api_getConfigMap K s' ns (cm_Name cm) = Inr cm) \<and>
     (\<forall>s ns cm e s'. api_createConfigMap K s ns cm = (Some e, s') \<longrightarrow> s' = s \<and>
        (IsAlreadyExists e \<longrightarrow> (\<exists>c. api_getConfigMap K s ns (cm_Name cm) = Inr c)))"

section \<open>Sidecar configurations\<close>

record SidecarConfig =
  sc_InitContainers :: "Container list"
  sc_Containers :: "Container list"
  sc_Volumes :: "Volume list"

definition Clone :: "SidecarConfig \<Rightarrow> SidecarConfig" where
  "Clone sc = \<lparr>sc_InitContainers = foldl (\<lambda>acc c. acc @ [c]) [] (sc_InitContainers sc),
               sc_Containers = foldl (\<lambda>acc c. acc @ [c]) [] (sc_Containers sc),
               sc_Volumes = foldl (\<lambda>acc c. acc @ [c]) [] (sc_Volumes sc)\<rparr>"

definition AddProxyIptablesRule :: "SidecarConfig \<Rightarrow> string \<Rightarrow> int32 \<Rightarrow> SidecarConfig" where
  "AddProxyIptablesRule sc serverAddr serverPort =
     (case sc_InitContainers sc of
        [] \<Rightarrow> sc
      | c # _ \<Rightarrow>
          sc\<lparr>sc_InitContainers :=
              [c\<lparr>ct_Command := [''/bin/sh'', ''-c''],
                 ct_Args := [''iptables -t nat -A OUTPUT -p tcp -d '' @ serverAddr @ '' --dport '' @
                   show_int (sint serverPort) @ '' -m owner ! --uid-owner '' @ DefaultUserID @
                   '' -j DNAT --to-destination 127.0.0.1:'' @ DefaultProxyContainerPort]\<rparr>]\<rparr>)"

definition AddBrokerIptablesRule :: "SidecarConfig \<Rightarrow> int32 \<Rightarrow> SidecarConfig" where
  "AddBrokerIptablesRule sc serverContainerPort =
     (case sc_InitContainers sc of
        [] \<Rightarrow> sc
      | c # _ \<Rightarrow>
          sc\<lparr>sc_InitContainers :=
              [c\<lparr>ct_Command := [''/bin/sh'', ''-c''],
                 ct_Args := [''iptables -t nat -A PREROUTING -p tcp  --dport '' @
                   show_int (sint serverContainerPort) @ '' -j REDIRECT --to-port '' @
                   DefaultBrokerContainerPort @ '';'']\<rparr>]\<rparr>)"

definition target_env :: "int32 \<Rightarrow> string \<Rightarrow> EnvVar list" where
  "target_env targetPort targetAddr =
     [\<lparr>ev_Name = ''TARGET_PORT'', ev_Value = show_int (sint targetPort)\<rparr>] @
     (if targetAddr \<noteq> [] then [\<lparr>ev_Name = ''TARGET_ADDRESS'', ev_Value = targetAddr\<rparr>] else [])"

definition AddTargetToEnv :: "SidecarConfig \<Rightarrow> int32 \<Rightarrow> string \<Rightarrow> SidecarConfig" where
  "AddTargetToEnv sc targetPort targetAddr =
     sc\<lparr>sc_Containers := map (\<lambda>c. c\<lparr>ct_Env := ct_Env c @ target_env targetPort targetAddr\<rparr>) (sc_Containers sc)\<rparr>"

definition RenameVolumeRefCM :: "SidecarConfig \<Rightarrow> string \<Rightarrow> string \<Rightarrow> SidecarConfig" where
  "RenameVolumeRefCM sc cm volumeName =
     sc\<lparr>sc_Volumes := map (\<lambda>v. if vol_Name v = volumeName then v\<lparr>vol_ConfigMap := Some cm\<rparr> else v) (sc_Volumes sc)\<rparr>"

record WebhookServer =
  ws_ProxySidecar :: "SidecarConfig option"
  ws_BrokerSidecar :: "SidecarConfig option"
  ws_CurrentNamespace :: string

definition getProxySidecarConfig :: "SidecarConfig \<Rightarrow> string \<Rightarrow> string \<Rightarrow> int32 \<Rightarrow> SidecarConfig" where
  "getProxySidecarConfig template proxyCM serverAddr serverPort =
     (let sc = Clone template;
          sc = AddProxyIptablesRule sc serverAddr serverPort;
          sc = AddTargetToEnv sc serverPort serverAddr
      in RenameVolumeRefCM sc proxyCM DefaultProxyVolumeName)"

definition getBrokerSidecarConfig :: "SidecarConfig \<Rightarrow> string \<Rightarrow> int32 \<Rightarrow> SidecarConfig" where
  "getBrokerSidecarConfig template brokerCM serverContainerPort =
     (let sc = Clone template;
          sc = AddBrokerIptablesRule sc serverContainerPort;
          sc = AddTargetToEnv sc serverContainerPort []
      in RenameVolumeRefCM sc brokerCM DefaultBrokerVolumeName)"

section \<open>Where the model server runs\<close>

fun find_internal_ip :: "(string \<times> string) list \<Rightarrow> string option" where
  "find_internal_ip [] = None"
| "find_internal_ip ((t, address) # rest) = (if t = ''InternalIP'' then Some address else find_internal_ip rest)"

definition GetNodeAddress :: "'s kube_api \<Rightarrow> 's \<Rightarrow> string \<Rightarrow> string go_result" where
  "GetNodeAddress K s nodeName =
     (case api_getNode K s nodeName of
        Inl err \<Rightarrow> Inl err
      | Inr node \<Rightarrow>
          (case nd_Labels node ''kubeedge.io/internal-ip'' of
             Some address \<Rightarrow> Inr address
           | None \<Rightarrow>
               if length (nd_Addresses node) = 0
               then Inl (Errorf (''node ['' @ nodeName @ ''] addresses are empty''))
               else case find_internal_ip (nd_Addresses node) of
                      Some address \<Rightarrow> Inr address
                    | None \<Rightarrow> Inl (Errorf (''node ['' @ nodeName @ ''] internal ip not found''))))"

definition parseModelServerAddr :: "'s kube_api \<Rightarrow> 's \<Rightarrow> string \<Rightarrow> string \<Rightarrow> string go_result" where
  "parseModelServerAddr K s deployName namespace =
     (case api_getDeployment K s namespace deployName of
        Inl err \<Rightarrow> Inl err
      | Inr serverDeploy \<Rightarrow>
          if dp_NodeSelector serverDeploy = Map.empty
          then Inl (Errorf (''broker nodeSelector is empty in deploy ['' @ namespace @ ''/'' @ deployName @ '']''))
          else case dp_NodeSelector serverDeploy ''kubernetes.io/hostname'' of
                 None \<Rightarrow> Inl (Errorf (''broker node not specified in deploy ['' @ namespace @ ''/'' @ deployName @ '']''))
               | Some nodeName \<Rightarrow> GetNodeAddress K s nodeName)"

section \<open>The deployment of a pod\<close>

text \<open>The split of \<open>(.+)-\d{8,10}$\<close> at the last dash, for a name without line breaks.\<close>

definition cronJobName :: "string \<Rightarrow> string option" where
  "cronJobName n =
     (case LastIndexChar n CHR ''-'' of
        None \<Rightarrow> None
      | Some i \<Rightarrow>
          (let suffix = drop (Suc i) n
           in if 0 < i \<and> list_all is_digit suffix \<and> 8 \<le> length suffix \<and> length suffix \<le> 10
              then Some (take i n) else None))"

fun find_controller :: "OwnerReference list \<Rightarrow> OwnerReference option" where
  "find_controller [] = None"
| "find_controller (ref # refs) = (if or_Controller ref = Some True then Some ref else find_controller refs)"

record DeployMeta =
  dm_Name :: string
  dm_Namespace :: string
  dm_Kind :: string
  dm_APIVersion :: string

definition label_of :: "Pod \<Rightarrow> string \<Rightarrow> string" where
  "label_of pod k = (case pod_Labels pod k of None \<Rightarrow> [] | Some v \<Rightarrow> v)"

definition from_controller :: "Pod \<Rightarrow> OwnerReference \<Rightarrow> DeployMeta" where
  "from_controller pod ref =
     (let m = \<lparr>dm_Name = or_Name ref, dm_Namespace = pod_Namespace pod, dm_Kind = or_Kind ref, dm_APIVersion = or_APIVersion ref\<rparr>;
          hash = label_of pod ''pod-template-hash'';
          rhash = label_of pod ''rollouts-pod-template-hash'';
          dconf = label_of pod ''deploymentconfig''
      in if or_Kind ref = ''ReplicaSet'' \<and> hash \<noteq> [] \<and> HasSuffix (or_Name ref) hash
         then m\<lparr>dm_Name := TrimSuffix (or_Name ref) (''-'' @ hash), dm_Kind := ''Deployment''\<rparr>
         else if or_Kind ref = ''ReplicaSet'' \<and> rhash \<noteq> [] \<and> HasSuffix (or_Name ref) rhash
         then m\<lparr>dm_Name := TrimSuffix (or_Name ref) (''-'' @ rhash), dm_Kind := ''Rollout'', dm_APIVersion := ''v1alpha1''\<rparr>
         else if or_Kind ref = ''ReplicationController'' \<and> dconf \<noteq> []
         then m\<lparr>dm_Name := dconf, dm_Kind := ''DeploymentConfig''\<rparr>
         else if or_Kind ref = ''Job''
         then (case cronJobName (or_Name ref) of
                 None \<Rightarrow> m
               | Some n \<Rightarrow> m\<lparr>dm_Name := n, dm_Kind := ''CronJob'', dm_APIVersion := ''batch/v1''\<rparr>)
         else m)"

definition GetDeployMetaFromPod :: "Pod \<Rightarrow> DeployMeta" where
  "GetDeployMetaFromPod pod =
     (let base = \<lparr>dm_Name = pod_Name pod, dm_Namespace = pod_Namespace pod, dm_Kind = ''Pod'', dm_APIVersion = ''v1''\<rparr>;
          m = (if length (pod_GenerateName pod) > 0
               then (case find_controller (pod_OwnerReferences pod) of
                       None \<Rightarrow> base | Some ref \<Rightarrow> from_controller pod ref)
               else base)
      in if dm_Name m = [] then m\<lparr>dm_Name := pod_Name pod\<rparr> else m)"

section \<open>Config maps\<close>

text \<open>\<open>marshal\<close> is \<open>yaml.Marshal\<close>; the service group set on the local copy \<open>proxyConfig\<close> is not what is marshalled.\<close>

definition GenerateProxyCM ::
  "'s kube_api \<Rightarrow> (EdgeQosProxyConfig \<Rightarrow> string go_result) \<Rightarrow> (Pod \<Rightarrow> OwnerReference option) \<Rightarrow> Pod \<Rightarrow> 's
   \<Rightarrow> (string \<times> string \<times> int32) go_result \<times> 's" where
  "GenerateProxyCM K marshal controllerOf pod s =
     (let namespace = pod_Namespace pod;
          imsName = label_of pod ServerDeployNameLabel;
          imsNs = label_of pod ServerDeployNamespaceLabel
      in if imsName = [] then (Inl (Errorf (''server deploy name is missing in Pod ['' @ pod_Name pod @ ''] labels'')), s)
         else if imsNs = [] then (Inl (Errorf (''server deploy namespace is missing in Pod ['' @ pod_Name pod @ ''] labels'')), s)
         else case api_getIMS K s imsNs imsName of
           Inl err \<Rightarrow> (Inl err, s)
         | Inr inferModelService \<Rightarrow>
           (let appServiceGroup = (if label_of pod ProxyServiceGroupLabel = [] then DefaultServiceGroup
                                   else label_of pod ProxyServiceGroupLabel)
            in case parseModelServerAddr K s imsName imsNs of
                 Inl err \<Rightarrow> (Inl err, s)
               | Inr serverAddr \<Rightarrow>
                   (let serverPort = ims_HostPort inferModelService;
                        proxyConfig = (ims_ProxyConfig inferModelService)
                          \<lparr>ep_ServiceGroup := \<lparr>sg_Name = appServiceGroup, sg_Reclaimable = False, sg_Weight = 0\<rparr>\<rparr>;
                        proxyCM = imsName @ ''-proxy'';
                        result = (proxyCM, serverAddr, serverPort)
                    in case api_getConfigMap K s namespace proxyCM of
                         Inr _ \<Rightarrow> (Inr result, s)
                       | Inl err \<Rightarrow>
                           if \<not> IsNotFound err then (Inl err, s)
                           else case marshal (ims_ProxyConfig inferModelService) of
                             Inl err \<Rightarrow> (Inl err, s)
                           | Inr newContentBytes \<Rightarrow>
                             (case api_createConfigMap K s namespace
                                 \<lparr>cm_Name = proxyCM, cm_Namespace = namespace,
                                  cm_OwnerReferences = (case controllerOf pod of None \<Rightarrow> [] | Some r \<Rightarrow> [r]),
                                  cm_Data = [EdgeQosProxyConfigName \<mapsto> newContentBytes]\<rparr> of
                                (None, s') \<Rightarrow> (Inr result, s')
                              | (Some err, s') \<Rightarrow>
                                  if IsAlreadyExists err then (Inr result, s') else (Inl err, s')))))"

definition GenerateBrokerCM ::
  "'s kube_api \<Rightarrow> (EdgeQosBrokerConfig \<Rightarrow> string go_result) \<Rightarrow> Pod \<Rightarrow> 's
   \<Rightarrow> (string \<times> int32) go_result \<times> 's" where
  "GenerateBrokerCM K marshal pod s =
     (let deployMeta = GetDeployMetaFromPod pod
      in if dm_Name deployMeta = [] then (Inl (Errorf ''deployment name is empty''), s)
         else case api_getIMS K s (dm_Namespace deployMeta) (dm_Name deployMeta) of
           Inl err \<Rightarrow> (Inl err, s)
         | Inr inferModelService \<Rightarrow>
           (let containerPort = GetTargetContainerPort (map ct_Ports (pod_Containers pod)) (ims_HostPort inferModelService);
                brokerCM = dm_Name deployMeta @ ''-broker''
            in if containerPort = 0 then (Inl (Errorf (''container port is empty in pod ['' @ pod_Name pod @ '']'')), s)
               else case api_getConfigMap K s (dm_Namespace deployMeta) brokerCM of
                 Inr _ \<Rightarrow> (Inr (brokerCM, containerPort), s)
               | Inl err \<Rightarrow>
                   if \<not> IsNotFound err then (Inl err, s)
                   else case api_getDeployment K s (dm_Namespace deployMeta) (dm_Name deployMeta) of
                     Inl err \<Rightarrow> (Inl err, s)
                   | Inr k8sDeploy \<Rightarrow>
                     (case marshal (ims_BrokerConfig inferModelService) of
                        Inl err \<Rightarrow> (Inl err, s)
                      | Inr newContentBytes \<Rightarrow>
                          (case api_createConfigMap K s (dp_Namespace k8sDeploy)
                              \<lparr>cm_Name = brokerCM, cm_Namespace = dp_Namespace k8sDeploy,
                               cm_OwnerReferences = [\<lparr>or_APIVersion = ''apps/v1'', or_Kind = ''Deployment'',
                                 or_Name = dp_Name k8sDeploy, or_UID = dp_UID k8sDeploy, or_Controller = None\<rparr>],
                               cm_Data = [EdgeQosBrokerConfigName \<mapsto> newContentBytes]\<rparr> of
                             (None, s') \<Rightarrow> (Inr (brokerCM, containerPort), s')
                           | (Some err, s') \<Rightarrow>
                               if IsAlreadyExists err then (Inr (brokerCM, containerPort), s') else (Inl err, s')))))"

record codecs_pkg =
  cd_marshalProxy :: "EdgeQosProxyConfig \<Rightarrow> string go_result"
  cd_marshalBroker :: "EdgeQosBrokerConfig \<Rightarrow> string go_result"
  cd_controllerOf :: "Pod \<Rightarrow> OwnerReference option"

definition prepareSidecarConfiguration ::
  "'s kube_api \<Rightarrow> codecs_pkg \<Rightarrow> WebhookServer \<Rightarrow> Pod \<Rightarrow> 's \<Rightarrow> SidecarConfig go_result \<times> 's" where
  "prepareSidecarConfiguration K E whs pod s =
     (let proxyLabel = pod_Labels pod WebhookProxyInjectLabel;
          brokerLabel = pod_Labels pod WebhookBrokerInjectLabel
      in if proxyLabel \<noteq> None \<and> brokerLabel \<noteq> None
         then (Inl (Errorf ''app and model injection labels cannot exist at the same time''), s)
         else if proxyLabel = Some WebhookInjectEnable
         then (case ws_ProxySidecar whs of
                 None \<Rightarrow> (Inl (Errorf ''app sidecar configuration is empty''), s)
               | Some template \<Rightarrow>
                   (case GenerateProxyCM K (cd_marshalProxy E) (cd_controllerOf E) pod s of
                      (Inl err, s') \<Rightarrow> (Inl err, s')
                    | (Inr (proxyCM, serverAddr, serverPort), s') \<Rightarrow>
                        (Inr (getProxySidecarConfig template proxyCM serverAddr serverPort), s')))
         else if brokerLabel = Some WebhookInjectEnable
         then (case ws_BrokerSidecar whs of
                 None \<Rightarrow> (Inl (Errorf ''model server sidecar configuration is empty''), s)
               | Some template \<Rightarrow>
                   (case GenerateBrokerCM K (cd_marshalBroker E) pod s of
                      (Inl err, s') \<Rightarrow> (Inl err, s')
                    | (Inr (brokerCM, containerPort), s') \<Rightarrow>
                        (Inr (getBrokerSidecarConfig template brokerCM containerPort), s')))
         else (Inl (Errorf ''no sidecar config found according to injection labels''), s))"

section \<open>The patch\<close>

datatype patch_value =
    VContainer Container | VContainers "Container list" | VVolume Volume | VVolumes "Volume list"
  | VString string | VMap labels

record patchOperation =
  po_Op :: string
  po_Path :: string
  po_Value :: patch_value

fun add_loop ::
  "('a \<Rightarrow> patch_value) \<Rightarrow> ('a list \<Rightarrow> patch_value) \<Rightarrow> string \<Rightarrow> bool \<Rightarrow> 'a list \<Rightarrow> patchOperation list" where
  "add_loop one many basePath first [] = []"
| "add_loop one many basePath first (add # added) =
     (if first then \<lparr>po_Op = ''add'', po_Path = basePath, po_Value = many [add]\<rparr>
      else \<lparr>po_Op = ''add'', po_Path = basePath @ ''/-'', po_Value = one add\<rparr>)
     # add_loop one many basePath False added"

definition addContainer :: "Container list \<Rightarrow> Container list \<Rightarrow> string \<Rightarrow> patchOperation list" where
  "addContainer target added basePath = add_loop VContainer VContainers basePath (length target = 0) added"

definition addVolume :: "Volume list \<Rightarrow> Volume list \<Rightarrow> string \<Rightarrow> patchOperation list" where
  "addVolume target added basePath = add_loop VVolume VVolumes basePath (length target = 0) added"

definition escapeJSONPointerValue :: "string \<Rightarrow> string" where
  "escapeJSONPointerValue input =
     (let step = ReplaceAll input ''~'' ''~0'' in ReplaceAll step ''/'' ''~1'')"

text \<open>\<open>added\<close> lists the entries of the map in the order of the \<open>range\<close>.\<close>

fun updateAnnotation :: "labels option \<Rightarrow> (string \<times> string) list \<Rightarrow> patchOperation list" where
  "updateAnnotation target [] = []"
| "updateAnnotation target ((key, v) # added) =
     (case target of
        None \<Rightarrow> \<lparr>po_Op = ''add'', po_Path = ''/metadata/annotations'', po_Value = VMap [key \<mapsto> v]\<rparr>
      | Some m \<Rightarrow>
          \<lparr>po_Op = (case m key of Some old \<Rightarrow> if old \<noteq> [] then ''replace'' else ''add'' | None \<Rightarrow> ''add''),
           po_Path = ''/metadata/annotations/'' @ escapeJSONPointerValue key, po_Value = VString v\<rparr>)
     # updateAnnotation target added"

definition sidecar_patch :: "Pod \<Rightarrow> SidecarConfig \<Rightarrow> (string \<times> string) list \<Rightarrow> patchOperation list" where
  "sidecar_patch pod cfg anno =
     addContainer (pod_InitContainers pod) (sc_InitContainers cfg) ''/spec/initContainers'' @
     addContainer (pod_Containers pod) (sc_Containers cfg) ''/spec/containers'' @
     addVolume (pod_Volumes pod) (sc_Volumes cfg) ''/spec/volumes'' @
     updateAnnotation (pod_Annotations pod) anno"

definition createSidecarPatch ::
  "'s kube_api \<Rightarrow> codecs_pkg \<Rightarrow> WebhookServer \<Rightarrow> Pod \<Rightarrow> (string \<times> string) list \<Rightarrow> 's \<Rightarrow> patchOperation list go_result \<times> 's" where
  "createSidecarPatch K E whs pod anno s =
     (case prepareSidecarConfiguration K E whs pod s of
        (Inl err, s') \<Rightarrow> (Inl err, s')
      | (Inr cfg, s') \<Rightarrow> (Inr (sidecar_patch pod cfg anno), s'))"

section \<open>Admission\<close>

definition admissionWebhookAnnotationInjectKey :: string where
  "admissionWebhookAnnotationInjectKey = ''sidecar-injector-webhook.edgewize.io/inject''"

definition admissionWebhookAnnotationStatusKey :: string where
  "admissionWebhookAnnotationStatusKey = ''sidecar-injector-webhook.edgewize.io/status''"

definition ignoredNamespaces :: "string list" where
  "ignoredNamespaces = [''kube-system'', ''kube-public'']"

definition annotation_of :: "Pod \<Rightarrow> string \<Rightarrow> string" where
  "annotation_of pod k =
     (case pod_Annotations pod of None \<Rightarrow> [] | Some m \<Rightarrow> (case m k of None \<Rightarrow> [] | Some v \<Rightarrow> v))"

definition mutationRequired :: "'s kube_api \<Rightarrow> string list \<Rightarrow> Pod \<Rightarrow> 's \<Rightarrow> bool" where
  "mutationRequired K ignoredList pod s =
     (if pod_Namespace pod \<in> set ignoredList then False
      else if ToLower (annotation_of pod admissionWebhookAnnotationStatusKey) = ''injected'' then False
      else if ToLower (annotation_of pod admissionWebhookAnnotationInjectKey) \<in> {''n'', ''not'', ''false'', ''off''} then False
      else if pod_Labels pod = Map.empty then False
      else if pod_Labels pod WebhookBrokerInjectLabel \<noteq> None
      then (let deployMeta = GetDeployMetaFromPod pod
            in if dm_Name deployMeta = [] then False
               else (case api_getIMS K s (dm_Namespace deployMeta) (dm_Name deployMeta) of
                       Inl err \<Rightarrow> False | Inr _ \<Rightarrow> True))
      else True)"

record AdmissionResponse =
  ar_Allowed :: bool
  ar_Message :: "go_error option"
  ar_Patch :: "patchOperation list option"

text \<open>\<open>decoded\<close> is the pod in the request; \<open>reqNamespace\<close> its namespace when the object carries none.\<close>

definition mutate ::
  "'s kube_api \<Rightarrow> codecs_pkg \<Rightarrow> WebhookServer \<Rightarrow> Pod go_result \<Rightarrow> string \<Rightarrow> 's \<Rightarrow> AdmissionResponse \<times> 's" where
  "mutate K E whs decoded reqNamespace s =
     (case decoded of
        Inl err \<Rightarrow> (\<lparr>ar_Allowed = False, ar_Message = Some err, ar_Patch = None\<rparr>, s)
      | Inr pod0 \<Rightarrow>
          (let pod = (if pod_Namespace pod0 = [] then pod0\<lparr>pod_Namespace := reqNamespace\<rparr> else pod0)
           in if \<not> mutationRequired K ignoredNamespaces pod s
              then (\<lparr>ar_Allowed = True, ar_Message = None, ar_Patch = None\<rparr>, s)
              else case createSidecarPatch K E whs pod [(admissionWebhookAnnotationStatusKey, ''injected'')] s of
                     (Inl err, s') \<Rightarrow> (\<lparr>ar_Allowed = False, ar_Message = Some err, ar_Patch = None\<rparr>, s')
                   | (Inr patch, s') \<Rightarrow> (\<lparr>ar_Allowed = True, ar_Message = None, ar_Patch = Some patch\<rparr>, s')))"

text \<open>
  What a request to the webhook ends in: an HTTP error, a review with its UID and response, or a panic of the
  handler, which \<open>net/http\<close> recovers. \<open>review\<close> is the decoded admission review; its request (UID, pod,
  namespace) may be absent, and \<open>mutate\<close> then dereferences nil. A body that cannot be read is empty.
\<close>

datatype inject_out = HttpError nat | Reviewed string AdmissionResponse | InjectPanic

definition inject ::
  "'s kube_api \<Rightarrow> codecs_pkg \<Rightarrow> WebhookServer \<Rightarrow> nat list \<Rightarrow> string
   \<Rightarrow> (string \<times> Pod go_result \<times> string) option go_result \<Rightarrow> 's \<Rightarrow> inject_out \<times> 's" where
  "inject K E whs body contentType review s =
     (if length body = 0 then (HttpError 400, s)
      else if contentType \<noteq> ''application/json'' then (HttpError 415, s)
      else case review of
             Inl err \<Rightarrow> (Reviewed [] \<lparr>ar_Allowed = False, ar_Message = Some err, ar_Patch = None\<rparr>, s)
           | Inr None \<Rightarrow> (InjectPanic, s)
           | Inr (Some (uid, decoded, ns)) \<Rightarrow>
               (case mutate K E whs decoded ns s of (resp, s') \<Rightarrow> (Reviewed uid resp, s')))"

definition potentialPodName :: "Pod \<Rightarrow> string" where
  "potentialPodName pod =
     (if pod_Name pod \<noteq> [] then pod_Name pod
      else if pod_GenerateName pod \<noteq> [] then pod_GenerateName pod @ ''***** (actual name not yet known)''
      else [])"

section \<open>Registration of the webhook\<close>

record RuleWithOperations =
  rl_Operations :: "string list"
  rl_APIGroups :: "string list"
  rl_APIVersions :: "string list"
  rl_Resources :: "string list"

record ServiceReference =
  sr_Name :: string
  sr_Namespace :: string
  sr_Path :: string
  sr_Port :: int32

text \<open>Selectors are lists of match labels, \<open>None\<close> for nil.\<close>

record MutatingWebhook =
  mw_Name :: string
  mw_AdmissionReviewVersions :: "string list"
  mw_SideEffects :: string
  mw_CABundle :: string
  mw_Service :: ServiceReference
  mw_Rules :: "RuleWithOperations list"
  mw_NamespaceSelector :: "(string \<times> string) list option"
  mw_ObjectSelector :: "(string \<times> string) list option"
  mw_FailurePolicy :: string

definition webhook_for :: "string \<Rightarrow> string \<Rightarrow> string \<Rightarrow> string \<Rightarrow> string \<Rightarrow> string \<Rightarrow> int32 \<Rightarrow> MutatingWebhook" where
  "webhook_for name path label caPEM service namespace port =
     \<lparr>mw_Name = name, mw_AdmissionReviewVersions = [''v1'', ''v1beta1''], mw_SideEffects = ''None'',
      mw_CABundle = caPEM,
      mw_Service = \<lparr>sr_Name = service, sr_Namespace = namespace, sr_Path = path, sr_Port = port\<rparr>,
      mw_Rules = [\<lparr>rl_Operations = [''CREATE'', ''UPDATE''], rl_APIGroups = [[]], rl_APIVersions = [''v1''],
                   rl_Resources = [''pods'']\<rparr>],
      mw_NamespaceSelector = None, mw_ObjectSelector = Some [(label, WebhookInjectEnable)],
      mw_FailurePolicy = ''Fail''\<rparr>"

definition mutatingWebhooks :: "string \<Rightarrow> string \<Rightarrow> string \<Rightarrow> int32 \<Rightarrow> MutatingWebhook list" where
  "mutatingWebhooks caPEM service namespace port =
     [webhook_for ''proxy.edge-qos.edgewize.io'' ''/proxy'' WebhookProxyInjectLabel caPEM service namespace port,
      webhook_for ''broker.edge-qos.edgewize.io'' ''/broker'' WebhookBrokerInjectLabel caPEM service namespace port]"

definition webhook_same :: "MutatingWebhook \<Rightarrow> MutatingWebhook \<Rightarrow> bool" where
  "webhook_same old new \<longleftrightarrow>
     mw_Name old = mw_Name new \<and> mw_AdmissionReviewVersions old = mw_AdmissionReviewVersions new \<and>
     mw_SideEffects old = mw_SideEffects new \<and> mw_FailurePolicy old = mw_FailurePolicy new \<and>
     mw_Rules old = mw_Rules new \<and> mw_NamespaceSelector old = mw_NamespaceSelector new \<and>
     mw_CABundle old = mw_CABundle new \<and> mw_Service old = mw_Service new"

definition CheckWebhookUpdated :: "MutatingWebhook list \<Rightarrow> MutatingWebhook list \<Rightarrow> bool" where
  "CheckWebhookUpdated oldCfg newCfg =
     (if length oldCfg \<noteq> length newCfg then True
      else \<not> list_all2 webhook_same oldCfg newCfg)"

record ('w) webhook_api =
  wa_get :: "'w \<Rightarrow> (nat \<times> MutatingWebhook list) go_result"   \<comment> \<open>resource version and webhooks\<close>
  wa_create :: "'w \<Rightarrow> MutatingWebhook list \<Rightarrow> go_error option \<times> 'w"
  wa_update :: "'w \<Rightarrow> nat \<Rightarrow> MutatingWebhook list \<Rightarrow> go_error option \<times> 'w"

definition CreateOrUpdateMutatingWebhookConfiguration ::
  "'w webhook_api \<Rightarrow> string \<Rightarrow> string \<Rightarrow> string \<Rightarrow> int32 \<Rightarrow> 'w \<Rightarrow> go_error option \<times> 'w" where
  "CreateOrUpdateMutatingWebhookConfiguration A caPEM service namespace port w =
     (let cfg = mutatingWebhooks caPEM service namespace port
      in case wa_get A w of
           Inl err \<Rightarrow> if IsNotFound err then wa_create A w cfg else (Some err, w)
         | Inr (version, found) \<Rightarrow>
             if CheckWebhookUpdated found cfg then wa_update A w version cfg else (None, w))"

section \<open>What the API server makes of the patch\<close>

text \<open>
  RFC 6901: a token of a pointer holds no slash, and \<open>~1\<close> is decoded before \<open>~0\<close>. RFC 6902: \<open>add\<close> on a
  member sets it, \<open>add\<close> on \<open>/-\<close> appends to an array that must exist, \<open>replace\<close> needs the member. An empty
  list of the pod is taken as an absent array.
\<close>

definition decode_token :: "string \<Rightarrow> string option" where
  "decode_token tok =
     (if CHR ''/'' \<in> set tok then None else Some (ReplaceAll (ReplaceAll tok ''~1'' ''/'') ''~0'' ''~''))"

fun list_member :: "string \<Rightarrow> patch_value \<Rightarrow> Container list \<Rightarrow> Container list option" where
  "list_member rest (VContainers cs) xs = (if rest = [] then Some cs else None)"
| "list_member rest (VContainer c) xs = (if rest = ''/-'' \<and> xs \<noteq> [] then Some (xs @ [c]) else None)"
| "list_member rest _ xs = None"

fun volume_member :: "string \<Rightarrow> patch_value \<Rightarrow> Volume list \<Rightarrow> Volume list option" where
  "volume_member rest (VVolumes vs) xs = (if rest = [] then Some vs else None)"
| "volume_member rest (VVolume v) xs = (if rest = ''/-'' \<and> xs \<noteq> [] then Some (xs @ [v]) else None)"
| "volume_member rest _ xs = None"

definition annotation_member :: "string \<Rightarrow> string \<Rightarrow> patch_value \<Rightarrow> labels option \<Rightarrow> labels option option" where
  "annotation_member opn rest v annos =
     (case (v, annos) of
        (VMap m, _) \<Rightarrow> if rest = [] \<and> opn = ''add'' then Some (Some m) else None
      | (VString x, Some m) \<Rightarrow>
          (if \<not> HasPrefix rest ''/'' then None
           else case decode_token (drop 1 rest) of
                  None \<Rightarrow> None
                | Some k \<Rightarrow> if opn = ''replace'' \<and> m k = None then None else Some (Some (m(k \<mapsto> x))))
      | _ \<Rightarrow> None)"

definition apply_op :: "patchOperation \<Rightarrow> Pod \<Rightarrow> Pod option" where
  "apply_op p pod =
     (let path = po_Path p in
      if HasPrefix path ''/spec/initContainers'' \<and> po_Op p = ''add''
      then map_option (\<lambda>l. pod\<lparr>pod_InitContainers := l\<rparr>)
             (list_member (TrimPrefix path ''/spec/initContainers'') (po_Value p) (pod_InitContainers pod))
      else if HasPrefix path ''/spec/containers'' \<and> po_Op p = ''add''
      then map_option (\<lambda>l. pod\<lparr>pod_Containers := l\<rparr>)
             (list_member (TrimPrefix path ''/spec/containers'') (po_Value p) (pod_Containers pod))
      else if HasPrefix path ''/spec/volumes'' \<and> po_Op p = ''add''
      then map_option (\<lambda>l. pod\<lparr>pod_Volumes := l\<rparr>)
             (volume_member (TrimPrefix path ''/spec/volumes'') (po_Value p) (pod_Volumes pod))
      else if HasPrefix path ''/metadata/annotations''
      then map_option (\<lambda>m. pod\<lparr>pod_Annotations := m\<rparr>)
             (annotation_member (po_Op p) (TrimPrefix path ''/metadata/annotations'') (po_Value p) (pod_Annotations pod))
      else None)"

fun apply_patch :: "patchOperation list \<Rightarrow> Pod \<Rightarrow> Pod option" where
  "apply_patch [] pod = Some pod"
| "apply_patch (p # ps) pod = (case apply_op p pod of None \<Rightarrow> None | Some pod' \<Rightarrow> apply_patch ps pod')"

section \<open>Lemmas on the patch\<close>

lemma apply_patch_append:
  "apply_patch (ps @ qs) pod = (case apply_patch ps pod of None \<Rightarrow> None | Some pod' \<Rightarrow> apply_patch qs pod')"
  by (induction ps arbitrary: pod) (auto split: option.splits)

definition esc_char :: "char \<Rightarrow> string" where
  "esc_char c = (if c = CHR ''~'' then ''~0'' else if c = CHR ''/'' then ''~1'' else [c])"

lemma ReplaceAll_Nil [simp]: "ReplaceAll [] old new = []"
  by (subst ReplaceAll.simps) simp

lemma ReplaceAll_one: "ReplaceAll s [c] new = concat (map (\<lambda>x. if x = c then new else [x]) s)"
  by (induction s) (simp_all add: ReplaceAll.simps HasPrefix_def)

lemma ReplaceAll_two:
  "ReplaceAll (x # s) [a, b] new =
     (case s of y # t \<Rightarrow> if x = a \<and> y = b then new @ ReplaceAll t [a, b] new else x # ReplaceAll s [a, b] new
      | [] \<Rightarrow> [x])"
  by (subst ReplaceAll.simps) (auto simp: HasPrefix_def split: list.splits)

lemma escape_eq: "escapeJSONPointerValue s = concat (map esc_char s)"
  unfolding escapeJSONPointerValue_def Let_def ReplaceAll_one
  by (induction s) (auto simp: esc_char_def)

lemma escape_no_slash: "CHR ''/'' \<notin> set (escapeJSONPointerValue s)"
  unfolding escape_eq by (induction s) (auto simp: esc_char_def)

lemma unescape_slash:
  "ReplaceAll (concat (map esc_char s)) ''~1'' ''/'' = concat (map (\<lambda>x. if x = CHR ''~'' then ''~0'' else [x]) s)"
proof (induction s)
  case (Cons x s)
  have "ReplaceAll (y # t) ''~1'' ''/'' = y # ReplaceAll t ''~1'' ''/''" if "y \<noteq> CHR ''~''" for y t
    using that by (simp add: ReplaceAll_two split: list.splits)
  with Cons show ?case by (simp add: esc_char_def ReplaceAll_two)
qed simp

lemma unescape_tilde:
  "ReplaceAll (concat (map (\<lambda>x. if x = CHR ''~'' then ''~0'' else [x]) s)) ''~0'' ''~'' = s"
proof (induction s)
  case (Cons x s)
  have "ReplaceAll (y # t) ''~0'' ''~'' = y # ReplaceAll t ''~0'' ''~''" if "y \<noteq> CHR ''~''" for y t
    using that by (simp add: ReplaceAll_two split: list.splits)
  with Cons show ?case by (simp add: ReplaceAll_two)
qed simp

lemma decode_escape [simp]: "decode_token (escapeJSONPointerValue k) = Some k"
proof -
  have "ReplaceAll (ReplaceAll (escapeJSONPointerValue k) ''~1'' ''/'') ''~0'' ''~'' = k"
    by (simp only: escape_eq unescape_slash unescape_tilde)
  then show ?thesis by (simp add: decode_token_def escape_no_slash)
qed

text \<open>One contract for the three arrays of a pod, a member read by \<open>get\<close> and replaced by \<open>put\<close>.\<close>

locale patched_array =
  fixes get :: "Pod \<Rightarrow> 'a list" and put :: "'a list \<Rightarrow> Pod \<Rightarrow> Pod"
    and one :: "'a \<Rightarrow> patch_value" and many :: "'a list \<Rightarrow> patch_value" and path :: string
  assumes get_put: "get (put xs pod) = xs"
    and put_put: "put xs (put ys pod) = put xs pod"
    and put_get: "put (get pod) pod = pod"
    and op_many: "apply_op \<lparr>po_Op = ''add'', po_Path = path, po_Value = many xs\<rparr> pod = Some (put xs pod)"
    and op_one: "get pod \<noteq> [] \<Longrightarrow>
        apply_op \<lparr>po_Op = ''add'', po_Path = path @ ''/-'', po_Value = one x\<rparr> pod = Some (put (get pod @ [x]) pod)"
begin

lemma add_rest:
  "get pod \<noteq> [] \<Longrightarrow> apply_patch (add_loop one many path False added) pod = Some (put (get pod @ added) pod)"
  by (induction added arbitrary: pod) (simp_all add: put_get op_one get_put put_put)

lemma add_all:
  "apply_patch (add_loop one many path (length (get pod) = 0) added) pod = Some (put (get pod @ added) pod)"
proof (cases "added = [] \<or> get pod \<noteq> []")
  case True
  then show ?thesis
  proof
    assume "added = []"
    then show ?thesis by (simp add: put_get)
  next
    assume "get pod \<noteq> []"
    then show ?thesis by (simp add: add_rest)
  qed
next
  case False
  then obtain a rest where "added = a # rest" by (cases added) auto
  with False show ?thesis by (simp add: op_many add_rest get_put put_put)
qed

end

interpretation pa_init: patched_array pod_InitContainers "\<lambda>l pod. pod\<lparr>pod_InitContainers := l\<rparr>" VContainer VContainers
  "''/spec/initContainers''"
  by unfold_locales (simp_all add: apply_op_def HasPrefix_def TrimPrefix_def)

interpretation pa_cont: patched_array pod_Containers "\<lambda>l pod. pod\<lparr>pod_Containers := l\<rparr>" VContainer VContainers
  "''/spec/containers''"
  by unfold_locales (simp_all add: apply_op_def HasPrefix_def TrimPrefix_def)

interpretation pa_vol: patched_array pod_Volumes "\<lambda>l pod. pod\<lparr>pod_Volumes := l\<rparr>" VVolume VVolumes
  "''/spec/volumes''"
  by unfold_locales (simp_all add: apply_op_def HasPrefix_def TrimPrefix_def)

definition annotations_with :: "labels option \<Rightarrow> string \<Rightarrow> string \<Rightarrow> labels" where
  "annotations_with annos k v = (case annos of None \<Rightarrow> [k \<mapsto> v] | Some m \<Rightarrow> m(k \<mapsto> v))"

lemma apply_updateAnnotation:
  "apply_patch (updateAnnotation (pod_Annotations pod) [(k, v)]) pod =
     Some (pod\<lparr>pod_Annotations := Some (annotations_with (pod_Annotations pod) k v)\<rparr>)"
proof (cases "pod_Annotations pod")
  case None
  then show ?thesis
    by (simp add: apply_op_def HasPrefix_def TrimPrefix_def annotation_member_def annotations_with_def)
next
  case (Some m)
  then show ?thesis
    by (auto simp: apply_op_def HasPrefix_def TrimPrefix_def annotation_member_def annotations_with_def
        split: option.splits)
qed

lemma apply_sidecar_patch:
  "apply_patch (sidecar_patch pod cfg [(k, v)]) pod =
     Some (pod\<lparr>pod_InitContainers := pod_InitContainers pod @ sc_InitContainers cfg,
              pod_Containers := pod_Containers pod @ sc_Containers cfg,
              pod_Volumes := pod_Volumes pod @ sc_Volumes cfg,
              pod_Annotations := Some (annotations_with (pod_Annotations pod) k v)\<rparr>)"
  (is "_ = Some ?r")
proof -
  let ?p1 = "pod\<lparr>pod_InitContainers := pod_InitContainers pod @ sc_InitContainers cfg\<rparr>"
  let ?p2 = "?p1\<lparr>pod_Containers := pod_Containers pod @ sc_Containers cfg\<rparr>"
  let ?p3 = "?p2\<lparr>pod_Volumes := pod_Volumes pod @ sc_Volumes cfg\<rparr>"
  have "apply_patch (addContainer (pod_InitContainers pod) (sc_InitContainers cfg) ''/spec/initContainers'') pod = Some ?p1"
    unfolding addContainer_def by (rule pa_init.add_all)
  moreover have "apply_patch (addContainer (pod_Containers pod) (sc_Containers cfg) ''/spec/containers'') ?p1 = Some ?p2"
    unfolding addContainer_def using pa_cont.add_all [of ?p1] by simp
  moreover have "apply_patch (addVolume (pod_Volumes pod) (sc_Volumes cfg) ''/spec/volumes'') ?p2 = Some ?p3"
    unfolding addVolume_def using pa_vol.add_all [of ?p2] by simp
  moreover have "apply_patch (updateAnnotation (pod_Annotations pod) [(k, v)]) ?p3 =
      Some (?p3\<lparr>pod_Annotations := Some (annotations_with (pod_Annotations pod) k v)\<rparr>)"
    using apply_updateAnnotation [of ?p3] by simp
  ultimately show ?thesis unfolding sidecar_patch_def by (simp only: apply_patch_append option.case)
qed

lemma mutationRequired_injected:
  "pod_Annotations pod = Some (annotations_with annos admissionWebhookAnnotationStatusKey ''injected'') \<Longrightarrow>
   \<not> mutationRequired K l pod s"
  by (simp add: mutationRequired_def annotation_of_def annotations_with_def ToLower_def to_lower_char_def
      split: option.splits)

lemma sidecar_patch_namespace: "sidecar_patch (pod\<lparr>pod_Namespace := ns\<rparr>) cfg anno = sidecar_patch pod cfg anno"
  by (simp add: sidecar_patch_def)

section \<open>Lemmas on the sidecar configuration\<close>

lemma dm_Namespace_pod [simp]: "dm_Namespace (GetDeployMetaFromPod pod) = pod_Namespace pod"
  by (auto simp: GetDeployMetaFromPod_def Let_def from_controller_def split: option.splits)

lemma kube_okD:
  assumes "kube_ok K"
  shows "api_getDeployment K s ns n = Inr d \<Longrightarrow> dp_Namespace d = ns \<and> dp_Name d = n"
    and "api_createConfigMap K s ns cm = (None, s') \<Longrightarrow> api_getConfigMap K s' ns (cm_Name cm) = Inr cm"
    and "api_createConfigMap K s ns cm = (Some e, s') \<Longrightarrow> s' = s"
    and "api_createConfigMap K s ns cm = (Some e, s') \<Longrightarrow> IsAlreadyExists e \<Longrightarrow>
           \<exists>c. api_getConfigMap K s ns (cm_Name cm) = Inr c"
  using assms unfolding kube_ok_def by blast+

lemma GenerateProxyCM_present:
  assumes "kube_ok K" and "GenerateProxyCM K marshal ctl pod s = (Inr (cm, addr, port), s')"
  shows "\<exists>c. api_getConfigMap K s' (pod_Namespace pod) cm = Inr c"
  using assms(2)
  by (auto simp: GenerateProxyCM_def Let_def split: if_splits sum.splits prod.splits option.splits
      dest: kube_okD(2) [OF assms(1)] kube_okD(3,4) [OF assms(1)])

lemma GenerateBrokerCM_present:
  assumes "kube_ok K" and "GenerateBrokerCM K marshal pod s = (Inr (cm, port), s')"
  shows "\<exists>c. api_getConfigMap K s' (pod_Namespace pod) cm = Inr c"
  using assms(2)
  by (auto simp: GenerateBrokerCM_def Let_def split: if_splits sum.splits prod.splits option.splits
      dest!: kube_okD(1,2) [OF assms(1)] dest: kube_okD(3,4) [OF assms(1)])

section \<open>A small cluster\<close>

text \<open>
  One infer model service \<open>yolo\<close> in namespace \<open>models\<close>, deployed on node \<open>n1\<close> with address 10.0.0.7; the
  state is the association list of the config maps.
\<close>

type_synonym sample_state = "((string \<times> string) \<times> ConfigMap) list"

definition sample_kube :: "sample_state kube_api" where
  "sample_kube =
     \<lparr>api_getIMS = (\<lambda>s ns n. if ns = ''models'' \<and> n = ''yolo'' then Inr sample_ims else Inl (NotFound n)),
      api_getDeployment = (\<lambda>s ns n. Inr \<lparr>dp_Name = n, dp_Namespace = ns, dp_UID = ''u1'', dp_Labels = Map.empty,
        dp_Replicas = None,
        dp_Template = \<lparr>pt_Labels = None, pt_NodeSelector = [''kubernetes.io/hostname'' \<mapsto> ''n1''], pt_Tolerations = [],
          pt_rest = []\<rparr>,
        dp_Strategy = [], dp_MatchLabels = Map.empty\<rparr>),
      api_getNode = (\<lambda>s n. Inr \<lparr>nd_Name = n, nd_Labels = Map.empty, nd_Addresses = [(''InternalIP'', ''10.0.0.7'')]\<rparr>),
      api_getConfigMap = (\<lambda>s ns n. case map_of s (ns, n) of Some c \<Rightarrow> Inr c | None \<Rightarrow> Inl (NotFound n)),
      api_createConfigMap = (\<lambda>s ns cm. case map_of s (ns, cm_Name cm) of
         Some _ \<Rightarrow> (Some (AlreadyExists (cm_Name cm)), s) | None \<Rightarrow> (None, ((ns, cm_Name cm), cm) # s))\<rparr>"

definition sample_codecs :: codecs_pkg where
  "sample_codecs =
     \<lparr>cd_marshalProxy = (\<lambda>c. Inr (sg_Name (ep_ServiceGroup c))),
      cd_marshalBroker = (\<lambda>c. Inr (sch_Method (eb_Schedule c))),
      cd_controllerOf = (\<lambda>pod. find_controller (pod_OwnerReferences pod))\<rparr>"

definition sample_container :: "string \<Rightarrow> Container" where
  "sample_container n =
     \<lparr>ct_Name = n, ct_Command = [], ct_Args = [], ct_Env = [], ct_Ports = [], ct_rest = []\<rparr>"

definition sample_webhook :: WebhookServer where
  "sample_webhook =
     \<lparr>ws_ProxySidecar = Some \<lparr>sc_InitContainers = [sample_container ''init''],
        sc_Containers = [sample_container ''proxy''],
        sc_Volumes = [\<lparr>vol_Name = ''proxy-config'', vol_ConfigMap = None, vol_rest = []\<rparr>]\<rparr>,
      ws_BrokerSidecar = None, ws_CurrentNamespace = ''edgewize-system''\<rparr>"

definition sample_pod :: Pod where
  "sample_pod =
     \<lparr>pod_Name = ''client'', pod_GenerateName = [], pod_Namespace = ''apps'',
      pod_Labels = [WebhookProxyInjectLabel \<mapsto> ''enabled'', ServerDeployNameLabel \<mapsto> ''yolo'',
        ServerDeployNamespaceLabel \<mapsto> ''models''],
      pod_Annotations = None, pod_OwnerReferences = [], pod_InitContainers = [],
      pod_Containers = [sample_container ''app''], pod_Volumes = []\<rparr>"

lemmas sample_defs =
  sample_ims_def sample_kube_def sample_codecs_def sample_container_def sample_webhook_def sample_pod_def

lemma sample_kube_ok: "kube_ok sample_kube"
  by (auto simp: kube_ok_def sample_kube_def IsAlreadyExists_def split: option.splits)

lemma sample_proxy_cm:
  "fst (GenerateProxyCM sample_kube (cd_marshalProxy sample_codecs) (cd_controllerOf sample_codecs) sample_pod [])
     = Inr (''yolo-proxy'', ''10.0.0.7'', 8000)"
  by (simp add: GenerateProxyCM_def sample_defs label_of_def label_defs parseModelServerAddr_def GetNodeAddress_def
      IsNotFound_def dp_NodeSelector_def Let_def)

lemma sample_prepared:
  "fst (prepareSidecarConfiguration sample_kube sample_codecs sample_webhook sample_pod [])
     = Inr (getProxySidecarConfig (the (ws_ProxySidecar sample_webhook)) ''yolo-proxy'' ''10.0.0.7'' 8000)"
proof -
  obtain s' where "GenerateProxyCM sample_kube (cd_marshalProxy sample_codecs) (cd_controllerOf sample_codecs) sample_pod []
     = (Inr (''yolo-proxy'', ''10.0.0.7'', 8000), s')"
    using sample_proxy_cm by (metis prod.collapse)
  then show ?thesis
    by (simp add: prepareSidecarConfiguration_def sample_webhook_def sample_pod_def label_defs)
qed

section \<open>Properties\<close>

lemma mutate_patchD:
  assumes "mutate K E whs (Inr pod) ns s = (resp, s')" and "ar_Patch resp = Some p"
  shows "\<exists>cfg. ar_Allowed resp \<and>
      prepareSidecarConfiguration K E whs (if pod_Namespace pod = [] then pod\<lparr>pod_Namespace := ns\<rparr> else pod) s = (Inr cfg, s') \<and>
      p = sidecar_patch pod cfg [(admissionWebhookAnnotationStatusKey, ''injected'')]"
  using assms
  by (auto simp: mutate_def Let_def createSidecarPatch_def sidecar_patch_namespace
      split: if_splits prod.splits sum.splits)

lemma mutate_injected:
  "pod_Annotations pod = Some (annotations_with annos admissionWebhookAnnotationStatusKey ''injected'') \<Longrightarrow>
   mutate K E whs (Inr pod) ns s = (\<lparr>ar_Allowed = True, ar_Message = None, ar_Patch = None\<rparr>, s)"
  by (simp add: mutate_def Let_def mutationRequired_injected)

text \<open>
  C12. The patch of the webhook does what it is for. When a pod is admitted with a patch, the API server can
  apply the patch to the pod; it appends exactly the init containers, containers and volumes of the
  prepared sidecar configuration to those of the pod, keeps the annotations but for the injection status, and
  the patched pod is admitted without a patch from then on, so that no sidecar is injected twice.
\<close>

theorem injection_patch:
  assumes "mutate K E whs (Inr pod) ns s = (resp, s')" and "ar_Patch resp = Some p"
  shows "\<exists>cfg pod'. ar_Allowed resp \<and>
      prepareSidecarConfiguration K E whs (if pod_Namespace pod = [] then pod\<lparr>pod_Namespace := ns\<rparr> else pod) s = (Inr cfg, s') \<and>
      apply_patch p pod = Some pod' \<and>
      pod_InitContainers pod' = pod_InitContainers pod @ sc_InitContainers cfg \<and>
      pod_Containers pod' = pod_Containers pod @ sc_Containers cfg \<and>
      pod_Volumes pod' = pod_Volumes pod @ sc_Volumes cfg \<and>
      pod_Labels pod' = pod_Labels pod \<and>
      annotation_of pod' admissionWebhookAnnotationStatusKey = ''injected'' \<and>
      (\<forall>k. k \<noteq> admissionWebhookAnnotationStatusKey \<longrightarrow> annotation_of pod' k = annotation_of pod k) \<and>
      (\<forall>t. mutate K E whs (Inr pod') ns t = (\<lparr>ar_Allowed = True, ar_Message = None, ar_Patch = None\<rparr>, t))"
proof -
  obtain cfg where cfg: "ar_Allowed resp"
      "prepareSidecarConfiguration K E whs (if pod_Namespace pod = [] then pod\<lparr>pod_Namespace := ns\<rparr> else pod) s = (Inr cfg, s')"
      "p = sidecar_patch pod cfg [(admissionWebhookAnnotationStatusKey, ''injected'')]"
    using mutate_patchD [OF assms] by blast
  have "annotation_of (pod\<lparr>pod_Annotations := Some (annotations_with (pod_Annotations pod) k0 v)\<rparr>) k =
      (if k = k0 then v else annotation_of pod k)" for k k0 v
    by (simp add: annotation_of_def annotations_with_def split: option.splits)
  then have "annotation_of (pod\<lparr>pod_InitContainers := a, pod_Containers := b, pod_Volumes := c,
      pod_Annotations := Some (annotations_with (pod_Annotations pod) k0 v)\<rparr>) k =
      (if k = k0 then v else annotation_of pod k)" for a b c k k0 v
    by (simp add: annotation_of_def)
  then show ?thesis
    using cfg by (simp add: apply_sidecar_patch mutate_injected)
qed

theorem injection_patch_witness:
  "\<exists>resp s' p (cfg :: SidecarConfig) pod'. mutate sample_kube sample_codecs sample_webhook (Inr sample_pod) ''apps'' [] = (resp, s') \<and>
     ar_Patch resp = Some p \<and> apply_patch p sample_pod = Some pod' \<and>
     pod_Containers pod' = pod_Containers sample_pod @ sc_Containers cfg \<and>
     mutate sample_kube sample_codecs sample_webhook (Inr pod') ''apps'' s' =
       (\<lparr>ar_Allowed = True, ar_Message = None, ar_Patch = None\<rparr>, s')"
proof -
  obtain resp s' where m: "mutate sample_kube sample_codecs sample_webhook (Inr sample_pod) ''apps'' [] = (resp, s')"
    by (rule prod.exhaust)
  obtain cfg t where prep: "prepareSidecarConfiguration sample_kube sample_codecs sample_webhook sample_pod [] = (Inr cfg, t)"
    using sample_prepared
    by (cases "prepareSidecarConfiguration sample_kube sample_codecs sample_webhook sample_pod []") simp
  have ns: "pod_Namespace sample_pod = ''apps''" by (simp add: sample_pod_def)
  have "mutationRequired sample_kube ignoredNamespaces sample_pod []"
    by (simp add: mutationRequired_def sample_pod_def ignoredNamespaces_def annotation_of_def ToLower_def label_defs)
  then have "mutate sample_kube sample_codecs sample_webhook (Inr sample_pod) ''apps'' [] =
      (\<lparr>ar_Allowed = True, ar_Message = None,
        ar_Patch = Some (sidecar_patch sample_pod cfg [(admissionWebhookAnnotationStatusKey, ''injected'')])\<rparr>, t)"
    unfolding mutate_def Let_def createSidecarPatch_def by (simp add: ns prep)
  with m obtain p where p: "ar_Patch resp = Some p" by auto
  obtain cfg' :: SidecarConfig and pod' where "apply_patch p sample_pod = Some pod'"
      "pod_Containers pod' = pod_Containers sample_pod @ sc_Containers cfg'"
      "\<forall>u. mutate sample_kube sample_codecs sample_webhook (Inr pod') ''apps'' u =
         (\<lparr>ar_Allowed = True, ar_Message = None, ar_Patch = None\<rparr>, u)"
    using injection_patch [OF m p] by (elim exE conjE) (rule that; assumption)
  with m p show ?thesis by (intro exI conjI) (assumption | erule spec)+
qed

text \<open>
  C39. Key and token of the annotation path are inverse to each other: the JSON pointer token written for any
  annotation key holds no slash, decodes to the key, and two keys never share a token.
\<close>

theorem pointer_roundtrip:
  "decode_token (escapeJSONPointerValue k) = Some k \<and> CHR ''/'' \<notin> set (escapeJSONPointerValue k) \<and>
   (escapeJSONPointerValue k = escapeJSONPointerValue k' \<longleftrightarrow> k = k')"
proof -
  have "k = k'" if "escapeJSONPointerValue k = escapeJSONPointerValue k'"
  proof -
    from that have "decode_token (escapeJSONPointerValue k) = decode_token (escapeJSONPointerValue k')" by (rule arg_cong)
    then show ?thesis by (simp only: decode_escape option.inject)
  qed
  with escape_no_slash decode_escape show ?thesis by blast
qed

text \<open>
  The sidecar finds its configuration. When a sidecar configuration is prepared for a pod, its
  configuration volume refers to a config map that exists in the pod's namespace afterwards, for the proxy
  sidecar and for the broker sidecar alike.
\<close>

theorem sidecar_config_mounted:
  assumes "kube_ok K" and "prepareSidecarConfiguration K E whs pod s = (Inr cfg, s')"
    and "v \<in> set (sc_Volumes cfg)"
    and "vol_Name v = (if pod_Labels pod WebhookProxyInjectLabel = None then DefaultBrokerVolumeName else DefaultProxyVolumeName)"
  shows "\<exists>n cm. vol_ConfigMap v = Some n \<and> api_getConfigMap K s' (pod_Namespace pod) n = Inr cm"
proof (cases "pod_Labels pod WebhookProxyInjectLabel")
  case None
  with assms(2) obtain template cm port where "GenerateBrokerCM K (cd_marshalBroker E) pod s = (Inr (cm, port), s')"
      "cfg = getBrokerSidecarConfig template cm port"
    by (auto simp: prepareSidecarConfiguration_def Let_def split: if_splits option.splits prod.splits sum.splits)
  then show ?thesis
    using assms(3,4) None GenerateBrokerCM_present [OF assms(1)]
    by (auto simp: getBrokerSidecarConfig_def Let_def RenameVolumeRefCM_def)
next
  case (Some l)
  with assms(2) obtain template cm addr port where
      "GenerateProxyCM K (cd_marshalProxy E) (cd_controllerOf E) pod s = (Inr (cm, addr, port), s')"
      "cfg = getProxySidecarConfig template cm addr port"
    by (auto simp: prepareSidecarConfiguration_def Let_def split: if_splits option.splits prod.splits sum.splits)
  then show ?thesis
    using assms(3,4) Some GenerateProxyCM_present [OF assms(1)]
    by (auto simp: getProxySidecarConfig_def Let_def RenameVolumeRefCM_def)
qed

theorem sidecar_config_mounted_witness:
  "\<exists>cfg s' v n cm. prepareSidecarConfiguration sample_kube sample_codecs sample_webhook sample_pod [] = (Inr cfg, s') \<and>
     v \<in> set (sc_Volumes cfg) \<and> vol_ConfigMap v = Some n \<and> api_getConfigMap sample_kube s' ''apps'' n = Inr cm"
proof -
  obtain cfg s' where prep: "prepareSidecarConfiguration sample_kube sample_codecs sample_webhook sample_pod [] = (Inr cfg, s')"
    using sample_prepared
    by (cases "prepareSidecarConfiguration sample_kube sample_codecs sample_webhook sample_pod []") simp
  then have "cfg = getProxySidecarConfig (the (ws_ProxySidecar sample_webhook)) ''yolo-proxy'' ''10.0.0.7'' 8000"
    using sample_prepared by simp
  then obtain v where v: "v \<in> set (sc_Volumes cfg)" "vol_Name v = DefaultProxyVolumeName"
    by (auto simp: getProxySidecarConfig_def Let_def RenameVolumeRefCM_def AddTargetToEnv_def AddProxyIptablesRule_def
        Clone_def sample_webhook_def label_defs)
  moreover have "pod_Labels sample_pod WebhookProxyInjectLabel \<noteq> None" "pod_Namespace sample_pod = ''apps''"
    by (simp_all add: sample_pod_def label_defs)
  ultimately show ?thesis
    using sidecar_config_mounted [OF sample_kube_ok prep v(1)] prep by fastforce
qed

text \<open>
  The deployment a pod belongs to: a pod of a replica set whose name is the deployment's name, a dash and
  the pod template hash is taken as a pod of that deployment, which is the name under which its broker
  configuration is looked up.
\<close>

theorem deploy_meta_replicaset:
  assumes "pod_GenerateName pod \<noteq> []" and "find_controller (pod_OwnerReferences pod) = Some ref"
    and "or_Kind ref = ''ReplicaSet''" and "pod_Labels pod ''pod-template-hash'' = Some hash" and "hash \<noteq> []"
    and "or_Name ref = d @ ''-'' @ hash" and "d \<noteq> []"
  shows "GetDeployMetaFromPod pod =
     \<lparr>dm_Name = d, dm_Namespace = pod_Namespace pod, dm_Kind = ''Deployment'', dm_APIVersion = or_APIVersion ref\<rparr>"
proof -
  have "TrimSuffix (d @ ''-'' @ hash) (''-'' @ hash) = d" by (rule TrimSuffix_append)
  moreover have "HasSuffix (d @ ''-'' @ hash) hash" using HasSuffix_append [of "d @ ''-''" hash] by simp
  ultimately show ?thesis
    using assms by (simp add: GetDeployMetaFromPod_def from_controller_def label_of_def Let_def)
qed

definition sample_server_pod :: Pod where
  "sample_server_pod = sample_pod\<lparr>pod_GenerateName := ''yolo-5d8f-'',
     pod_Labels := [''pod-template-hash'' \<mapsto> ''5d8f''],
     pod_OwnerReferences := [\<lparr>or_APIVersion = ''apps/v1'', or_Kind = ''ReplicaSet'', or_Name = ''yolo-5d8f'',
       or_UID = ''u2'', or_Controller = Some True\<rparr>]\<rparr>"

theorem deploy_meta_replicaset_witness:
  "GetDeployMetaFromPod sample_server_pod =
     \<lparr>dm_Name = ''yolo'', dm_Namespace = ''apps'', dm_Kind = ''Deployment'', dm_APIVersion = ''apps/v1''\<rparr>"
  using deploy_meta_replicaset [of sample_server_pod "hd (pod_OwnerReferences sample_server_pod)" "''5d8f''" "''yolo''"]
  by (simp add: sample_server_pod_def sample_pod_def)

text \<open>
  The service group label of a client pod has no effect on the proxy's configuration: the config map
  written for the pod is the same whatever the label says, since the configuration that is marshalled
  is the one of the infer model service and not the copy the label's group was set in.
\<close>

theorem proxy_group_label_ignored:
  assumes "controllerOf (pod\<lparr>pod_Labels := (pod_Labels pod)(ProxyServiceGroupLabel := g)\<rparr>) = controllerOf pod"
  shows "GenerateProxyCM K marshal controllerOf (pod\<lparr>pod_Labels := (pod_Labels pod)(ProxyServiceGroupLabel := g)\<rparr>) s =
     GenerateProxyCM K marshal controllerOf pod s"
proof -
  let ?pod = "pod\<lparr>pod_Labels := (pod_Labels pod)(ProxyServiceGroupLabel := g)\<rparr>"
  have "label_of ?pod ServerDeployNameLabel = label_of pod ServerDeployNameLabel"
    "label_of ?pod ServerDeployNamespaceLabel = label_of pod ServerDeployNamespaceLabel"
    "pod_Namespace ?pod = pod_Namespace pod" "pod_Name ?pod = pod_Name pod"
    by (simp_all add: label_of_def label_defs)
  with assms show ?thesis unfolding GenerateProxyCM_def Let_def by (simp only:)
qed

theorem proxy_group_label_ignored_witness:
  "GenerateProxyCM sample_kube (cd_marshalProxy sample_codecs) (cd_controllerOf sample_codecs)
     (sample_pod\<lparr>pod_Labels := (pod_Labels sample_pod)(ProxyServiceGroupLabel := Some ''gold'')\<rparr>) [] =
   GenerateProxyCM sample_kube (cd_marshalProxy sample_codecs) (cd_controllerOf sample_codecs) sample_pod []"
  by (rule proxy_group_label_ignored) (simp add: sample_codecs_def)

end
