(* ===== verification/Im_Service.thy ===== *)
theory Im_Service
  imports Kube
begin

text \<open>
  \<open>pkg/controllers/imservice\<close>: the controller of infer model services. It keeps the status of a service up to date
  with the service groups of its broker configuration and with the client pods that use them. Listing
  the pods by their labels and \<open>metav1.GetControllerOf\<close> are arguments; the client has the laws of \<open>client_ok\<close>.
\<close>

section \<open>Operations\<close>

definition unused_item :: "string \<Rightarrow> ServiceGroupItem" where
  "unused_item g = \<lparr>sgi_Name = g, sgi_Client = [], sgi_IsUsed = False\<rparr>"

definition GetDesireServiceGroups :: "InferModelService \<Rightarrow> string \<rightharpoonup> ServiceGroupItem" where
  "GetDesireServiceGroups inst =
     foldl (\<lambda>svcGroups grp. svcGroups(sg_Name grp \<mapsto> unused_item (sg_Name grp))) Map.empty
       (eb_ServiceGroups (ims_BrokerConfig inst))"

text \<open>The loop over the pods; a pod without labels has no service group label either.\<close>

fun mark_used ::
  "(Pod \<Rightarrow> string) \<Rightarrow> Pod list \<Rightarrow> (string \<rightharpoonup> ServiceGroupItem) \<Rightarrow> (string \<rightharpoonup> ServiceGroupItem)" where
  "mark_used owner [] m = m"
| "mark_used owner (pod # pods) m =
     (case pod_Labels pod ProxyServiceGroupLabel of
        None \<Rightarrow> mark_used owner pods m
      | Some clientSG \<Rightarrow>
          if m clientSG = None then mark_used owner pods m
          else mark_used owner pods
                 (m(clientSG \<mapsto> \<lparr>sgi_Name = clientSG, sgi_Client = owner pod, sgi_IsUsed = True\<rparr>)))"

definition client_selector :: "InferModelService \<Rightarrow> (string \<times> string) list" where
  "client_selector inst =
     [(WebhookProxyInjectLabel, WebhookInjectEnable), (ServerDeployNameLabel, ims_Name inst),
      (ServerDeployNamespaceLabel, ims_Namespace inst)]"

type_synonym 's pod_lister = "'s \<Rightarrow> (string \<times> string) list \<Rightarrow> Pod list go_result"

definition ims_doReconcile ::
  "('s, InferModelService) typed_client \<Rightarrow> 's pod_lister \<Rightarrow> (Pod \<Rightarrow> string option) \<Rightarrow> InferModelService \<Rightarrow> 's
   \<Rightarrow> go_error option \<times> 's" where
  "ims_doReconcile C listPods controllerOf inst s =
     (case listPods s (client_selector inst) of
        Inl err \<Rightarrow> (Some err, s)
      | Inr pods \<Rightarrow>
          (let currServiceGroups = mark_used (GetPodOwnerRefName controllerOf pod_Name) pods (GetDesireServiceGroups inst)
           in if ims_Status inst = Some currServiceGroups then (None, s)
              else cl_UpdateStatus C s (inst\<lparr>ims_Status := Some currServiceGroups\<rparr>)))"

definition ims_Reconcile ::
  "('s, InferModelService) typed_client \<Rightarrow> 's pod_lister \<Rightarrow> (Pod \<Rightarrow> string option) \<Rightarrow> string \<Rightarrow> string \<Rightarrow> 's
   \<Rightarrow> go_error option \<times> 's" where
  "ims_Reconcile C listPods controllerOf ns n s =
     (case cl_Get C s ns n of
        Inl err \<Rightarrow> (IgnoreNotFound err, s)
      | Inr inst \<Rightarrow>
          if \<not> ims_Deleting inst then
            if \<not> HasString (ims_Finalizers inst) IMSFinalizer then
              (case cl_Patch C s inst (inst\<lparr>ims_Finalizers := ims_Finalizers inst @ [IMSFinalizer]\<rparr>) of
                 (Inl err, s1) \<Rightarrow> (Some err, s1)
               | (Inr inst1, s1) \<Rightarrow> ims_doReconcile C listPods controllerOf inst1 s1)
            else ims_doReconcile C listPods controllerOf inst s
          else if \<not> HasString (ims_Finalizers inst) IMSFinalizer then (None, s)
          else (case cl_Patch C s inst (inst\<lparr>ims_Finalizers := RemoveString (ims_Finalizers inst) IMSFinalizer\<rparr>) of
                  (Inl err, s1) \<Rightarrow> (Some err, s1)
                | (Inr _, s1) \<Rightarrow> (None, s1)))"

text \<open>
  \<open>reportServiceGroup\<close>: the service to reconcile when a deployment changes, from the labels of its pod template.
  \<open>getDeploy\<close> reads the deployment by namespace and name.
\<close>

definition reportServiceGroup ::
  "('s \<Rightarrow> string \<Rightarrow> string \<Rightarrow> K8sDeployment go_result) \<Rightarrow> string \<Rightarrow> string \<Rightarrow> 's \<Rightarrow> (string \<times> string) list" where
  "reportServiceGroup getDeploy ns n s =
     (case getDeploy s ns n of
        Inl err \<Rightarrow> []
      | Inr deployment \<Rightarrow>
          (case pt_Labels (dp_Template deployment) of
             None \<Rightarrow> []
           | Some podLabels \<Rightarrow>
               if podLabels WebhookProxyInjectLabel \<noteq> Some WebhookInjectEnable then []
               else (case podLabels ServerDeployNameLabel of
                       None \<Rightarrow> []
                     | Some serverName \<Rightarrow>
                         (case podLabels ServerDeployNamespaceLabel of
                            None \<Rightarrow> []
                          | Some serverNamespace \<Rightarrow> [(serverNamespace, serverName)]))))"

section \<open>The status\<close>

text \<open>
  What the status should say: an entry for every configured group; it is used when a client pod names the
  group, and the client is then the owner of the last such pod.
\<close>

definition client_of :: "string \<Rightarrow> Pod list \<Rightarrow> Pod option" where
  "client_of g pods =
     (let ps = filter (\<lambda>p. pod_Labels p ProxyServiceGroupLabel = Some g) pods in if ps = [] then None else Some (last ps))"

definition status_spec :: "(Pod \<Rightarrow> string) \<Rightarrow> ServiceGroup list \<Rightarrow> Pod list \<Rightarrow> string \<rightharpoonup> ServiceGroupItem" where
  "status_spec owner groups pods g =
     (if g \<notin> sg_Name ` set groups then None
      else Some (case client_of g pods of
                   None \<Rightarrow> unused_item g
                 | Some p \<Rightarrow> \<lparr>sgi_Name = g, sgi_Client = owner p, sgi_IsUsed = True\<rparr>))"

lemma GetDesireServiceGroups_eq:
  "GetDesireServiceGroups inst g =
     (if g \<in> sg_Name ` set (eb_ServiceGroups (ims_BrokerConfig inst)) then Some (unused_item g) else None)"
proof -
  have "foldl (\<lambda>m grp. m(sg_Name grp \<mapsto> unused_item (sg_Name grp))) m gs g =
      (if g \<in> sg_Name ` set gs then Some (unused_item g) else m g)" for m and gs :: "ServiceGroup list"
    by (induction gs arbitrary: m) auto
  then show ?thesis by (simp add: GetDesireServiceGroups_def)
qed

lemma client_of_Cons:
  "client_of g (p # pods) =
     (case client_of g pods of Some q \<Rightarrow> Some q
      | None \<Rightarrow> if pod_Labels p ProxyServiceGroupLabel = Some g then Some p else None)"
  by (auto simp: client_of_def Let_def)

lemma mark_used_eq:
  "mark_used owner pods m g =
     (if m g = None then None
      else case client_of g pods of
             None \<Rightarrow> m g | Some p \<Rightarrow> Some \<lparr>sgi_Name = g, sgi_Client = owner p, sgi_IsUsed = True\<rparr>)"
proof (induction pods arbitrary: m)
  case Nil
  then show ?case by (simp add: client_of_def)
next
  case (Cons pod pods)
  then show ?case by (auto simp: client_of_Cons split: option.splits)
qed

lemma status_computed:
  "mark_used owner pods (GetDesireServiceGroups inst) =
     status_spec owner (eb_ServiceGroups (ims_BrokerConfig inst)) pods"
  by (rule ext) (simp add: mark_used_eq GetDesireServiceGroups_eq status_spec_def split: option.splits)

section \<open>The finalizer\<close>

interpretation ims: finalized C ims_Namespace ims_Name ims_Deleting ims_Finalizers
  "\<lambda>fs i. i\<lparr>ims_Finalizers := fs\<rparr>" IMSFinalizer "ims_doReconcile C listPods controllerOf" "\<lambda>i s. s"
  "ims_Reconcile C listPods controllerOf"
  for C :: "('s, InferModelService) typed_client" and listPods :: "'s pod_lister" and controllerOf
  by unfold_locales (simp_all add: ims_Reconcile_def HasString_iff split: sum.splits)

abbreviation ims_client_ok ::
  "('s, InferModelService) typed_client \<Rightarrow> 's pod_lister \<Rightarrow> bool" where
  "ims_client_ok C listPods \<equiv> client_ok C ims_Namespace ims_Name (\<lambda>i. ims_Deleting i \<and> ims_Finalizers i = []) listPods"

lemma ims_work_done:
  assumes ok: "ims_client_ok C listPods" and i: "cl_Get C s ns n = Inr i"
    and pods: "listPods s (client_selector i) = Inr pods"
    and r: "ims_doReconcile C listPods controllerOf i s = (None, s')"
  shows "cl_Get C s' ns n = Inr (i\<lparr>ims_Status :=
       Some (status_spec (GetPodOwnerRefName controllerOf pod_Name) (eb_ServiceGroups (ims_BrokerConfig i)) pods)\<rparr>)"
    and "listPods s' = listPods s"
proof -
  let ?st = "Some (status_spec (GetPodOwnerRefName controllerOf pod_Name) (eb_ServiceGroups (ims_BrokerConfig i)) pods)"
  have "cl_Get C s' ns n = Inr (i\<lparr>ims_Status := ?st\<rparr>) \<and> listPods s' = listPods s"
  proof (cases "ims_Status i = ?st")
    case True
    with r pods have "s' = s" by (simp add: ims_doReconcile_def status_computed)
    moreover have "i\<lparr>ims_Status := ?st\<rparr> = i" using True by simp
    ultimately show ?thesis using i by (simp only:)
  next
    case False
    with r pods have "cl_UpdateStatus C s (i\<lparr>ims_Status := ?st\<rparr>) = (None, s')"
      by (simp add: ims_doReconcile_def status_computed)
    from client_ok_UpdateStatus [OF ok this] show ?thesis using client_ok_Get [OF ok i] by simp
  qed
  then show "cl_Get C s' ns n = Inr (i\<lparr>ims_Status := ?st\<rparr>)" "listPods s' = listPods s" by simp_all
qed

section \<open>Properties\<close>


definition sample_client_pod :: Pod where
  "sample_client_pod =
     \<lparr>pod_Name = ''client-1'', pod_GenerateName = [], pod_Namespace = ''apps'',
      pod_Labels = [ProxyServiceGroupLabel \<mapsto> ''gold''], pod_Annotations = None, pod_OwnerReferences = [],
      pod_InitContainers = [], pod_Containers = [], pod_Volumes = []\<rparr>"

abbreviation ims_store :: "(InferModelService list, InferModelService) typed_client" where
  "ims_store \<equiv> store_client ims_Namespace ims_Name ims_Labels (\<lambda>i. ims_Deleting i \<and> ims_Finalizers i = [])"

lemma sample_ims_fields [simp]:
  "ims_Namespace sample_ims = ''models''" "ims_Name sample_ims = ''yolo''" "\<not> ims_Deleting sample_ims"
  "ims_Finalizers sample_ims = []" "ims_Status sample_ims = None"
  by (simp_all add: sample_ims_def)


text \<open>
  Deletion of an infer model service. When \<open>Reconcile\<close> of a service that is being deleted and holds the
  controller's finalizer succeeds, that finalizer and no other is gone, the service itself is gone when no
  finalizer was left, and reconciling it again changes nothing and reports no error.
\<close>

theorem ims_release_once:
  assumes "ims_client_ok C listPods" and "cl_Get C s ns n = Inr i" and "ims_Deleting i"
    and "IMSFinalizer \<in> set (ims_Finalizers i)"
    and "ims_Reconcile C listPods controllerOf ns n s = (None, s')"
  shows "(if filter (\<lambda>f. f \<noteq> IMSFinalizer) (ims_Finalizers i) = [] then \<exists>m. cl_Get C s' ns n = Inl (NotFound m)
      else \<exists>j. cl_Get C s' ns n = Inr j \<and> ims_Finalizers j = filter (\<lambda>f. f \<noteq> IMSFinalizer) (ims_Finalizers i)) \<and>
    ims_Reconcile C listPods controllerOf ns n s' = (None, s')"
  by (rule ims.release_once [OF assms])

theorem ims_release_once_witness:
  "\<exists>s' m. ims_Reconcile ims_store (\<lambda>s sel. Inr []) (\<lambda>_. None) ''models'' ''yolo''
       [sample_ims\<lparr>ims_Deleting := True, ims_Finalizers := [IMSFinalizer]\<rparr>] = (None, s') \<and>
     cl_Get ims_store s' ''models'' ''yolo'' = Inl (NotFound m)"
proof -
  let ?i = "sample_ims\<lparr>ims_Deleting := True, ims_Finalizers := [IMSFinalizer]\<rparr>"
  let ?pods = "\<lambda>(s :: InferModelService list) (sel :: (string \<times> string) list). Inr [] :: Pod list go_result"
  have ok: "ims_client_ok ims_store ?pods" by (rule store_client_ok)
  have g: "cl_Get ims_store [?i] ''models'' ''yolo'' = Inr ?i" by (simp add: store_client_def)
  obtain s' where s': "ims_Reconcile ims_store ?pods (\<lambda>_. None) ''models'' ''yolo'' [?i] = (None, s')"
    by (simp add: ims_Reconcile_def store_client_def same_key_def)
  from ims_release_once [OF ok g _ _ s'] s' show ?thesis by auto
qed

end
