(* ===== verification/Im_Template.thy ===== *)
theory Im_Template
  imports Kube
begin

text \<open>
  \<open>pkg/controllers/imtemplate\<close>: the controller of infer model templates. It copies the service groups of a
  template to every version of the template, and cleans up when the template is deleted. The client for
  templates has the laws of \<open>client_ok\<close>, the one for versions those of \<open>versions_ok\<close>.
\<close>

section \<open>Operations\<close>

definition template_selector :: "InferModelTemplate \<Rightarrow> (string \<times> string) list" where
  "template_selector inst = [(LabelIMTemplate, imt_Name inst)]"

fun sync_loop ::
  "('s, InferModelTemplateVersion) typed_client \<Rightarrow> (string \<rightharpoonup> int) option \<Rightarrow> InferModelTemplateVersion list \<Rightarrow> 's
   \<Rightarrow> go_error option \<times> 's" where
  "sync_loop V groups [] s = (None, s)"
| "sync_loop V groups (item # items) s =
     (if imv_ServiceGroup item = groups then sync_loop V groups items s
      else (case cl_Update V s (item\<lparr>imv_ServiceGroup := groups\<rparr>) of
              (None, s') \<Rightarrow> sync_loop V groups items s'
            | (Some err, s') \<Rightarrow> (Some err, s')))"

definition imt_doReconcile ::
  "('s, InferModelTemplateVersion) typed_client \<Rightarrow> InferModelTemplate \<Rightarrow> 's \<Rightarrow> go_error option \<times> 's" where
  "imt_doReconcile V inst s =
     (case cl_List V s (template_selector inst) [] of
        Inl err \<Rightarrow> (Some err, s)
      | Inr items \<Rightarrow> sync_loop V (imt_ServiceGroup inst) items s)"

text \<open>The clean-up lists \<^emph>\<open>templates\<close> by the label that versions carry; the last error is the result.\<close>

fun delete_loop ::
  "('s, InferModelTemplate) typed_client \<Rightarrow> InferModelTemplate list \<Rightarrow> go_error option \<Rightarrow> 's \<Rightarrow> go_error option \<times> 's" where
  "delete_loop T [] err s = (err, s)"
| "delete_loop T (item # items) err s = (let (err', s') = cl_Delete T s item in delete_loop T items err' s')"

definition imt_undoReconcile ::
  "('s, InferModelTemplate) typed_client \<Rightarrow> InferModelTemplate \<Rightarrow> 's \<Rightarrow> go_error option \<times> 's" where
  "imt_undoReconcile T inst s =
     (case cl_List T s (template_selector inst) [] of
        Inl err \<Rightarrow> (Some err, s)
      | Inr items \<Rightarrow> delete_loop T items None s)"

definition imt_Reconcile ::
  "('s, InferModelTemplate) typed_client \<Rightarrow> ('s, InferModelTemplateVersion) typed_client \<Rightarrow> string \<Rightarrow> string \<Rightarrow> 's
   \<Rightarrow> go_error option \<times> 's" where
  "imt_Reconcile T V ns n s =
     (case cl_Get T s ns n of
        Inl err \<Rightarrow> (IgnoreNotFound err, s)
      | Inr inst \<Rightarrow>
          if \<not> imt_Deleting inst then
            if \<not> HasString (imt_Finalizers inst) IMTFinalizer then
              (case cl_Patch T s inst (inst\<lparr>imt_Finalizers := imt_Finalizers inst @ [IMTFinalizer]\<rparr>) of
                 (Inl err, s1) \<Rightarrow> (Some err, s1)
               | (Inr inst1, s1) \<Rightarrow> imt_doReconcile V inst1 s1)
            else imt_doReconcile V inst s
          else if \<not> HasString (imt_Finalizers inst) IMTFinalizer then (None, s)
          else (let (_, s0) = imt_undoReconcile T inst s   \<comment> \<open>its error is only logged\<close>
                in case cl_Patch T s0 inst (inst\<lparr>imt_Finalizers := RemoveString (imt_Finalizers inst) IMTFinalizer\<rparr>) of
                     (Inl err, s1) \<Rightarrow> (Some err, s1)
                   | (Inr _, s1) \<Rightarrow> (None, s1)))"

definition syncServiceGroup :: "labels \<Rightarrow> string list" where
  "syncServiceGroup versionLabels =
     (case versionLabels LabelIMTemplate of None \<Rightarrow> [] | Some imTemplateName \<Rightarrow> [imTemplateName])"

section \<open>The versions\<close>

text \<open>
  Without concurrent writers: the versions have distinct names, and updating a version that is listed, with
  its labels unchanged, replaces it in the list and changes no template.
\<close>

definition version_put :: "InferModelTemplateVersion \<Rightarrow> InferModelTemplateVersion list \<Rightarrow> InferModelTemplateVersion list" where
  "version_put v xs = map (\<lambda>x. if imv_Name x = imv_Name v then v else x) xs"

definition versions_ok ::
  "('s, InferModelTemplateVersion) typed_client \<Rightarrow> ('s, InferModelTemplate) typed_client \<Rightarrow> bool" where
  "versions_ok V T \<longleftrightarrow>
     (\<forall>s sel ns xs. cl_List V s sel ns = Inr xs \<longrightarrow> distinct (map imv_Name xs)) \<and>
     (\<forall>s sel ns xs v s'. cl_List V s sel ns = Inr xs \<and> cl_Update V s v = (None, s') \<and>
        (\<exists>x \<in> set xs. imv_Name x = imv_Name v \<and> imv_Labels x = imv_Labels v) \<longrightarrow>
        cl_List V s' sel ns = Inr (version_put v xs) \<and> cl_Get T s' = cl_Get T s)"

lemma versions_okD:
  assumes "versions_ok V T" and "cl_List V s sel ns = Inr xs"
  shows "distinct (map imv_Name xs)"
    and "cl_Update V s v = (None, s') \<Longrightarrow> x \<in> set xs \<Longrightarrow> imv_Name x = imv_Name v \<Longrightarrow> imv_Labels x = imv_Labels v \<Longrightarrow>
         cl_List V s' sel ns = Inr (version_put v xs) \<and> cl_Get T s' = cl_Get T s"
  using assms unfolding versions_ok_def by blast+

definition with_groups :: "(string \<rightharpoonup> int) option \<Rightarrow> InferModelTemplateVersion \<Rightarrow> InferModelTemplateVersion" where
  "with_groups groups v = v\<lparr>imv_ServiceGroup := groups\<rparr>"

lemma version_put_with_groups:
  assumes "distinct (map imv_Name (pre @ v # rest))"
  shows "version_put (with_groups groups v) (map (with_groups groups) pre @ v # rest) =
     map (with_groups groups) (pre @ [v]) @ rest"
proof -
  have "imv_Name x \<noteq> imv_Name v" if "x \<in> set pre \<union> set rest" for x
    using assms that by (auto simp: image_iff)
  then show ?thesis by (auto simp: version_put_def with_groups_def intro!: map_idI)
qed

lemma sync_loop_done:
  assumes "versions_ok V T" and "cl_List V s sel ns = Inr (map (with_groups groups) pre @ items)"
    and "distinct (map imv_Name (pre @ items))" and "sync_loop V groups items s = (None, s')"
  shows "cl_List V s' sel ns = Inr (map (with_groups groups) (pre @ items)) \<and> cl_Get T s' = cl_Get T s"
  using assms(2-)
proof (induction items arbitrary: s pre)
  case Nil
  then show ?case by simp
next
  case (Cons v rest)
  have d: "distinct (map imv_Name ((pre @ [v]) @ rest))" using Cons.prems(2) by simp
  show ?case
  proof (cases "imv_ServiceGroup v = groups")
    case True
    then have "with_groups groups v = v" by (simp add: with_groups_def)
    then have "cl_List V s sel ns = Inr (map (with_groups groups) (pre @ [v]) @ rest)" using Cons.prems(1) by simp
    from Cons.IH [OF this d] True Cons.prems(3) show ?thesis by simp
  next
    case False
    with Cons.prems(3) obtain s1 where u: "cl_Update V s (with_groups groups v) = (None, s1)" "sync_loop V groups rest s1 = (None, s')"
      by (auto simp: with_groups_def split: prod.splits option.splits)
    have "v \<in> set (map (with_groups groups) pre @ v # rest)" "imv_Name v = imv_Name (with_groups groups v)"
      "imv_Labels v = imv_Labels (with_groups groups v)" by (simp_all add: with_groups_def)
    note put = versions_okD(2) [OF assms(1) Cons.prems(1) u(1) this, unfolded version_put_with_groups [OF Cons.prems(2)]]
    from Cons.IH [OF put [THEN conjunct1] d u(2)] put show ?thesis by simp
  qed
qed

lemma sync_loop_idle: "\<forall>x \<in> set items. imv_ServiceGroup x = groups \<Longrightarrow> sync_loop V groups items s = (None, s)"
  by (induction items) auto

section \<open>Properties\<close>

interpretation imt: finalized T "\<lambda>_. []" imt_Name imt_Deleting imt_Finalizers
  "\<lambda>fs i. i\<lparr>imt_Finalizers := fs\<rparr>" IMTFinalizer "imt_doReconcile V" "\<lambda>i s. snd (imt_undoReconcile T i s)"
  "imt_Reconcile T V"
  for T :: "('s, InferModelTemplate) typed_client" and V :: "('s, InferModelTemplateVersion) typed_client"
  by unfold_locales
    (simp_all add: imt_Reconcile_def HasString_iff case_prod_unfold Let_def split: sum.splits)

abbreviation imt_client_ok ::
  "('s, InferModelTemplate) typed_client \<Rightarrow> ('s, InferModelTemplateVersion) typed_client \<Rightarrow> bool" where
  "imt_client_ok T V \<equiv> client_ok T (\<lambda>_. []) imt_Name (\<lambda>i. imt_Deleting i \<and> imt_Finalizers i = []) (cl_List V)"

text \<open>
  C33. The controller of infer model templates converges. When \<open>Reconcile\<close> of a template that is not being deleted
  returns without error, the template holds the controller's finalizer, every version of it that was listed is
  listed again with the template's service groups and otherwise unchanged, and reconciling again writes nothing.
\<close>

theorem imt_converges:
  assumes "imt_client_ok T V" and "versions_ok V T" and "cl_Get T s [] n = Inr t" and "\<not> imt_Deleting t"
    and "imt_Reconcile T V [] n s = (None, s')" and "cl_List V s (template_selector t) [] = Inr versions"
  shows "cl_List V s' (template_selector t) [] =
      Inr (map (\<lambda>v. v\<lparr>imv_ServiceGroup := imt_ServiceGroup t\<rparr>) versions) \<and>
    (\<exists>u. cl_Get T s' [] n = Inr u \<and> IMTFinalizer \<in> set (imt_Finalizers u) \<and> imt_ServiceGroup u = imt_ServiceGroup t) \<and>
    imt_Reconcile T V [] n s' = (None, s')"
proof -
  obtain u s1 where u: "cl_Get T s1 [] n = Inr u" "\<not> imt_Deleting u" "IMTFinalizer \<in> set (imt_Finalizers u)"
      "imt_doReconcile V u s1 = (None, s')" "cl_List V s1 = cl_List V s"
      "u = t \<or> u = t\<lparr>imt_Finalizers := imt_Finalizers t @ [IMTFinalizer]\<rparr>"
    by (rule imt.work_adopted [OF assms(1,3,4,5)])
  have same: "template_selector u = template_selector t" "imt_ServiceGroup u = imt_ServiceGroup t"
    using u(6) by (auto simp: template_selector_def)
  have l: "cl_List V s1 (template_selector t) [] = Inr versions" using assms(6) by (simp add: u(5))
  then have "sync_loop V (imt_ServiceGroup t) versions s1 = (None, s')"
    using u(4) by (simp add: imt_doReconcile_def same)
  from sync_loop_done [OF assms(2), of s1 _ _ _ "[]", simplified, OF l versions_okD(1) [OF assms(2) l] this]
  have fin: "cl_List V s' (template_selector t) [] = Inr (map (with_groups (imt_ServiceGroup t)) versions)"
    "cl_Get T s' = cl_Get T s1" by simp_all
  have "imt_Reconcile T V [] n s' = imt_doReconcile V u s'"
    using imt.present [of T s' "[]" n u V] u(1-3) by (simp add: fin(2))
  also have "\<dots> = (None, s')"
    by (simp add: imt_doReconcile_def same fin(1) sync_loop_idle with_groups_def)
  finally show ?thesis using fin u(1,3) same by (auto simp: with_groups_def [abs_def])
qed

definition template_store :: "(InferModelTemplate list \<times> InferModelTemplateVersion list, InferModelTemplate) typed_client" where
  "template_store = via fst (\<lambda>t s. (t, snd s))
     (store_client (\<lambda>_. []) imt_Name imt_Labels (\<lambda>i. imt_Deleting i \<and> imt_Finalizers i = []))"

text \<open>A store of versions that lists each name once.\<close>

definition version_store :: "(InferModelTemplate list \<times> InferModelTemplateVersion list, InferModelTemplateVersion) typed_client" where
  "version_store = (via snd (\<lambda>v s. (fst s, v)) (store_client (\<lambda>_. []) imv_Name imv_Labels (\<lambda>_. False)))
     \<lparr>cl_List := \<lambda>s sel ns. if distinct (map imv_Name (snd s)) then Inr (filter (\<lambda>x. selects sel (imv_Labels x)) (snd s))
                           else Inl (OtherErr ''conflict'')\<rparr>"

lemma template_store_ok: "imt_client_ok template_store version_store"
  unfolding template_store_def by (rule via_ok [OF store_client_ok]) (simp_all add: version_store_def fun_eq_iff)

lemma map_version_put: "map imv_Name (version_put v xs) = map imv_Name xs"
  by (simp add: version_put_def)

lemma store_put_versions: "store_put (\<lambda>_. []) imv_Name v xs = version_put v xs"
  by (simp add: store_put_def version_put_def same_key_def)

lemma filter_version_put:
  assumes "distinct (map imv_Name xs)" and "x \<in> set xs" and "imv_Name x = imv_Name v" and "imv_Labels x = imv_Labels v"
  shows "filter (\<lambda>y. selects sel (imv_Labels y)) (version_put v xs) = version_put v (filter (\<lambda>y. selects sel (imv_Labels y)) xs)"
proof -
  have "imv_Labels y = imv_Labels v" if "y \<in> set xs" "imv_Name y = imv_Name v" for y
    using assms that by (metis distinct_map inj_onD)
  then have "filter (\<lambda>y. selects sel (imv_Labels y)) (map (\<lambda>x. if imv_Name x = imv_Name v then v else x) ys) =
      map (\<lambda>x. if imv_Name x = imv_Name v then v else x) (filter (\<lambda>y. selects sel (imv_Labels y)) ys)"
    if "set ys \<subseteq> set xs" for ys
    using that by (induction ys) auto
  then show ?thesis by (simp add: version_put_def)
qed

lemma version_store_ok: "versions_ok version_store template_store"
  unfolding versions_ok_def
proof (intro conjI allI impI, goal_cases)
  case (1 s sel ns xs)
  then have "distinct (map imv_Name (snd s))" "xs = filter (\<lambda>x. selects sel (imv_Labels x)) (snd s)"
    by (auto simp: version_store_def split: if_splits)
  then show ?case by (simp add: distinct_map_filter)
next
  case (2 s sel ns xs v s')
  then have d: "distinct (map imv_Name (snd s))" "xs = filter (\<lambda>x. selects sel (imv_Labels x)) (snd s)"
    by (auto simp: version_store_def split: if_splits)
  obtain x where x: "x \<in> set (snd s)" "imv_Name x = imv_Name v" "imv_Labels x = imv_Labels v" using 2 d(2) by auto
  have "s' = (fst s, version_put v (snd s))"
    using 2 x by (auto simp: version_store_def via_def store_client_def store_put_versions split: if_splits)
  then show ?case
    using filter_version_put [OF d(1) x] d by (simp add: version_store_def map_version_put)
next
  case (3 s sel ns xs v s')
  then show ?case by (auto simp: version_store_def template_store_def via_def split: prod.splits)
qed

definition sample_template :: InferModelTemplate where
  "sample_template = \<lparr>imt_Name = ''yolo'', imt_Labels = Map.empty, imt_Finalizers = [], imt_Deleting = False,
     imt_ServiceGroup = Some [''gold'' \<mapsto> 3]\<rparr>"

definition sample_version :: InferModelTemplateVersion where
  "sample_version = \<lparr>imv_Name = ''yolo-v1'', imv_Labels = [LabelIMTemplate \<mapsto> ''yolo''], imv_Version = ''v1'',
     imv_ServiceGroup = None, imv_rest = []\<rparr>"

theorem imt_converges_witness:
  "\<exists>s'. imt_Reconcile template_store version_store [] ''yolo'' ([sample_template], [sample_version]) = (None, s') \<and>
     cl_List version_store s' [(LabelIMTemplate, ''yolo'')] [] = Inr [sample_version\<lparr>imv_ServiceGroup := Some [''gold'' \<mapsto> 3]\<rparr>]"
proof -
  let ?s = "([sample_template], [sample_version])"
  have g: "cl_Get template_store ?s [] ''yolo'' = Inr sample_template"
    by (simp add: template_store_def via_def store_client_def sample_template_def)
  have l: "cl_List version_store ?s (template_selector sample_template) [] = Inr [sample_version]"
    by (simp add: version_store_def template_selector_def selects_def sample_template_def sample_version_def)
  obtain s' where s': "imt_Reconcile template_store version_store [] ''yolo'' ?s = (None, s')"
    by (simp add: imt_Reconcile_def imt_doReconcile_def template_store_def version_store_def via_def store_client_def
        same_key_def store_put_def template_selector_def selects_def sample_template_def sample_version_def)
  from imt_converges [OF template_store_ok version_store_ok g _ s' l] s' show ?thesis
    by (auto simp: sample_template_def template_selector_def)
qed

end
