(* ===== verification/Im_Deployment.thy ===== *)
theory Im_Deployment
  imports Kube
begin

text \<open>
  \<open>pkg/controllers/imdeployment\<close>: the controller of infer model deployments. For every selected node it creates one
  infer model service, with the base configuration of the proxy and of the broker and the service groups of
  the template version, and one deployment of the platform from the template.

  Everything called is in the record \<open>imd_env\<close>: the clients of the kinds involved, reading a config map, the
  current namespace, the YAML decoder and SHA-256. The two loops over maps take their order as an argument.
\<close>

section \<open>The environment\<close>

record 's imd_env =
  ie_deployments :: "('s, InferModelDeployment) typed_client"
  ie_versions :: "('s, InferModelTemplateVersion) typed_client"
  ie_services :: "('s, InferModelService) typed_client"
  ie_workloads :: "('s, K8sDeployment) typed_client"
  ie_getConfigMap :: "'s \<Rightarrow> string \<Rightarrow> string \<Rightarrow> ConfigMap go_result"
  ie_currentNamespace :: "string go_result"
  ie_yamlProxy :: "string \<Rightarrow> EdgeQosProxyConfig go_result"
  ie_yamlBroker :: "string \<Rightarrow> EdgeQosBrokerConfig go_result"
  ie_sha256 :: "string \<Rightarrow> 8 word list"

section \<open>Names and workloads\<close>

definition SafeConcatName :: "(string \<Rightarrow> 8 word list) \<Rightarrow> string list \<Rightarrow> string" where
  "SafeConcatName sha256 name =
     (let fullPath = Join name ''-''
      in if length fullPath > 63
         then ReplaceAll (take 52 fullPath @ ''-'' @ take 10 (hex_bytes (sha256 fullPath))) ''.-'' ''-''
         else fullPath)"

definition uniqueName :: "ModelNodeSelector \<Rightarrow> string" where
  "uniqueName item = mns_NodeGroup item @ ''-'' @ mns_NodeName item"

definition getWorkloadInfos :: "InferModelDeployment \<Rightarrow> string \<rightharpoonup> ModelNodeSelector" where
  "getWorkloadInfos inst = foldl (\<lambda>result item. result(uniqueName item \<mapsto> item)) Map.empty (imd_NodeSelectors inst)"

section \<open>Base configuration\<close>

definition loadProxyCM :: "'s imd_env \<Rightarrow> 's \<Rightarrow> EdgeQosProxyConfig go_result" where
  "loadProxyCM E s =
     (case ie_currentNamespace E of
        Inl err \<Rightarrow> Inl err
      | Inr currNamespace \<Rightarrow>
          (case ie_getConfigMap E s currNamespace ProxyConfigCM of
             Inl err \<Rightarrow> Inl err
           | Inr baseProxyCM \<Rightarrow>
               if cm_Data baseProxyCM = Map.empty
               then Inl (Errorf (''base proxy configMap '' @ ProxyConfigCM @ '' data is empty''))
               else (case cm_Data baseProxyCM EdgeQosProxyConfigName of
                       None \<Rightarrow> Inl (Errorf (EdgeQosProxyConfigName @ '' is empty in base proxy configmap''))
                     | Some configContent \<Rightarrow> ie_yamlProxy E configContent)))"

text \<open>\<open>int32(weight)\<close> keeps the low 32 bits; \<open>gs\<close> is the order of the range over the service groups.\<close>

definition version_groups :: "string list \<Rightarrow> (string \<rightharpoonup> int) option \<Rightarrow> ServiceGroup list" where
  "version_groups gs groups =
     map (\<lambda>n. \<lparr>sg_Name = n, sg_Reclaimable = False,
               sg_Weight = word_of_int (case groups of Some m \<Rightarrow> the (m n) | None \<Rightarrow> 0)\<rparr>) gs"

definition loadBrokerCM :: "'s imd_env \<Rightarrow> string list \<Rightarrow> InferModelTemplateVersion \<Rightarrow> 's \<Rightarrow> EdgeQosBrokerConfig go_result" where
  "loadBrokerCM E gs templateVersion s =
     (case ie_currentNamespace E of
        Inl err \<Rightarrow> Inl err
      | Inr currNamespace \<Rightarrow>
          (case ie_getConfigMap E s currNamespace BrokerConfigCM of
             Inl err \<Rightarrow> Inl err
           | Inr baseBrokerCM \<Rightarrow>
               if cm_Data baseBrokerCM = Map.empty
               then Inl (Errorf (''base broker configMap '' @ BrokerConfigCM @ '' data is empty''))
               else (case cm_Data baseBrokerCM EdgeQosBrokerConfigName of
                       None \<Rightarrow> Inl (Errorf (EdgeQosBrokerConfigName @ '' is empty in base broker configmap''))
                     | Some configContent \<Rightarrow>
                         map_sum id (\<lambda>brokerConf. brokerConf\<lparr>eb_ServiceGroups :=
                             version_groups gs (imv_ServiceGroup templateVersion)\<rparr>) (ie_yamlBroker E configContent))))"

section \<open>Services\<close>

definition workload_label :: "labels \<Rightarrow> string" where
  "workload_label ls = (case ls LabelWorkload of None \<Rightarrow> [] | Some w \<Rightarrow> w)"

text \<open>\<open>svcCache\<close> and \<open>deployCache\<close>: the workloads of the listed objects, with the objects' names.\<close>

definition workload_cache :: "('o \<Rightarrow> labels) \<Rightarrow> ('o \<Rightarrow> string) \<Rightarrow> 'o list \<Rightarrow> string \<rightharpoonup> string" where
  "workload_cache labelsOf nameOf items =
     foldl (\<lambda>cache x. if workload_label (labelsOf x) \<noteq> [] then cache(workload_label (labelsOf x) \<mapsto> nameOf x) else cache)
       Map.empty items"

definition common_labels :: "InferModelDeployment \<Rightarrow> ModelNodeSelector \<Rightarrow> string \<Rightarrow> (string \<times> string) list" where
  "common_labels imDeploy sel name =
     [(''app'', name), (LabelNodeGroup, mns_NodeGroup sel), (LabelNode, mns_NodeName sel),
      (LabelIMTemplate, imd_IMTemplateName imDeploy), (LabelIMTemplateVersion, imd_Version imDeploy),
      (LabelIMDeployment, imd_Name imDeploy)]"

definition new_service ::
  "InferModelDeployment \<Rightarrow> EdgeQosProxyConfig \<Rightarrow> EdgeQosBrokerConfig \<Rightarrow> string \<Rightarrow> string \<Rightarrow> ModelNodeSelector \<Rightarrow> InferModelService" where
  "new_service imDeploy proxyConfig brokerConfig name workload sel =
     \<lparr>ims_Name = name, ims_Namespace = mns_Project sel,
      ims_Labels = map_of (common_labels imDeploy sel name @ [(LabelWorkload, workload), (LabelCreator, DefaultCreator)]),
      ims_Annotations = Map.empty, ims_Finalizers = [], ims_Deleting = False,
      ims_OwnerReferences = [\<lparr>or_APIVersion = imd_APIVersion imDeploy, or_Kind = imd_Kind imDeploy,
        or_Name = imd_Name imDeploy, or_UID = imd_UID imDeploy, or_Controller = None\<rparr>],
      ims_BrokerConfig = brokerConfig, ims_ProxyConfig = proxyConfig, ims_HostPort = mns_HostPort sel, ims_Status = None\<rparr>"

text \<open>The loops over the expected workloads, in the order \<open>ws\<close>. An object that exists already is not an error.\<close>

fun service_loop ::
  "'s imd_env \<Rightarrow> InferModelDeployment \<Rightarrow> EdgeQosProxyConfig \<Rightarrow> EdgeQosBrokerConfig \<Rightarrow> (string \<rightharpoonup> string)
   \<Rightarrow> (string \<rightharpoonup> ModelNodeSelector) \<Rightarrow> string list \<Rightarrow> 's \<Rightarrow> go_error option \<times> 's" where
  "service_loop E imDeploy pc bc svcCache expected [] s = (None, s)"
| "service_loop E imDeploy pc bc svcCache expected (workload # ws) s =
     (if svcCache workload \<noteq> None then service_loop E imDeploy pc bc svcCache expected ws s
      else (let name = SafeConcatName (ie_sha256 E) [imd_Name imDeploy, workload]
            in case cl_Create (ie_services E) s (new_service imDeploy pc bc name workload (the (expected workload))) of
                 (None, s') \<Rightarrow> service_loop E imDeploy pc bc svcCache expected ws s'
               | (Some err, s') \<Rightarrow>
                   if IsAlreadyExists err then service_loop E imDeploy pc bc svcCache expected ws s' else (Some err, s')))"

definition deployInferModelServices ::
  "'s imd_env \<Rightarrow> string list \<Rightarrow> string list \<Rightarrow> InferModelDeployment \<Rightarrow> (string \<rightharpoonup> ModelNodeSelector) \<Rightarrow> 's
   \<Rightarrow> go_error option \<times> 's" where
  "deployInferModelServices E gs ws imDeploy expected s =
     (case cl_List (ie_versions E) s [(LabelIMTemplate, imd_IMTemplateName imDeploy), (LabelIMTemplateVersion, imd_Version imDeploy)] [] of
        Inl err \<Rightarrow> (Some err, s)
      | Inr [] \<Rightarrow> (Some (Errorf (''imTemplate ['' @ imd_IMTemplateName imDeploy @ ''] version ['' @ imd_Version imDeploy @ ''] not found'')), s)
      | Inr (version # _) \<Rightarrow>
          (case cl_List (ie_services E) s [(LabelIMDeployment, imd_Name imDeploy)] (imd_Namespace imDeploy) of
             Inl err \<Rightarrow> (Some err, s)
           | Inr services \<Rightarrow>
               (case loadProxyCM E s of
                  Inl err \<Rightarrow> (Some err, s)
                | Inr proxyConfig \<Rightarrow>
                    (case loadBrokerCM E gs version s of
                       Inl err \<Rightarrow> (Some err, s)
                     | Inr brokerConfig \<Rightarrow>
                         service_loop E imDeploy proxyConfig brokerConfig
                           (workload_cache ims_Labels ims_Name services) expected ws s))))"

section \<open>Deployments\<close>

definition default_tolerations :: "Toleration list" where
  "default_tolerations =
     [\<lparr>tol_Key = ''aicp.group/worker'', tol_Operator = ''Exists'', tol_Value = [], tol_Effect = []\<rparr>,
      \<lparr>tol_Key = ''aicp.group/resource_group'', tol_Operator = ''Exists'', tol_Value = [], tol_Effect = []\<rparr>,
      \<lparr>tol_Key = ''node-role.kubernetes.io/edge'', tol_Operator = ''Exists'', tol_Value = [], tol_Effect = ''NoSchedule''\<rparr>,
      \<lparr>tol_Key = ''node.kubernetes.io/unreachable'', tol_Operator = ''Exists'', tol_Value = [], tol_Effect = []\<rparr>]"

definition getCustomConfigToPodTemplate :: "InferModelDeployment \<Rightarrow> PodTemplate" where
  "getCustomConfigToPodTemplate imDeploy =
     (let newPodTemplate = mds_Template (imd_DeploymentSpec imDeploy)
      in newPodTemplate\<lparr>pt_Tolerations := default_tolerations @ pt_Tolerations newPodTemplate\<rparr>)"

definition template_labels :: "InferModelDeployment \<Rightarrow> ModelNodeSelector \<Rightarrow> string \<Rightarrow> (string \<times> string) list" where
  "template_labels inst sel name = common_labels inst sel name @ [(WebhookBrokerInjectLabel, WebhookInjectEnable)]"

definition injectAdditionalLabels ::
  "InferModelDeployment \<Rightarrow> ModelNodeSelector \<Rightarrow> K8sDeployment \<Rightarrow> K8sDeployment" where
  "injectAdditionalLabels inst sel newDeployment =
     (let t = dp_Template newDeployment
      in newDeployment\<lparr>dp_Template := t\<lparr>pt_Labels :=
           Some (MergeLabels (template_labels inst sel (dp_Name newDeployment)) (pt_Labels t))\<rparr>\<rparr>)"

text \<open>
  \<open>MergeLabels\<close> writes into the label map of the template when there is one, and the new deployment shares that
  map with \<open>imDeploy\<close>: \<open>share_labels\<close> is \<open>imDeploy\<close> after the call.
\<close>

definition share_labels :: "InferModelDeployment \<Rightarrow> K8sDeployment \<Rightarrow> InferModelDeployment" where
  "share_labels imDeploy newDeployment =
     (let spec = imd_DeploymentSpec imDeploy
      in if pt_Labels (mds_Template spec) = None then imDeploy
         else imDeploy\<lparr>imd_DeploymentSpec := spec\<lparr>mds_Template := (mds_Template spec)
                \<lparr>pt_Labels := pt_Labels (dp_Template newDeployment)\<rparr>\<rparr>\<rparr>)"

definition new_deployment :: "InferModelDeployment \<Rightarrow> string \<Rightarrow> ModelNodeSelector \<Rightarrow> K8sDeployment" where
  "new_deployment imDeploy name sel =
     (let template = getCustomConfigToPodTemplate imDeploy;
          newDeploy = \<lparr>dp_Name = name, dp_Namespace = imd_Namespace imDeploy, dp_UID = [],
            dp_Labels = map_of (common_labels imDeploy sel name @ [(LabelCreator, DefaultCreator)]),
            dp_Replicas = mds_Replicas (imd_DeploymentSpec imDeploy),
            dp_Template = (if mns_NodeName sel \<noteq> []
               then template\<lparr>pt_NodeSelector := [''kubernetes.io/hostname'' \<mapsto> mns_NodeName sel]\<rparr> else template),
            dp_Strategy = mds_Strategy (imd_DeploymentSpec imDeploy),
            dp_MatchLabels = [''app'' \<mapsto> name, LabelIMDeployment \<mapsto> imd_Name imDeploy]\<rparr>
      in injectAdditionalLabels imDeploy sel newDeploy)"

fun workload_loop ::
  "'s imd_env \<Rightarrow> (string \<rightharpoonup> string) \<Rightarrow> (string \<rightharpoonup> ModelNodeSelector) \<Rightarrow> string list \<Rightarrow> InferModelDeployment \<Rightarrow> 's
   \<Rightarrow> go_error option \<times> 's" where
  "workload_loop E deployCache expected [] imDeploy s = (None, s)"
| "workload_loop E deployCache expected (workload # ws) imDeploy s =
     (if deployCache workload \<noteq> None then workload_loop E deployCache expected ws imDeploy s
      else (let name = SafeConcatName (ie_sha256 E) [imd_Name imDeploy, workload];
                newDeploy = new_deployment imDeploy name (the (expected workload));
                imDeploy' = share_labels imDeploy newDeploy
            in case cl_Create (ie_workloads E) s newDeploy of
                 (None, s') \<Rightarrow> workload_loop E deployCache expected ws imDeploy' s'
               | (Some err, s') \<Rightarrow>
                   if IsAlreadyExists err then workload_loop E deployCache expected ws imDeploy' s' else (Some err, s')))"

definition deployWorkloadDeployments ::
  "'s imd_env \<Rightarrow> string list \<Rightarrow> InferModelDeployment \<Rightarrow> (string \<rightharpoonup> ModelNodeSelector) \<Rightarrow> 's \<Rightarrow> go_error option \<times> 's" where
  "deployWorkloadDeployments E ws imDeploy expected s =
     (case cl_List (ie_workloads E) s [(LabelIMDeployment, imd_Name imDeploy)] (imd_Namespace imDeploy) of
        Inl err \<Rightarrow> (Some err, s)
      | Inr deploys \<Rightarrow> workload_loop E (workload_cache dp_Labels dp_Name deploys) expected ws imDeploy s)"

section \<open>Reconciliation\<close>

text \<open>\<open>ws1\<close> and \<open>ws2\<close> are the orders of the two loops over the expected workloads.\<close>

definition imd_doReconcile ::
  "'s imd_env \<Rightarrow> string list \<Rightarrow> string list \<Rightarrow> string list \<Rightarrow> InferModelDeployment \<Rightarrow> 's \<Rightarrow> go_error option \<times> 's" where
  "imd_doReconcile E gs ws1 ws2 inst s =
     (let expectedWorkloads = getWorkloadInfos inst
      in case deployInferModelServices E gs ws1 inst expectedWorkloads s of
           (Some err, s1) \<Rightarrow> (Some err, s1)
         | (None, s1) \<Rightarrow> deployWorkloadDeployments E ws2 inst expectedWorkloads s1)"

definition imd_Reconcile ::
  "'s imd_env \<Rightarrow> string list \<Rightarrow> string list \<Rightarrow> string list \<Rightarrow> string \<Rightarrow> string \<Rightarrow> 's \<Rightarrow> go_error option \<times> 's" where
  "imd_Reconcile E gs ws1 ws2 ns n s =
     (case cl_Get (ie_deployments E) s ns n of
        Inl err \<Rightarrow> (IgnoreNotFound err, s)
      | Inr inst \<Rightarrow>
          if \<not> imd_Deleting inst then
            if \<not> HasString (imd_Finalizers inst) IMDFinalizer then
              (case cl_Patch (ie_deployments E) s inst (inst\<lparr>imd_Finalizers := imd_Finalizers inst @ [IMDFinalizer]\<rparr>) of
                 (Inl err, s1) \<Rightarrow> (Some err, s1)
               | (Inr inst1, s1) \<Rightarrow> imd_doReconcile E gs ws1 ws2 inst1 s1)
            else imd_doReconcile E gs ws1 ws2 inst s
          else if \<not> HasString (imd_Finalizers inst) IMDFinalizer then (None, s)
          else (case cl_Patch (ie_deployments E) s inst (inst\<lparr>imd_Finalizers := RemoveString (imd_Finalizers inst) IMDFinalizer\<rparr>) of
                  (Inl err, s1) \<Rightarrow> (Some err, s1)
                | (Inr _, s1) \<Rightarrow> (None, s1)))"

section \<open>Lemmas\<close>

interpretation imd: finalized "ie_deployments E" imd_Namespace imd_Name imd_Deleting imd_Finalizers
  "\<lambda>fs i. i\<lparr>imd_Finalizers := fs\<rparr>" IMDFinalizer "imd_doReconcile E gs ws1 ws2" "\<lambda>i s. s"
  "imd_Reconcile E gs ws1 ws2"
  for E :: "'s imd_env" and gs ws1 ws2
  by unfold_locales (simp_all add: imd_Reconcile_def HasString_iff split: sum.splits)

lemma getWorkloadInfos_dom: "dom (getWorkloadInfos inst) = uniqueName ` set (imd_NodeSelectors inst)"
proof -
  have "dom (foldl (\<lambda>m item. m(uniqueName item \<mapsto> item)) m xs) = dom m \<union> uniqueName ` set xs" for m xs
    by (induction xs arbitrary: m) auto
  then show ?thesis by (simp add: getWorkloadInfos_def)
qed

lemma getWorkloadInfos_sound:
  assumes "getWorkloadInfos inst w = Some item"
  shows "item \<in> set (imd_NodeSelectors inst) \<and> uniqueName item = w"
proof -
  have "m w = Some item \<or> item \<in> set xs \<and> uniqueName item = w"
    if "foldl (\<lambda>m item. m(uniqueName item \<mapsto> item)) m xs w = Some item" for m xs
    using that
  proof (induction xs arbitrary: m)
    case (Cons x xs)
    then show ?case using Cons.IH [of "m(uniqueName x \<mapsto> x)"] by (auto split: if_splits)
  qed simp
  from this [of Map.empty] assms show ?thesis by (simp add: getWorkloadInfos_def)
qed

text \<open>
  The label map shared between \<open>imDeploy\<close> and the deployments already built: it can differ from the original
  only at the keys that are written again for every workload, so every deployment is the one that the
  original template gives.
\<close>

definition injected_keys :: "string set" where
  "injected_keys = {''app'', LabelNodeGroup, LabelNode, LabelIMTemplate, LabelIMTemplateVersion, LabelIMDeployment,
     WebhookBrokerInjectLabel}"

definition set_tlabels :: "labels option \<Rightarrow> InferModelDeployment \<Rightarrow> InferModelDeployment" where
  "set_tlabels l a = a\<lparr>imd_DeploymentSpec := (imd_DeploymentSpec a)
     \<lparr>mds_Template := (mds_Template (imd_DeploymentSpec a))\<lparr>pt_Labels := l\<rparr>\<rparr>\<rparr>"

definition tlabels :: "InferModelDeployment \<Rightarrow> labels option" where
  "tlabels a = pt_Labels (mds_Template (imd_DeploymentSpec a))"

definition labels_agree :: "labels option \<Rightarrow> labels option \<Rightarrow> bool" where
  "labels_agree l l' \<longleftrightarrow> (l = None \<longleftrightarrow> l' = None) \<and> (\<forall>m m' k. l = Some m \<and> l' = Some m' \<and> k \<notin> injected_keys \<longrightarrow> m' k = m k)"

lemma template_labels_keys: "fst ` set (template_labels inst sel name) = injected_keys"
  by (auto simp: template_labels_def common_labels_def injected_keys_def)

lemma template_labels_distinct: "distinct (map fst (template_labels inst sel name))"
  by (simp add: template_labels_def common_labels_def label_defs)

lemma MergeLabels_template:
  "MergeLabels (template_labels inst sel name) l = (case l of None \<Rightarrow> Map.empty | Some m \<Rightarrow> m) ++ map_of (template_labels inst sel name)"
  by (rule MergeLabels_eq [OF template_labels_distinct])

lemma dom_template_labels: "dom (map_of (template_labels inst sel name)) = injected_keys"
  by (simp add: dom_map_of_conv_image_fst template_labels_keys)

lemma MergeLabels_agree:
  assumes "labels_agree l l'"
  shows "MergeLabels (template_labels inst sel name) l' = MergeLabels (template_labels inst sel name) l"
proof (rule ext)
  fix k
  show "MergeLabels (template_labels inst sel name) l' k = MergeLabels (template_labels inst sel name) l k"
  proof (cases "k \<in> injected_keys")
    case True
    then have "map_of (template_labels inst sel name) k \<noteq> None"
      using dom_template_labels [of inst sel name] by blast
    then show ?thesis by (auto simp: MergeLabels_template map_add_def split: option.splits)
  next
    case False
    then have "map_of (template_labels inst sel name) k = None"
      using dom_template_labels [of inst sel name] by blast
    then show ?thesis using assms False
      by (auto simp: MergeLabels_template map_add_def labels_agree_def split: option.splits)
  qed
qed

lemma template_labels_set_tlabels [simp]: "template_labels (set_tlabels l a) sel name = template_labels a sel name"
  by (simp add: template_labels_def common_labels_def set_tlabels_def)

lemma new_deployment_agree:
  "labels_agree (tlabels a) l \<Longrightarrow> new_deployment (set_tlabels l a) name sel = new_deployment a name sel"
  using MergeLabels_agree [of "tlabels a" l a sel name]
  by (simp add: new_deployment_def injectAdditionalLabels_def getCustomConfigToPodTemplate_def Let_def)
    (simp add: set_tlabels_def tlabels_def common_labels_def)

lemma share_labels_agree:
  assumes "labels_agree (tlabels a) l"
  shows "\<exists>l'. share_labels (set_tlabels l a) (new_deployment (set_tlabels l a) name sel) = set_tlabels l' a \<and>
    labels_agree (tlabels a) l'"
proof (cases "tlabels a")
  case None
  with assms have "l = None" by (simp add: labels_agree_def)
  with None assms show ?thesis by (intro exI [of _ None]) (simp add: share_labels_def set_tlabels_def Let_def)
next
  case (Some m)
  with assms obtain m1 where l: "l = Some m1" by (auto simp: labels_agree_def)
  let ?l = "Some (MergeLabels (template_labels a sel name) (tlabels a))"
  have d: "pt_Labels (dp_Template (new_deployment a name sel)) = ?l"
    by (simp add: new_deployment_def injectAdditionalLabels_def getCustomConfigToPodTemplate_def tlabels_def Let_def)
  have "k \<notin> injected_keys \<Longrightarrow> MergeLabels (template_labels a sel name) (Some m) k = m k" for k
    using dom_template_labels [of a sel name] by (auto simp: MergeLabels_template map_add_def domIff split: option.splits)
  then have "labels_agree (tlabels a) ?l" by (simp add: labels_agree_def Some)
  then show ?thesis
    unfolding new_deployment_agree [OF assms]
    by (intro exI [of _ ?l]) (simp add: share_labels_def d l Let_def, simp add: set_tlabels_def)
qed

definition uncached :: "(string \<rightharpoonup> string) \<Rightarrow> string list \<Rightarrow> string list" where
  "uncached cache ws = filter (\<lambda>w. cache w = None) ws"

lemma set_tlabels_name [simp]: "imd_Name (set_tlabels l a) = imd_Name a"
  by (simp add: set_tlabels_def)

lemma workload_loop_shared:
  "labels_agree (tlabels a) l \<Longrightarrow>
   workload_loop E cache expected ws (set_tlabels l a) s =
     create_all (ie_workloads E)
       (map (\<lambda>w. new_deployment a (SafeConcatName (ie_sha256 E) [imd_Name a, w]) (the (expected w))) (uncached cache ws)) s"
proof (induction ws arbitrary: l s)
  case (Cons w ws)
  let ?n = "SafeConcatName (ie_sha256 E) [imd_Name a, w]" and ?sel = "the (expected w)"
  obtain l' where l': "share_labels (set_tlabels l a) (new_deployment (set_tlabels l a) ?n ?sel) = set_tlabels l' a"
      "labels_agree (tlabels a) l'" using share_labels_agree [OF Cons.prems] by blast
  note step = l'(1) [unfolded new_deployment_agree [OF Cons.prems]]
  from Cons.IH [OF Cons.prems] Cons.IH [OF l'(2)] show ?case
    by (simp add: uncached_def Let_def step new_deployment_agree [OF Cons.prems] split: prod.split option.split)
qed (simp add: uncached_def)

lemma set_tlabels_same: "set_tlabels (tlabels a) a = a"
  by (simp add: set_tlabels_def tlabels_def)

lemma workload_loop_eq:
  "workload_loop E cache expected ws a s =
     create_all (ie_workloads E)
       (map (\<lambda>w. new_deployment a (SafeConcatName (ie_sha256 E) [imd_Name a, w]) (the (expected w))) (uncached cache ws)) s"
proof -
  have "labels_agree (tlabels a) (tlabels a)" by (auto simp: labels_agree_def)
  from workload_loop_shared [OF this] show ?thesis by (simp add: set_tlabels_same)
qed

lemma service_loop_eq:
  "service_loop E a pc bc cache expected ws s =
     create_all (ie_services E)
       (map (\<lambda>w. new_service a pc bc (SafeConcatName (ie_sha256 E) [imd_Name a, w]) w (the (expected w))) (uncached cache ws)) s"
  by (induction ws arbitrary: s) (auto simp: uncached_def Let_def split: prod.splits option.splits)

lemma workload_cache_sound:
  assumes "workload_cache labelsOf nameOf xs w \<noteq> None"
  shows "\<exists>x \<in> set xs. workload_label (labelsOf x) = w"
proof -
  have "m w \<noteq> None \<or> (\<exists>x \<in> set xs. workload_label (labelsOf x) = w)"
    if "foldl (\<lambda>cache x. if workload_label (labelsOf x) \<noteq> [] then cache(workload_label (labelsOf x) \<mapsto> nameOf x) else cache)
      m xs w \<noteq> None" for m :: "string \<rightharpoonup> string"
    using that
  proof (induction xs arbitrary: m)
    case (Cons x xs)
    show ?case
      using Cons.IH [of "if workload_label (labelsOf x) \<noteq> [] then m(workload_label (labelsOf x) \<mapsto> nameOf x) else m"] Cons.prems
      by (auto split: if_splits)
  qed simp
  from this [of Map.empty] assms show ?thesis by (simp add: workload_cache_def)
qed

text \<open>What the controller relies on: both clients create as \<open>create_ok\<close> says, and neither affects the other's objects.\<close>

definition imd_ok :: "'s imd_env \<Rightarrow> bool" where
  "imd_ok E \<longleftrightarrow>
     create_ok (ie_services E) ims_Namespace ims_Name (\<lambda>s. (cl_Get (ie_workloads E) s, cl_List (ie_workloads E) s)) \<and>
     create_ok (ie_workloads E) dp_Namespace dp_Name (cl_Get (ie_services E))"

definition workload_name :: "'s imd_env \<Rightarrow> InferModelDeployment \<Rightarrow> string \<Rightarrow> string" where
  "workload_name E inst w = SafeConcatName (ie_sha256 E) [imd_Name inst, w]"

lemma new_deployment_key [simp]:
  "dp_Name (new_deployment inst name sel) = name" "dp_Namespace (new_deployment inst name sel) = imd_Namespace inst"
  by (simp_all add: new_deployment_def injectAdditionalLabels_def Let_def)

lemma new_deployment_template:
  "pt_Labels (dp_Template (new_deployment inst name sel)) = Some (MergeLabels (template_labels inst sel name) (tlabels inst))"
  "pt_NodeSelector (dp_Template (new_deployment inst name sel)) =
     (if mns_NodeName sel \<noteq> [] then [''kubernetes.io/hostname'' \<mapsto> mns_NodeName sel]
      else pt_NodeSelector (mds_Template (imd_DeploymentSpec inst)))"
  by (simp_all add: new_deployment_def injectAdditionalLabels_def getCustomConfigToPodTemplate_def tlabels_def Let_def)

lemma injected_label:
  "MergeLabels (template_labels inst sel name) l WebhookBrokerInjectLabel = Some WebhookInjectEnable"
proof -
  have "map_of (template_labels inst sel name) WebhookBrokerInjectLabel = Some WebhookInjectEnable"
    by (simp add: template_labels_def common_labels_def label_defs)
  then show ?thesis unfolding MergeLabels_template by (rule map_add_find_right)
qed

lemma deployInferModelServices_done:
  assumes "deployInferModelServices E gs ws inst expected s = (None, s')"
  obtains version versions services pc bc where
    "cl_List (ie_versions E) s [(LabelIMTemplate, imd_IMTemplateName inst), (LabelIMTemplateVersion, imd_Version inst)] [] = Inr (version # versions)"
    "cl_List (ie_services E) s [(LabelIMDeployment, imd_Name inst)] (imd_Namespace inst) = Inr services"
    "loadProxyCM E s = Inr pc" "loadBrokerCM E gs version s = Inr bc"
    "create_all (ie_services E) (map (\<lambda>w. new_service inst pc bc (workload_name E inst w) w (the (expected w)))
       (uncached (workload_cache ims_Labels ims_Name services) ws)) s = (None, s')"
  using assms that
  by (auto simp: deployInferModelServices_def service_loop_eq workload_name_def split: sum.splits list.splits)

lemma loadBrokerCM_groups:
  "loadBrokerCM E gs version s = Inr bc \<Longrightarrow> eb_ServiceGroups bc = version_groups gs (imv_ServiceGroup version)"
  by (auto simp: loadBrokerCM_def map_sum_def split: sum.splits if_splits option.splits)

section \<open>Properties\<close>

text \<open>
  Names of created objects fit a label: \<open>SafeConcatName\<close> never gives more than 63 characters, whatever the
  digest, and leaves a name of at most 63 characters as it is.
\<close>

theorem safe_name_bound:
  "length (SafeConcatName sha256 name) \<le> 63 \<and>
   (length (Join name ''-'') \<le> 63 \<longrightarrow> SafeConcatName sha256 name = Join name ''-'')"
proof -
  let ?cut = "take 52 (Join name ''-'') @ ''-'' @ take 10 (hex_bytes (sha256 (Join name ''-'')))"
  have "length (ReplaceAll ?cut ''.-'' ''-'') \<le> length ?cut" by (rule length_ReplaceAll_le) simp
  also have "\<dots> \<le> 63" by simp
  finally show ?thesis by (simp add: SafeConcatName_def Let_def)
qed

theorem safe_name_bound_witness:
  "length (Join [''yolo'', ''edge-node1''] ''-'') \<le> 63 \<and> SafeConcatName (\<lambda>_. []) [''yolo'', ''edge-node1''] = ''yolo-edge-node1''"
  using safe_name_bound [of "\<lambda>_. []" "[''yolo'', ''edge-node1'']"] by simp

text \<open>The service and the deployment of one workload.\<close>

definition service_present ::
  "'s imd_env \<Rightarrow> string list \<Rightarrow> InferModelDeployment \<Rightarrow> string \<Rightarrow> ModelNodeSelector \<Rightarrow> 's \<Rightarrow> 's \<Rightarrow> bool" where
  "service_present E gs inst w sel s s' \<longleftrightarrow>
     (\<exists>x. cl_Get (ie_services E) s' (mns_Project sel) (workload_name E inst w) = Inr x \<and>
        (cl_Get (ie_services E) s (mns_Project sel) (workload_name E inst w) = Inr x \<or>
         ims_HostPort x = mns_HostPort sel \<and> ims_Labels x LabelWorkload = Some w \<and>
         (\<exists>v vs. cl_List (ie_versions E) s [(LabelIMTemplate, imd_IMTemplateName inst), (LabelIMTemplateVersion, imd_Version inst)] []
              = Inr (v # vs) \<and>
            eb_ServiceGroups (ims_BrokerConfig x) = version_groups gs (imv_ServiceGroup v))))"

definition deployment_present ::
  "'s imd_env \<Rightarrow> InferModelDeployment \<Rightarrow> string \<Rightarrow> ModelNodeSelector \<Rightarrow> 's \<Rightarrow> 's \<Rightarrow> bool" where
  "deployment_present E inst w sel s s' \<longleftrightarrow>
     (\<exists>d. cl_Get (ie_workloads E) s' (imd_Namespace inst) (workload_name E inst w) = Inr d \<and>
        (cl_Get (ie_workloads E) s (imd_Namespace inst) (workload_name E inst w) = Inr d \<or>
         d = new_deployment inst (workload_name E inst w) sel))"

lemma services_deployed:
  assumes ok: "imd_ok E" and r: "deployInferModelServices E gs ws inst (getWorkloadInfos inst) s = (None, s1)"
    and ws: "map_order ws (getWorkloadInfos inst)" and inj: "inj_on (workload_name E inst) (dom (getWorkloadInfos inst))"
    and w: "getWorkloadInfos inst w = Some sel"
    and l: "cl_List (ie_services E) s [(LabelIMDeployment, imd_Name inst)] (imd_Namespace inst) = Inr services"
  shows "(\<exists>x \<in> set services. workload_label (ims_Labels x) = w) \<or> service_present E gs inst w sel s s1"
proof (subst disj_commute, rule disjCI)
  assume "\<not> (\<exists>x \<in> set services. workload_label (ims_Labels x) = w)"
  then have nc: "workload_cache ims_Labels ims_Name services w = None" using workload_cache_sound by blast
  let ?new = "\<lambda>pc bc w. new_service inst pc bc (workload_name E inst w) w (the (getWorkloadInfos inst w))"
  let ?ws = "uncached (workload_cache ims_Labels ims_Name services) ws"
  from r l obtain v vs pc bc where
      v: "cl_List (ie_versions E) s [(LabelIMTemplate, imd_IMTemplateName inst), (LabelIMTemplateVersion, imd_Version inst)] [] = Inr (v # vs)"
      "loadBrokerCM E gs v s = Inr bc" and c: "create_all (ie_services E) (map (?new pc bc) ?ws) s = (None, s1)"
    by (auto elim: deployInferModelServices_done)
  have dom: "set ws = dom (getWorkloadInfos inst)" using ws by (simp add: map_order_def)
  with w nc have "w \<in> set ?ws" by (auto simp: uncached_def)
  then have "?new pc bc w \<in> set (map (?new pc bc) ?ws)" unfolding set_map by (rule imageI)
  from create_all_done [OF ok [unfolded imd_ok_def, THEN conjunct1] c this] w
  obtain y where y: "cl_Get (ie_services E) s1 (mns_Project sel) (workload_name E inst w) = Inr y"
      "cl_Get (ie_services E) s (mns_Project sel) (workload_name E inst w) = Inr y \<or>
       y \<in> set (map (?new pc bc) ?ws) \<and> ims_Name y = workload_name E inst w"
    by (auto simp: new_service_def)
  have "y = ?new pc bc w" if "y \<in> set (map (?new pc bc) ?ws)" "ims_Name y = workload_name E inst w"
  proof -
    from that obtain w' where w': "w' \<in> dom (getWorkloadInfos inst)" "y = ?new pc bc w'"
      using dom by (auto simp: uncached_def)
    with that(2) have "workload_name E inst w' = workload_name E inst w" by (simp add: new_service_def)
    with inj w' w show ?thesis by (auto dest: inj_onD)
  qed
  with y(2) have "cl_Get (ie_services E) s (mns_Project sel) (workload_name E inst w) = Inr y \<or>
      ims_HostPort y = mns_HostPort sel \<and> ims_Labels y LabelWorkload = Some w \<and>
      eb_ServiceGroups (ims_BrokerConfig y) = version_groups gs (imv_ServiceGroup v)"
    using w loadBrokerCM_groups [OF v(2)] by (auto simp: new_service_def common_labels_def label_defs)
  with y(1) v(1) show "service_present E gs inst w sel s s1" unfolding service_present_def by blast
qed

lemma deployments_deployed:
  assumes ok: "imd_ok E" and r: "deployWorkloadDeployments E ws inst (getWorkloadInfos inst) s = (None, s1)"
    and ws: "map_order ws (getWorkloadInfos inst)" and inj: "inj_on (workload_name E inst) (dom (getWorkloadInfos inst))"
    and w: "getWorkloadInfos inst w = Some sel"
    and l: "cl_List (ie_workloads E) s [(LabelIMDeployment, imd_Name inst)] (imd_Namespace inst) = Inr deploys"
  shows "(\<exists>x \<in> set deploys. workload_label (dp_Labels x) = w) \<or> deployment_present E inst w sel s s1"
    and "cl_Get (ie_services E) s1 = cl_Get (ie_services E) s"
proof -
  let ?new = "\<lambda>w. new_deployment inst (workload_name E inst w) (the (getWorkloadInfos inst w))"
  let ?ws = "uncached (workload_cache dp_Labels dp_Name deploys) ws"
  have c: "create_all (ie_workloads E) (map ?new ?ws) s = (None, s1)"
    using r by (simp add: deployWorkloadDeployments_def l workload_loop_eq workload_name_def)
  note ok2 = ok [unfolded imd_ok_def, THEN conjunct2]
  show "cl_Get (ie_services E) s1 = cl_Get (ie_services E) s" using create_all_frame [OF ok2 c] by blast
  have dom: "set ws = dom (getWorkloadInfos inst)" using ws by (simp add: map_order_def)
  show "(\<exists>x \<in> set deploys. workload_label (dp_Labels x) = w) \<or> deployment_present E inst w sel s s1"
  proof (subst disj_commute, rule disjCI)
    assume "\<not> (\<exists>x \<in> set deploys. workload_label (dp_Labels x) = w)"
    then have "workload_cache dp_Labels dp_Name deploys w = None" using workload_cache_sound by blast
    with w dom have "w \<in> set ?ws" by (auto simp: uncached_def)
    then have "?new w \<in> set (map ?new ?ws)" unfolding set_map by (rule imageI)
    from create_all_done [OF ok2 c this]
    obtain y where y: "cl_Get (ie_workloads E) s1 (imd_Namespace inst) (workload_name E inst w) = Inr y"
        "cl_Get (ie_workloads E) s (imd_Namespace inst) (workload_name E inst w) = Inr y \<or>
         y \<in> set (map ?new ?ws) \<and> dp_Name y = workload_name E inst w"
      by auto
    have "y = ?new w" if "y \<in> set (map ?new ?ws)" "dp_Name y = workload_name E inst w"
    proof -
      from that obtain w' where w': "w' \<in> dom (getWorkloadInfos inst)" "y = ?new w'"
        using dom by (auto simp: uncached_def)
      with that(2) have "workload_name E inst w' = workload_name E inst w" by simp
      with inj w' w show ?thesis by (auto dest: inj_onD)
    qed
    with y w show "deployment_present E inst w sel s s1" unfolding deployment_present_def by auto
  qed
qed

lemma workloads_done:
  assumes "imd_ok E" and "imd_doReconcile E gs ws1 ws2 inst s = (None, s')"
    and "map_order ws1 (getWorkloadInfos inst)" and "map_order ws2 (getWorkloadInfos inst)"
    and "inj_on (workload_name E inst) (dom (getWorkloadInfos inst))"
    and "getWorkloadInfos inst w = Some sel"
    and "cl_List (ie_services E) s [(LabelIMDeployment, imd_Name inst)] (imd_Namespace inst) = Inr services"
    and "cl_List (ie_workloads E) s [(LabelIMDeployment, imd_Name inst)] (imd_Namespace inst) = Inr deploys"
  shows "((\<exists>x \<in> set services. workload_label (ims_Labels x) = w) \<or> service_present E gs inst w sel s s') \<and>
    ((\<exists>x \<in> set deploys. workload_label (dp_Labels x) = w) \<or> deployment_present E inst w sel s s')"
proof -
  obtain s1 where s1: "deployInferModelServices E gs ws1 inst (getWorkloadInfos inst) s = (None, s1)"
      "deployWorkloadDeployments E ws2 inst (getWorkloadInfos inst) s1 = (None, s')"
    using assms(2) by (auto simp: imd_doReconcile_def Let_def split: prod.splits option.splits)
  have same: "cl_Get (ie_workloads E) s1 = cl_Get (ie_workloads E) s \<and> cl_List (ie_workloads E) s1 = cl_List (ie_workloads E) s"
  proof (rule deployInferModelServices_done [OF s1(1)], goal_cases)
    case (1 v vs svcs pc bc)
    from create_all_frame [OF assms(1) [unfolded imd_ok_def, THEN conjunct1] 1(5)] show ?case by simp
  qed
  note dep = deployments_deployed [OF assms(1) s1(2) assms(4,5,6)]
  have "(\<exists>x \<in> set deploys. workload_label (dp_Labels x) = w) \<or> deployment_present E inst w sel s1 s'"
    and get: "cl_Get (ie_services E) s' = cl_Get (ie_services E) s1"
    using dep [of deploys] assms(8) same by simp_all
  moreover have "deployment_present E inst w sel s1 s' = deployment_present E inst w sel s s'"
    by (simp add: deployment_present_def same)
  moreover have "service_present E gs inst w sel s s1 = service_present E gs inst w sel s s'"
    by (simp add: service_present_def get)
  ultimately show ?thesis using services_deployed [OF assms(1) s1(1) assms(3,5,6,7)] by simp
qed


type_synonym sample_cluster = "InferModelService list \<times> K8sDeployment list"

definition sample_env :: "sample_cluster imd_env" where
  "sample_env =
     \<lparr>ie_deployments = via (\<lambda>_. []) (\<lambda>_ s. s) (store_client imd_Namespace imd_Name imd_Labels (\<lambda>_. False)),
      ie_versions = via (\<lambda>_. [\<lparr>imv_Name = ''yolo-v1'', imv_Labels = [LabelIMTemplate \<mapsto> ''yolo'', LabelIMTemplateVersion \<mapsto> ''v1''],
          imv_Version = ''v1'', imv_ServiceGroup = Some [''gold'' \<mapsto> 3], imv_rest = []\<rparr>]) (\<lambda>_ s. s)
          (store_client (\<lambda>_. []) imv_Name imv_Labels (\<lambda>_. False)),
      ie_services = via fst (\<lambda>t s. (t, snd s)) (store_client ims_Namespace ims_Name ims_Labels (\<lambda>_. False)),
      ie_workloads = via snd (\<lambda>t s. (fst s, t)) (store_client dp_Namespace dp_Name dp_Labels (\<lambda>_. False)),
      ie_getConfigMap = (\<lambda>s ns n. Inr \<lparr>cm_Name = n, cm_Namespace = ns, cm_OwnerReferences = [],
          cm_Data = [EdgeQosProxyConfigName \<mapsto> ''p'', EdgeQosBrokerConfigName \<mapsto> ''b'']\<rparr>),
      ie_currentNamespace = Inr ''edgewize-system'',
      ie_yamlProxy = (\<lambda>_. Inr (ims_ProxyConfig sample_ims)), ie_yamlBroker = (\<lambda>_. Inr (ims_BrokerConfig sample_ims)),
      ie_sha256 = (\<lambda>_. replicate 32 0)\<rparr>"

definition sample_deployment :: InferModelDeployment where
  "sample_deployment =
     \<lparr>imd_APIVersion = ''apps.edgewize.io/v1alpha1'', imd_Kind = ''InferModelDeployment'', imd_Name = ''cam'',
      imd_Namespace = ''models'', imd_UID = ''u9'', imd_Labels = Map.empty, imd_Finalizers = [], imd_Deleting = False,
      imd_IMTemplateName = ''yolo'', imd_Version = ''v1'',
      imd_DeploymentSpec = \<lparr>mds_Replicas = Some 1,
        mds_Template = \<lparr>pt_Labels = Some [''app'' \<mapsto> ''x''], pt_NodeSelector = Map.empty, pt_Tolerations = [], pt_rest = []\<rparr>,
        mds_Strategy = []\<rparr>,
      imd_NodeSelectors = [\<lparr>mns_Project = ''models'', mns_NodeGroup = ''g'', mns_NodeName = ''n1'', mns_HostPort = 8000,
        mns_ResourceRequest = Map.empty\<rparr>]\<rparr>"

lemma sample_env_ok: "imd_ok sample_env"
  unfolding imd_ok_def
proof
  show "create_ok (ie_services sample_env) ims_Namespace ims_Name
      (\<lambda>s. (cl_Get (ie_workloads sample_env) s, cl_List (ie_workloads sample_env) s))"
    unfolding sample_env_def imd_env.simps
    by (rule via_create_ok [OF store_create_ok]) (simp_all add: via_def)
  show "create_ok (ie_workloads sample_env) dp_Namespace dp_Name (cl_Get (ie_services sample_env))"
    unfolding sample_env_def imd_env.simps
    by (rule via_create_ok [OF store_create_ok]) (simp_all add: via_def)
qed

lemma sample_workloads:
  "getWorkloadInfos sample_deployment = [''g-n1'' \<mapsto> hd (imd_NodeSelectors sample_deployment)]"
  by (simp add: getWorkloadInfos_def sample_deployment_def uniqueName_def)

lemma sample_name: "workload_name sample_env sample_deployment ''g-n1'' = ''cam-g-n1''"
  by (simp add: workload_name_def SafeConcatName_def sample_deployment_def Let_def)

lemma sample_services_run:
  "fst (deployInferModelServices sample_env [''gold''] [''g-n1''] sample_deployment (getWorkloadInfos sample_deployment) ([], [])) = None"
  by (simp add: deployInferModelServices_def loadProxyCM_def loadBrokerCM_def service_loop_eq sample_env_def
      via_def store_client_def selects_def sample_deployment_def label_defs uncached_def workload_cache_def)

lemma sample_run:
  "fst (imd_doReconcile sample_env [''gold''] [''g-n1''] [''g-n1''] sample_deployment ([], [])) = None"
proof -
  obtain s1 where s1: "deployInferModelServices sample_env [''gold''] [''g-n1''] sample_deployment
      (getWorkloadInfos sample_deployment) ([], []) = (None, s1)"
    using sample_services_run by (metis prod.collapse)
  have "snd s1 = []"
  proof (rule deployInferModelServices_done [OF s1], goal_cases)
    case (1 v vs svcs pc bc)
    from create_all_frame [OF sample_env_ok [unfolded imd_ok_def, THEN conjunct1] 1(5)]
    have "cl_List (ie_workloads sample_env) s1 [] [] = Inr []"
      by (simp add: sample_env_def via_def store_client_def)
    then show ?case by (simp add: sample_env_def via_def store_client_def selects_def)
  qed
  then have "fst (deployWorkloadDeployments sample_env [''g-n1''] sample_deployment (getWorkloadInfos sample_deployment) s1) = None"
    by (simp add: deployWorkloadDeployments_def workload_loop_eq sample_env_def via_def
        store_client_def uncached_def workload_cache_def)
  then show ?thesis unfolding imd_doReconcile_def Let_def by (simp add: s1)
qed


text \<open>
  Deletion of an infer model deployment: when \<open>Reconcile\<close> of a deployment that is being deleted succeeds, the
  controller's finalizer and no other is gone, the object itself is gone when no finalizer was left, and
  reconciling it again changes nothing and reports no error.
\<close>

theorem imd_release_once:
  assumes "client_ok (ie_deployments E) imd_Namespace imd_Name (\<lambda>i. imd_Deleting i \<and> imd_Finalizers i = []) others"
    and "cl_Get (ie_deployments E) s ns n = Inr i" and "imd_Deleting i" and "IMDFinalizer \<in> set (imd_Finalizers i)"
    and "imd_Reconcile E gs ws1 ws2 ns n s = (None, s')"
  shows "(if filter (\<lambda>f. f \<noteq> IMDFinalizer) (imd_Finalizers i) = [] then \<exists>m. cl_Get (ie_deployments E) s' ns n = Inl (NotFound m)
      else \<exists>j. cl_Get (ie_deployments E) s' ns n = Inr j \<and> imd_Finalizers j = filter (\<lambda>f. f \<noteq> IMDFinalizer) (imd_Finalizers i)) \<and>
    imd_Reconcile E gs ws1 ws2 ns n s' = (None, s')"
  by (rule imd.release_once [OF assms])

end
