(* ===== verification/Query.thy ===== *)
theory Query
  imports Utils
begin

text \<open>
  \<open>pkg/apiserver/query\<close>: the list queries of the API server. A request's parameters give a query (page, order,
  filters, label selector); a processor filters, sorts and cuts a list of objects by it.

  Page numbers are Go's 64-bit \<open>int\<close>: arithmetic wraps (\<open>i64\<close>). \<open>labels.Parse\<close> is an argument, it gives the
  predicate of the selector. \<open>sort.Slice\<close> is an argument as well, since the order of equal elements is its
  own choice; \<open>sort_ok\<close> is what its documentation promises. Objects are the metadata the processor reads, with
  the creation time in seconds.
\<close>

section \<open>Queries\<close>

definition i64 :: "int \<Rightarrow> int" where
  "i64 x = (x + 2 ^ 63) mod 2 ^ 64 - 2 ^ 63"

record Pagination =
  pg_Limit :: int
  pg_Offset :: int

definition newPagination :: "int \<Rightarrow> int \<Rightarrow> Pagination" where
  "newPagination limit offset = \<lparr>pg_Limit = limit, pg_Offset = offset\<rparr>"

definition NoPagination :: Pagination where
  "NoPagination = newPagination (- 1) 0"

record Query =
  q_Pagination :: "Pagination option"
  q_SortBy :: string
  q_Ascending :: bool
  q_Filters :: "string \<rightharpoonup> string"
  q_LabelSelector :: string

definition Query_New :: Query where
  "Query_New = \<lparr>q_Pagination = Some NoPagination, q_SortBy = [], q_Ascending = False, q_Filters = Map.empty,
     q_LabelSelector = []\<rparr>"

definition Selector :: "(string \<Rightarrow> (labels \<Rightarrow> bool) option) \<Rightarrow> Query \<Rightarrow> labels \<Rightarrow> bool" where
  "Selector parse q = (case parse (q_LabelSelector q) of None \<Rightarrow> (\<lambda>_. True) | Some selector \<Rightarrow> selector)"

definition GetValidPagination :: "Pagination \<Rightarrow> int \<Rightarrow> int \<times> int" where
  "GetValidPagination p n =
     (if pg_Limit p = pg_Limit NoPagination then (0, n)
      else if pg_Limit p < 0 \<or> pg_Offset p < 0 \<or> pg_Offset p > n then (0, 0)
      else (let startIndex = pg_Offset p; endIndex = i64 (startIndex + pg_Limit p)
            in (startIndex, if endIndex > n then n else endIndex)))"

definition defaultString :: "string \<Rightarrow> string \<Rightarrow> string" where
  "defaultString v defaultValue = (if length v = 0 then defaultValue else v)"

definition ParameterPage :: string where "ParameterPage = ''page''"
definition ParameterLimit :: string where "ParameterLimit = ''limit''"
definition ParameterOrderBy :: string where "ParameterOrderBy = ''sortBy''"
definition ParameterAscending :: string where "ParameterAscending = ''ascending''"
definition ParameterLabelSelector :: string where "ParameterLabelSelector = ''labelSelector''"
definition FieldName :: string where "FieldName = ''name''"
definition FieldNames :: string where "FieldNames = ''names''"
definition FieldNamespace :: string where "FieldNamespace = ''namespace''"
definition FieldLabel :: string where "FieldLabel = ''label''"
definition FieldCreationTimeStamp :: string where "FieldCreationTimeStamp = ''creationTimestamp''"

lemmas parameter_defs =
  ParameterPage_def ParameterLimit_def ParameterOrderBy_def ParameterAscending_def ParameterLabelSelector_def
  FieldName_def FieldNames_def FieldNamespace_def FieldLabel_def FieldCreationTimeStamp_def

text \<open>\<open>QueryParameter\<close>: the first value of a parameter, or the empty string. The last value of a filter counts.\<close>

definition QueryParameter :: "(string \<rightharpoonup> string list) \<Rightarrow> string \<Rightarrow> string" where
  "QueryParameter params k = (case params k of Some (v # _) \<Rightarrow> v | _ \<Rightarrow> [])"

definition add_filters :: "(string \<rightharpoonup> string list) \<Rightarrow> string list \<Rightarrow> (string \<rightharpoonup> string) \<Rightarrow> (string \<rightharpoonup> string)" where
  "add_filters params ks filters =
     foldl (\<lambda>m key. if HasString [ParameterPage, ParameterLimit, ParameterOrderBy, ParameterAscending, ParameterLabelSelector] key
                    then m else foldl (\<lambda>m v. m(key \<mapsto> v)) m (the (params key))) filters ks"

text \<open>\<open>ks\<close> is the order of the range over the parameters.\<close>

definition ParseQueryParameter :: "(string \<rightharpoonup> string list) \<Rightarrow> string list \<Rightarrow> Query" where
  "ParseQueryParameter params ks =
     (let limit = (case Atoi (QueryParameter params ParameterLimit) of None \<Rightarrow> - 1 | Some l \<Rightarrow> l);
          page = (case Atoi (QueryParameter params ParameterPage) of None \<Rightarrow> 1 | Some p \<Rightarrow> p)
      in Query_New\<lparr>q_Pagination := Some (newPagination limit (i64 (i64 (page - 1) * limit))),
                   q_SortBy := defaultString (QueryParameter params ParameterOrderBy) FieldCreationTimeStamp,
                   q_Ascending := (case ParseBool (defaultString (QueryParameter params ParameterAscending) ''false'') of
                                     None \<Rightarrow> False | Some b \<Rightarrow> b),
                   q_LabelSelector := QueryParameter params ParameterLabelSelector,
                   q_Filters := add_filters params ks Map.empty\<rparr>)"

section \<open>The processor\<close>

record ObjectMeta =
  om_Name :: string
  om_Namespace :: string
  om_Labels :: labels
  om_CreationTimestamp :: int

definition DefaultObjectMetaCompare :: "'x ObjectMeta_scheme \<Rightarrow> 'x ObjectMeta_scheme \<Rightarrow> string \<Rightarrow> bool" where
  "DefaultObjectMetaCompare left right sortBy =
     (if sortBy = FieldName then om_Name left > om_Name right
      else if sortBy = FieldNamespace then om_Namespace left > om_Namespace right
      else if om_CreationTimestamp left = om_CreationTimestamp right then om_Name left > om_Name right
      else om_CreationTimestamp left > om_CreationTimestamp right)"

definition labelMatch :: "(string \<Rightarrow> (labels \<Rightarrow> bool) option) \<Rightarrow> labels \<Rightarrow> string \<Rightarrow> bool" where
  "labelMatch parse m flt = (case parse flt of None \<Rightarrow> False | Some labelSelector \<Rightarrow> labelSelector m)"

definition DefaultObjectMetaFilter ::
  "(string \<Rightarrow> (labels \<Rightarrow> bool) option) \<Rightarrow> 'x ObjectMeta_scheme \<Rightarrow> string \<Rightarrow> string \<Rightarrow> bool" where
  "DefaultObjectMetaFilter parse item field v =
     (if field = FieldNames then HasString (SplitChar v CHR '','') (om_Name item)
      else if field = FieldName then StrContains (om_Name item) v
      else if field = FieldNamespace then om_Namespace item = v
      else if field = FieldLabel then labelMatch parse (om_Labels item) v
      else True)"

text \<open>The inner loop over the filters, in the order \<open>fs\<close>, stops at the first that fails.\<close>

fun selected :: "(string \<Rightarrow> string \<Rightarrow> bool) \<Rightarrow> (string \<rightharpoonup> string) \<Rightarrow> string list \<Rightarrow> bool" where
  "selected match filters [] = True"
| "selected match filters (field # fs) =
     (if \<not> match field (the (filters field)) then False else selected match filters fs)"

type_synonym 'a sort_slice = "('a \<Rightarrow> 'a \<Rightarrow> bool) \<Rightarrow> 'a list \<Rightarrow> 'a list"

definition FilterAndSort ::
  "'x ObjectMeta_scheme sort_slice \<Rightarrow> (string \<Rightarrow> (labels \<Rightarrow> bool) option) \<Rightarrow> string list \<Rightarrow> Query
   \<Rightarrow> 'x ObjectMeta_scheme list \<Rightarrow> 'x ObjectMeta_scheme list" where
  "FilterAndSort sortSlice parse fs q objects =
     (let filtered = filter (\<lambda>x. selected (DefaultObjectMetaFilter parse x) (q_Filters q) fs) objects
      in sortSlice (\<lambda>x y. if \<not> q_Ascending q then DefaultObjectMetaCompare x y (q_SortBy q)
                          else \<not> DefaultObjectMetaCompare x y (q_SortBy q)) filtered)"

text \<open>\<open>objects[start:end]\<close> panics when the bounds are not in order or not in range.\<close>

definition slice_range :: "'a list \<Rightarrow> int \<Rightarrow> int \<Rightarrow> 'a list go_result" where
  "slice_range xs i j =
     (if 0 \<le> i \<and> i \<le> j \<and> j \<le> int (length xs) then Inr (take (nat (j - i)) (drop (nat i) xs))
      else Inl (GoPanic ''slice bounds out of range''))"

definition Processor_Pagination :: "Query \<Rightarrow> 'a list \<Rightarrow> 'a list go_result" where
  "Processor_Pagination q objects =
     (let p = (case q_Pagination q of None \<Rightarrow> NoPagination | Some p \<Rightarrow> p);
          (start, end') = GetValidPagination p (int (length objects))
      in slice_range objects start end')"

record 'a ListResult =
  lr_Items :: "'a list"
  lr_TotalItems :: nat

text \<open>The common end of the list operations of \<open>pkg/models/apps\<close>: filter and sort, count, cut the page.\<close>

definition list_result ::
  "'x ObjectMeta_scheme sort_slice \<Rightarrow> (string \<Rightarrow> (labels \<Rightarrow> bool) option) \<Rightarrow> string list \<Rightarrow> Query
   \<Rightarrow> 'x ObjectMeta_scheme list \<Rightarrow> 'x ObjectMeta_scheme ListResult go_result" where
  "list_result sortSlice parse fs q items =
     (let items' = FilterAndSort sortSlice parse fs q items
      in map_sum id (\<lambda>page. \<lparr>lr_Items = page, lr_TotalItems = length items'\<rparr>) (Processor_Pagination q items'))"

section \<open>Sorting\<close>

definition strict_weak :: "('a \<Rightarrow> 'a \<Rightarrow> bool) \<Rightarrow> bool" where
  "strict_weak lt \<longleftrightarrow> (\<forall>x. \<not> lt x x) \<and> (\<forall>x y z. lt x y \<and> lt y z \<longrightarrow> lt x z) \<and>
     (\<forall>x y z. lt x z \<longrightarrow> lt x y \<or> lt y z)"

definition sort_ok :: "'a sort_slice \<Rightarrow> bool" where
  "sort_ok sortSlice \<longleftrightarrow> (\<forall>lt xs. mset (sortSlice lt xs) = mset xs \<and>
     (strict_weak lt \<longrightarrow> sorted_wrt (\<lambda>x y. \<not> lt y x) (sortSlice lt xs)))"

section \<open>Lemmas\<close>

lemma i64_id: "- (2 ^ 63) \<le> x \<Longrightarrow> x < 2 ^ 63 \<Longrightarrow> i64 x = x"
  by (simp add: i64_def)

lemma selected_iff: "selected match filters fs \<longleftrightarrow> (\<forall>f \<in> set fs. match f (the (filters f)))"
  by (induction fs) auto

definition matches :: "(string \<Rightarrow> (labels \<Rightarrow> bool) option) \<Rightarrow> Query \<Rightarrow> 'x ObjectMeta_scheme \<Rightarrow> bool" where
  "matches parse q x \<longleftrightarrow> (\<forall>f v. q_Filters q f = Some v \<longrightarrow> DefaultObjectMetaFilter parse x f v)"

lemma selected_matches:
  "map_order fs (q_Filters q) \<Longrightarrow> selected (DefaultObjectMetaFilter parse x) (q_Filters q) fs = matches parse q x"
  by (auto simp: selected_iff matches_def map_order_def dom_def)

lemma compare_strict_weak: "strict_weak (\<lambda>x y. DefaultObjectMetaCompare x y sortBy)"
  by (auto simp: strict_weak_def DefaultObjectMetaCompare_def split: if_splits)

lemma FilterAndSort_descending:
  fixes sortSlice :: "'x ObjectMeta_scheme sort_slice"
  assumes "sort_ok sortSlice" and "map_order fs (q_Filters q)" and "\<not> q_Ascending q"
  shows "mset (FilterAndSort sortSlice parse fs q items) = mset (filter (matches parse q) items)"
    and "sorted_wrt (\<lambda>x y. \<not> DefaultObjectMetaCompare y x (q_SortBy q)) (FilterAndSort sortSlice parse fs q items)"
proof -
  have "strict_weak (\<lambda>(x :: 'x ObjectMeta_scheme) y. DefaultObjectMetaCompare x y (q_SortBy q))"
    by (rule compare_strict_weak)
  then show "mset (FilterAndSort sortSlice parse fs q items) = mset (filter (matches parse q) items)"
    and "sorted_wrt (\<lambda>x y. \<not> DefaultObjectMetaCompare y x (q_SortBy q)) (FilterAndSort sortSlice parse fs q items)"
    using assms by (simp_all add: FilterAndSort_def selected_matches sort_ok_def Let_def)
qed

lemma Pagination_range:
  assumes "q_Pagination q = Some (newPagination (int l) (int i))" and "int i + int l < 2 ^ 63"
  shows "Processor_Pagination q xs = Inr (take l (drop i xs))"
proof (cases "i > length xs")
  case True
  with assms(1) show ?thesis
    by (simp add: Processor_Pagination_def GetValidPagination_def newPagination_def NoPagination_def slice_range_def)
next
  case False
  have e: "i64 (int i + int l) = int i + int l" by (rule i64_id) (use assms(2) in simp_all)
  have v: "GetValidPagination (newPagination (int l) (int i)) (int (length xs)) =
      (int i, if i + l > length xs then int (length xs) else int (i + l))"
    using False by (simp add: GetValidPagination_def newPagination_def NoPagination_def e Let_def)
  have "take (length xs - i) (drop i xs) = take l (drop i xs)" if "i + l > length xs" using that by simp
  then show ?thesis
    using False by (simp add: Processor_Pagination_def assms(1) v slice_range_def flip: of_nat_diff)
qed

lemma Pagination_page:
  assumes "q_Pagination q = Some (newPagination (int l) (int k * int l))" and "int k * int l + int l < 2 ^ 63"
  shows "Processor_Pagination q xs = Inr (take l (drop (k * l) xs))"
  by (rule Pagination_range) (use assms in simp_all)

lemma concat_pages: "concat (map (\<lambda>k. take l (drop (k * l) xs)) [0..<m]) = take (m * l) xs"
proof (induction m)
  case (Suc m)
  have "take (Suc m * l) xs = take (m * l) xs @ take l (drop (m * l) xs)"
    by (simp only: mult_Suc add.commute [of l] take_add)
  with Suc show ?case by simp
qed simp

subsection \<open>Decimal numbers\<close>

lemma digit_char_digit: "d < 10 \<Longrightarrow> is_digit (digit_char d) \<and> digit_val (digit_char d) = d"
  by (simp add: is_digit_def digit_val_def digit_char_def)

lemma show_nat_parse:
  "show_nat n \<noteq> [] \<and> list_all is_digit (show_nat n) \<and> foldl (\<lambda>a c. 10 * a + digit_val c) 0 (show_nat n) = n"
proof (induction n rule: less_induct)
  case (less n)
  show ?case
  proof (cases "n < 10")
    case True
    then show ?thesis by (subst (1 2 3) show_nat.simps) (simp add: digit_char_digit)
  next
    case False
    have "n div 10 < n" using False by simp
    from less.IH [OF this] digit_char_digit [of "n mod 10"] show ?thesis
      using False by (subst (1 2 3) show_nat.simps) simp
  qed
qed

lemma parse_show_nat: "parse_nat (show_nat n) = Some n"
  using show_nat_parse [of n] by (simp add: parse_nat_def)

lemma show_nat_head: "\<exists>c cs. show_nat n = c # cs \<and> is_digit c"
  using show_nat_parse [of n] by (cases "show_nat n") auto

lemma Atoi_show_nat: "int n < 2 ^ 63 \<Longrightarrow> Atoi (show_nat n) = Some (int n)"
proof -
  obtain c cs where c: "show_nat n = c # cs" "is_digit c" using show_nat_head by blast
  then have "c \<noteq> CHR ''-''" "c \<noteq> CHR ''+''" by (auto simp: is_digit_def)
  with c parse_show_nat [of n] show "int n < 2 ^ 63 \<Longrightarrow> Atoi (show_nat n) = Some (int n)"
    by (simp add: Atoi_def)
qed

lemma Atoi_show_neg: "0 < n \<Longrightarrow> int n \<le> 2 ^ 63 \<Longrightarrow> Atoi (CHR ''-'' # show_nat n) = Some (- int n)"
  using parse_show_nat [of n] by (simp add: Atoi_def)

lemma ParseQueryParameter_page:
  assumes "QueryParameter params ParameterLimit = show_nat l" and "QueryParameter params ParameterPage = show_nat (Suc k)"
    and "0 < l" and "int k * int l + int l < 2 ^ 63"
  shows "q_Pagination (ParseQueryParameter params ks) = Some (newPagination (int l) (int k * int l))"
proof -
  have "int l \<le> int k * int l + int l" by simp
  then have l: "int l < 2 ^ 63" using assms(4) by linarith
  have "int (Suc k) * 1 \<le> int (Suc k) * int l" by (rule mult_left_mono) (use assms(3) in simp_all)
  then have k: "int (Suc k) < 2 ^ 63" using assms(4) by (simp add: algebra_simps)
  then have "i64 (int k) = int k" by (intro i64_id) simp_all
  moreover have "i64 (int k * int l) = int k * int l"
  proof (rule i64_id)
    have "0 \<le> int k * int l" by simp
    then show "- (2 ^ 63) \<le> int k * int l" by (rule order_trans [rotated]) simp
    show "int k * int l < 2 ^ 63" using assms(4) by linarith
  qed
  ultimately show ?thesis
    using Atoi_show_nat [OF l] Atoi_show_nat [OF k]
    by (simp add: ParseQueryParameter_def Query_New_def assms(1,2) Let_def)
qed

section \<open>Properties\<close>


text \<open>Insertion sort as an instance of \<open>sort.Slice\<close>.\<close>

fun insert_by :: "('a \<Rightarrow> 'a \<Rightarrow> bool) \<Rightarrow> 'a \<Rightarrow> 'a list \<Rightarrow> 'a list" where
  "insert_by lt x [] = [x]"
| "insert_by lt x (y # ys) = (if lt y x then y # insert_by lt x ys else x # y # ys)"

definition insertion_sort :: "'a sort_slice" where
  "insertion_sort lt xs = foldr (insert_by lt) xs []"

lemma insert_by_mset: "mset (insert_by lt x ys) = add_mset x (mset ys)"
  by (induction ys) auto

lemma insert_by_sorted:
  assumes "strict_weak lt"
  shows "sorted_wrt (\<lambda>x y. \<not> lt y x) ys \<Longrightarrow> sorted_wrt (\<lambda>x y. \<not> lt y x) (insert_by lt x ys)"
proof (induction ys)
  case (Cons y ys)
  have "z \<in> set (insert_by lt x ys) \<longleftrightarrow> z = x \<or> z \<in> set ys" for z
    using insert_by_mset [of lt x ys] by (metis set_mset_add_mset_insert insert_iff set_mset_mset)
  moreover have "\<not> lt z x" if "\<not> lt y x" "\<not> lt z y" for z
    using that assms unfolding strict_weak_def by blast
  moreover have "\<not> lt x y" if "lt y x" using that assms unfolding strict_weak_def by blast
  ultimately show ?case using Cons by auto
qed simp

lemma insertion_sort_ok: "sort_ok insertion_sort"
proof -
  have "mset (insertion_sort lt xs) = mset xs" for lt :: "'a \<Rightarrow> 'a \<Rightarrow> bool" and xs
    by (induction xs) (simp_all add: insertion_sort_def insert_by_mset)
  moreover have "sorted_wrt (\<lambda>x y. \<not> lt y x) (insertion_sort lt xs)" if "strict_weak lt" for lt :: "'a \<Rightarrow> 'a \<Rightarrow> bool" and xs
    by (induction xs) (simp_all add: insertion_sort_def insert_by_sorted [OF that])
  ultimately show ?thesis by (simp add: sort_ok_def)
qed

definition sample_objects :: "ObjectMeta list" where
  "sample_objects =
     [\<lparr>om_Name = ''a'', om_Namespace = ''n'', om_Labels = Map.empty, om_CreationTimestamp = 1\<rparr>,
      \<lparr>om_Name = ''b'', om_Namespace = ''n'', om_Labels = Map.empty, om_CreationTimestamp = 2\<rparr>,
      \<lparr>om_Name = ''c'', om_Namespace = ''n'', om_Labels = Map.empty, om_CreationTimestamp = 2\<rparr>]"

definition sample_params :: "string \<rightharpoonup> string list" where
  "sample_params = [ParameterLimit \<mapsto> [''2''], ParameterPage \<mapsto> [''2'']]"


text \<open>
  The pages of a list cover it: for every positive limit the pages one after the other are the whole list, no
  element is skipped and none is on two pages.
\<close>

theorem pages_cover:
  assumes "0 < l" and "length xs \<le> m * l" and "int m * int l < 2 ^ 63"
  shows "\<exists>pages. (\<forall>k < m. Processor_Pagination (q\<lparr>q_Pagination := Some (newPagination (int l) (int k * int l))\<rparr>) xs = Inr (pages k)) \<and>
     concat (map pages [0..<m]) = xs"
proof (intro exI conjI allI impI)
  fix k assume "k < m"
  then have "Suc k * l \<le> m * l" by (intro mult_le_mono1) simp
  then have "int (k * l + l) \<le> int (m * l)" by (simp only: of_nat_le_iff mult_Suc add.commute)
  with assms(3) have "int k * int l + int l < 2 ^ 63" by simp
  then show "Processor_Pagination (q\<lparr>q_Pagination := Some (newPagination (int l) (int k * int l))\<rparr>) xs = Inr (take l (drop (k * l) xs))"
    by (intro Pagination_page) simp_all
next
  show "concat (map (\<lambda>k. take l (drop (k * l) xs)) [0..<m]) = xs" using assms(2) by (simp add: concat_pages)
qed

theorem pages_cover_witness:
  "\<exists>pages. (\<forall>k < 2. Processor_Pagination (Query_New\<lparr>q_Pagination := Some (newPagination (int 2) (int k * int 2))\<rparr>) [1, 2, 3 :: nat] = Inr (pages k)) \<and>
     concat (map pages [0..<2]) = [1, 2, 3]"
  by (rule pages_cover) simp_all

text \<open>
  C37. The page arithmetic wraps: a request with \<open>limit\<close> 9223372036854775807 and \<open>page\<close> -1 makes the offset 2 and the
  end of the page negative, so that the slice expression panics for every list of at least two objects.
\<close>

theorem page_overflow_panics:
  assumes "QueryParameter params ParameterLimit = ''9223372036854775807''" and "QueryParameter params ParameterPage = ''-1''"
    and "2 \<le> length xs"
  shows "Processor_Pagination (ParseQueryParameter params ks) xs = Inl (GoPanic ''slice bounds out of range'')"
proof -
  have "parse_nat ''9223372036854775807'' = Some 9223372036854775807" "parse_nat ''1'' = Some 1"
    by (simp_all add: parse_nat_def is_digit_def digit_val_def)
  then have "Atoi ''9223372036854775807'' = Some 9223372036854775807" "Atoi ''-1'' = Some (- 1)"
    by (simp_all add: Atoi_def)
  then have "q_Pagination (ParseQueryParameter params ks) = Some (newPagination 9223372036854775807 2)"
    by (simp add: ParseQueryParameter_def Query_New_def assms(1,2) i64_def Let_def)
  with assms(3) show ?thesis
    by (simp add: Processor_Pagination_def GetValidPagination_def newPagination_def NoPagination_def slice_range_def i64_def)
qed

theorem page_overflow_panics_witness:
  "Processor_Pagination (ParseQueryParameter [ParameterLimit \<mapsto> [''9223372036854775807''], ParameterPage \<mapsto> [''-1'']] [])
     [1, 2 :: nat] = Inl (GoPanic ''slice bounds out of range'')"
  by (rule page_overflow_panics) (simp_all add: QueryParameter_def parameter_defs)

end
