(* ===== verification/Deploy.thy ===== *)
theory Deploy
  imports Kube Query
begin

text \<open>
  \<open>pkg/models/apps\<close>: the operations behind the API server. Deployments are read with the state of their
  workloads, templates with their versions; a node is described by the resource templates of its device; a
  deployment is deleted with its workloads.

  The caches and the client are arguments over a cluster state \<open>'s\<close>. A label selector is the predicate it
  stands for. \<open>NewRequirement\<close> and the YAML decoder are arguments. Device models are values of labels, which
  are ASCII.
\<close>

section \<open>Names and data\<close>

definition LabelWorkspace :: string where "LabelWorkspace = ''kubesphere.io/workspace''"
definition Processing :: string where "Processing = ''processing''"
definition Succeeded :: string where "Succeeded = ''succeeded''"
definition Failed :: string where "Failed = ''failed''"
definition EdgeNodeTypeNPU :: string where "EdgeNodeTypeNPU = ''NPU''"
definition EdgeNodeTypeGPU :: string where "EdgeNodeTypeGPU = ''GPU''"
definition EdgeNodeTypeCommon :: string where "EdgeNodeTypeCommon = ''COMMON''"
definition EdgeNodeNPULabel :: string where "EdgeNodeNPULabel = ''accelerator''"
definition EdgeNodeGPULabel :: string where "EdgeNodeGPULabel = ''nvidia''"
definition EdgeNodeVirtualizationLabel :: string where "EdgeNodeVirtualizationLabel = ''aicp.group/aipods_type''"
definition ResTemplateKey :: string where "ResTemplateKey = ''resource-template.yaml''"
definition ResourceAscend310 :: string where "ResourceAscend310 = ''huawei.com/Ascend310''"
definition ResourceAscend310P :: string where "ResourceAscend310P = ''huawei.com/Ascend310P''"
definition ResourceNvidia :: string where "ResourceNvidia = ''nvidia.com/gpu''"
definition DeviceAscend310 :: string where "DeviceAscend310 = ''huawei-Ascend310''"
definition DeviceAscend310P :: string where "DeviceAscend310P = ''huawei-Ascend310P''"
definition DeviceNvidiaCommon :: string where "DeviceNvidiaCommon = ''nvidia''"
definition DeviceHuaweiPrefix :: string where "DeviceHuaweiPrefix = ''huawei-''"

lemmas device_defs =
  EdgeNodeTypeNPU_def EdgeNodeTypeGPU_def EdgeNodeTypeCommon_def EdgeNodeNPULabel_def EdgeNodeGPULabel_def
  EdgeNodeVirtualizationLabel_def ResTemplateKey_def ResourceAscend310_def ResourceAscend310P_def ResourceNvidia_def
  DeviceAscend310_def DeviceAscend310P_def DeviceNvidiaCommon_def DeviceHuaweiPrefix_def

lemmas status_defs = Processing_def Succeeded_def Failed_def

text \<open>
  The objects with the fields only these operations read: creation times, the conditions of a deployment (type
  and status), and the namespace and capacity of a node (quantities as they print).
\<close>

record StampedDeployment = InferModelDeployment +
  imd_CreationTimestamp :: int

record StampedTemplate = InferModelTemplate +
  imt_CreationTimestamp :: int

record StampedVersion = InferModelTemplateVersion +
  imv_CreationTimestamp :: int

record StatusDeployment = K8sDeployment +
  dp_Conditions :: "(string \<times> string) list"

record CapacityNode = Node +
  nd_Namespace :: string
  nd_Capacity :: "string \<rightharpoonup> string"

record WorkloadStats =
  ws_Processing :: nat
  ws_Succeeded :: nat
  ws_Failed :: nat

text \<open>The answers of the API: an object's metadata first, which is what a query processes.\<close>

record DeploymentView = ObjectMeta +
  dv_Deployment :: StampedDeployment
  dv_WorkloadStats :: WorkloadStats
  dv_Workloads :: "StatusDeployment list"

record TemplateView = ObjectMeta +
  tv_Template :: StampedTemplate
  tv_ServiceGroup :: "(string \<rightharpoonup> int) option"
  tv_VersionList :: "StampedVersion list"
  tv_LatestVersion :: string

record TemplateItem =
  ti_ResourceName :: string
  ti_Description :: string
  ti_ResourceRequest :: "string \<rightharpoonup> int"

record NodeSpecifications =
  ns_Type :: string
  ns_DevModel :: string
  ns_ResourceTemplates :: "TemplateItem list"
  ns_Virtualized :: bool

record TemplateDetail =
  td_ResourceName :: string
  td_ResourceRequest :: "string \<rightharpoonup> int"
  td_Description :: string

record DevResourceTemplate =
  dr_Virtualized :: "(string \<rightharpoonup> TemplateDetail list) option"
  dr_Physical :: "(string \<rightharpoonup> TemplateDetail list) option"

record ResourceTemplateConfig =
  rt_NPU :: DevResourceTemplate
  rt_GPU :: DevResourceTemplate

record InferModelServer =
  sv_Name :: string
  sv_Namespace :: string
  sv_ServiceGroups :: "ServiceGroupItem list"

text \<open>Reading one kind of object by namespace and name, and listing it by a selector in a namespace (or in all).\<close>

record 'o reader =
  rd_Get :: "string \<Rightarrow> string \<Rightarrow> 'o go_result"
  rd_List :: "(labels \<Rightarrow> bool) \<Rightarrow> string \<Rightarrow> 'o list go_result"

record 's operator =
  op_imd :: "'s \<Rightarrow> StampedDeployment reader"
  op_imt :: "'s \<Rightarrow> StampedTemplate reader"
  op_imv :: "'s \<Rightarrow> StampedVersion reader"
  op_ims :: "'s \<Rightarrow> InferModelService reader"
  op_dp :: "'s \<Rightarrow> StatusDeployment reader"
  op_cm :: "'s \<Rightarrow> ConfigMap reader"
  op_node :: "'s \<Rightarrow> CapacityNode reader"
  op_clientNode :: "'s \<Rightarrow> CapacityNode reader"
  op_Namespaces :: "'s \<Rightarrow> string list go_result"
  op_Delete :: "'s \<Rightarrow> StampedDeployment \<Rightarrow> go_error option \<times> 's"
  op_DeleteAllOf :: "'s \<Rightarrow> string \<Rightarrow> (labels \<Rightarrow> bool) \<Rightarrow> go_error option \<times> 's"

text \<open>\<open>for \<dots> { ret, err := f(x); if err != nil { return nil, err }; res = append(res, ret) }\<close>.\<close>

fun collect :: "('a \<Rightarrow> 'b go_result) \<Rightarrow> 'a list \<Rightarrow> 'b list go_result" where
  "collect f [] = Inr []"
| "collect f (x # xs) =
     (case f x of
        Inl err \<Rightarrow> Inl err
      | Inr y \<Rightarrow> (case collect f xs of Inl err \<Rightarrow> Inl err | Inr ys \<Rightarrow> Inr (y # ys)))"

section \<open>Devices\<close>

definition GetDevTypeOnNode :: "labels \<Rightarrow> string \<times> string" where
  "GetDevTypeOnNode nodeLabels =
     (case nodeLabels EdgeNodeNPULabel of
        Some npuDevModel \<Rightarrow> (EdgeNodeTypeNPU, npuDevModel)
      | None \<Rightarrow>
          (case nodeLabels EdgeNodeGPULabel of
             Some gpuDevModel \<Rightarrow> (EdgeNodeTypeGPU, gpuDevModel)
           | None \<Rightarrow> (EdgeNodeTypeCommon, [])))"

definition isVirtualized :: "labels \<Rightarrow> bool" where
  "isVirtualized nodeLabels \<longleftrightarrow> nodeLabels EdgeNodeVirtualizationLabel \<noteq> None"

definition GetResourceName :: "string \<Rightarrow> string" where
  "GetResourceName deviceName =
     (if deviceName = DeviceAscend310 then ResourceAscend310
      else if deviceName = DeviceAscend310P then ResourceAscend310P
      else if StrContains (ToLower deviceName) DeviceNvidiaCommon then ResourceNvidia
      else [])"

definition device_of :: "string \<Rightarrow> string" where
  "device_of devModel =
     (if HasPrefix devModel DeviceHuaweiPrefix then TrimPrefix devModel DeviceHuaweiPrefix else DeviceNvidiaCommon)"

definition GetPhysicalDesc :: "string \<Rightarrow> int \<Rightarrow> string" where
  "GetPhysicalDesc devModel n = show_int n @ '' Chip ('' @ device_of devModel @ '')''"

definition AddHardwareInfoToVirtualTemplateDesc :: "string \<Rightarrow> TemplateDetail list \<Rightarrow> TemplateDetail list" where
  "AddHardwareInfoToVirtualTemplateDesc devModel devModelDetails =
     map (\<lambda>item. item\<lparr>td_Description := td_Description item @ '' ('' @ device_of devModel @ '')''\<rparr>) devModelDetails"

text \<open>The loop runs while \<open>i \<le> maxChipCount\<close>, so not at all for a count below one.\<close>

definition GetPhysicalTemplateEntriesFromNodeStatus ::
  "'s operator \<Rightarrow> 's \<Rightarrow> string \<Rightarrow> string \<Rightarrow> TemplateDetail list go_result" where
  "GetPhysicalTemplateEntriesFromNodeStatus D s nodeName devModel =
     (case rd_Get (op_clientNode D s) [] nodeName of
        Inl err \<Rightarrow> Inl err
      | Inr nodeInfo \<Rightarrow>
          (let resourceName = GetResourceName devModel
           in if resourceName = [] then Inl (Errorf (''not support device '' @ devModel @ '' now''))
              else case nd_Capacity nodeInfo resourceName of
                     None \<Rightarrow> Inl (Errorf (''resource '' @ resourceName @ '' not registered on Node '' @ nodeName))
                   | Some maxChips \<Rightarrow>
                       (case Atoi maxChips of
                          None \<Rightarrow> Inl (Errorf (''parse resource '' @ resourceName @ '':'' @ maxChips @ '' failed''))
                        | Some maxChipCount \<Rightarrow>
                            Inr (map (\<lambda>i. \<lparr>td_ResourceName = [], td_ResourceRequest = [resourceName \<mapsto> i],
                                            td_Description = GetPhysicalDesc devModel i\<rparr>) [1..maxChipCount]))))"

definition template_items :: "TemplateDetail list \<Rightarrow> TemplateItem list" where
  "template_items details =
     map (\<lambda>(index, template). \<lparr>ti_ResourceName = ''template-'' @ show_nat index, ti_Description = td_Description template,
            ti_ResourceRequest = td_ResourceRequest template\<rparr>) (enumerate 0 details)"

text \<open>Every way out but the last logs and returns no items; an error of the node status is not passed on.\<close>

definition ParseDevResTemplate ::
  "'s operator \<Rightarrow> 's \<Rightarrow> ResourceTemplateConfig \<Rightarrow> string \<Rightarrow> string \<Rightarrow> bool \<Rightarrow> string \<Rightarrow> TemplateItem list" where
  "ParseDevResTemplate D s resTemplateConfig devType devModel virtualized nodeName =
     (let dev = (if devType = EdgeNodeTypeNPU then Some (rt_NPU resTemplateConfig)
                 else if devType = EdgeNodeTypeGPU then Some (rt_GPU resTemplateConfig) else None);
          fromNode = GetPhysicalTemplateEntriesFromNodeStatus D s nodeName devModel
      in case dev of
           None \<Rightarrow> []
         | Some devResTemplate \<Rightarrow>
             (if virtualized then
                (case dr_Virtualized devResTemplate of
                   None \<Rightarrow> []
                 | Some virt \<Rightarrow>
                     (case virt devModel of
                        None \<Rightarrow> []
                      | Some details \<Rightarrow> template_items (AddHardwareInfoToVirtualTemplateDesc devModel details)))
              else
                (let details =
                       (case dr_Physical devResTemplate of
                          Some phys \<Rightarrow> (case phys devModel of Some details \<Rightarrow> Inr details | None \<Rightarrow> fromNode)
                        | None \<Rightarrow> fromNode)
                 in case details of Inl err \<Rightarrow> [] | Inr details \<Rightarrow> template_items details)))"

definition GetSpecificDevResTemplates ::
  "'s operator \<Rightarrow> 's \<Rightarrow> (string \<Rightarrow> ResourceTemplateConfig go_result) \<Rightarrow> ConfigMap \<Rightarrow> string \<Rightarrow> string \<Rightarrow> bool \<Rightarrow> string
   \<Rightarrow> TemplateItem list go_result" where
  "GetSpecificDevResTemplates D s unmarshal cm devType devModel virtualized nodeName =
     (case cm_Data cm ResTemplateKey of
        None \<Rightarrow> Inr []
      | Some dataBytes \<Rightarrow>
          (case unmarshal dataBytes of
             Inl err \<Rightarrow> Inl err
           | Inr templateConfig \<Rightarrow> Inr (ParseDevResTemplate D s templateConfig devType devModel virtualized nodeName)))"

definition ListNodeSpecifications ::
  "'s operator \<Rightarrow> 's \<Rightarrow> (string \<Rightarrow> ResourceTemplateConfig go_result) \<Rightarrow> string \<Rightarrow> NodeSpecifications go_result" where
  "ListNodeSpecifications D s unmarshal nodeName =
     (case rd_Get (op_node D s) [] nodeName of
        Inl err \<Rightarrow> Inl err
      | Inr edgeNode \<Rightarrow>
          (case rd_Get (op_cm D s) (nd_Namespace edgeNode) (nd_Name edgeNode) of
             Inl err \<Rightarrow> Inl err
           | Inr templateConfig \<Rightarrow>
               (let (devType, devModel) = GetDevTypeOnNode (nd_Labels edgeNode)
                in case GetSpecificDevResTemplates D s unmarshal templateConfig devType devModel
                          (isVirtualized (nd_Labels edgeNode)) nodeName of
                     Inl err \<Rightarrow> Inl err
                   | Inr items \<Rightarrow>
                       Inr \<lparr>ns_Type = devType, ns_DevModel = devModel, ns_ResourceTemplates = items,
                            ns_Virtualized = isVirtualized (nd_Labels edgeNode)\<rparr>)))"

section \<open>Deployments\<close>

text \<open>The status of one workload: the conditions in their order, a later one prevails.\<close>

definition condition_status :: "string \<Rightarrow> string \<times> string \<Rightarrow> string" where
  "condition_status status c =
     (if fst c = ''Available'' then (if snd c = ''True'' then Succeeded else status)
      else if fst c = ''ReplicaFailure'' then (if snd c = ''True'' then Failed else status)
      else status)"

definition workload_status :: "StatusDeployment \<Rightarrow> string" where
  "workload_status d = foldl condition_status Processing (dp_Conditions d)"

definition count_workload :: "WorkloadStats \<Rightarrow> StatusDeployment \<Rightarrow> WorkloadStats" where
  "count_workload st d =
     (let status = workload_status d
      in if status = Failed then st\<lparr>ws_Failed := ws_Failed st + 1\<rparr>
         else if status = Succeeded then st\<lparr>ws_Succeeded := ws_Succeeded st + 1\<rparr>
         else st\<lparr>ws_Processing := ws_Processing st + 1\<rparr>)"

definition deployment_view :: "StampedDeployment \<Rightarrow> WorkloadStats \<Rightarrow> StatusDeployment list \<Rightarrow> DeploymentView" where
  "deployment_view imd stats workloads =
     \<lparr>om_Name = imd_Name imd, om_Namespace = imd_Namespace imd, om_Labels = imd_Labels imd,
      om_CreationTimestamp = imd_CreationTimestamp imd, dv_Deployment = imd, dv_WorkloadStats = stats, dv_Workloads = workloads\<rparr>"

definition no_stats :: WorkloadStats where
  "no_stats = \<lparr>ws_Processing = 0, ws_Succeeded = 0, ws_Failed = 0\<rparr>"

definition getDeployWithWorkloadStatus :: "'s operator \<Rightarrow> 's \<Rightarrow> string \<Rightarrow> StampedDeployment \<Rightarrow> DeploymentView go_result" where
  "getDeployWithWorkloadStatus D s namespace imd =
     (case rd_List (op_dp D s) (selects [(LabelIMDeployment, imd_Name imd)]) namespace of
        Inl err \<Rightarrow> Inl err
      | Inr items \<Rightarrow> Inr (deployment_view imd (foldl count_workload no_stats items) items))"

definition listInferModelDeployments ::
  "'s operator \<Rightarrow> 's \<Rightarrow> string \<Rightarrow> (labels \<Rightarrow> bool) \<Rightarrow> DeploymentView list go_result" where
  "listInferModelDeployments D s namespace selector =
     (case rd_List (op_imd D s) selector namespace of
        Inl err \<Rightarrow> Inl err
      | Inr items \<Rightarrow> collect (getDeployWithWorkloadStatus D s namespace) items)"

definition ListInferModelDeployments ::
  "'s operator \<Rightarrow> 's \<Rightarrow> DeploymentView sort_slice \<Rightarrow> (string \<Rightarrow> (labels \<Rightarrow> bool) option) \<Rightarrow> string list \<Rightarrow> string \<Rightarrow> Query
   \<Rightarrow> DeploymentView ListResult go_result" where
  "ListInferModelDeployments D s sortSlice parse fs namespace queryParam =
     (case listInferModelDeployments D s namespace (Selector parse queryParam) of
        Inl err \<Rightarrow> Inl err
      | Inr deployItems \<Rightarrow> list_result sortSlice parse fs queryParam deployItems)"

definition GetInferModelDeployment :: "'s operator \<Rightarrow> 's \<Rightarrow> string \<Rightarrow> string \<Rightarrow> DeploymentView go_result" where
  "GetInferModelDeployment D s namespace name =
     (case rd_Get (op_imd D s) namespace name of
        Inl err \<Rightarrow> Inl err
      | Inr deployItem \<Rightarrow> getDeployWithWorkloadStatus D s namespace deployItem)"

fun delete_workloads ::
  "'s operator \<Rightarrow> string \<Rightarrow> ModelNodeSelector list \<Rightarrow> 's \<Rightarrow> go_error option \<times> 's" where
  "delete_workloads D name [] s = (None, s)"
| "delete_workloads D name (selector # sels) s =
     (case op_DeleteAllOf D s (mns_Project selector) (selects [(LabelIMDeployment, name)]) of
        (Some err, s') \<Rightarrow> (Some err, s')
      | (None, s') \<Rightarrow> delete_workloads D name sels s')"

definition DeleteInferModelDeployment ::
  "'s operator \<Rightarrow> 's \<Rightarrow> string \<Rightarrow> string \<Rightarrow> bool \<Rightarrow> DeploymentView go_result \<times> 's" where
  "DeleteInferModelDeployment D s namespace name deleteWorkloads =
     (case rd_Get (op_imd D s) namespace name of
        Inl err \<Rightarrow> (Inl err, s)
      | Inr deployItem \<Rightarrow>
          (case op_Delete D s deployItem of
             (Some err, s') \<Rightarrow> (Inl err, s')
           | (None, s') \<Rightarrow>
               (case (if deleteWorkloads then delete_workloads D name (imd_NodeSelectors deployItem) s' else (None, s')) of
                  (Some err, s'') \<Rightarrow> (Inl err, s'')
                | (None, s'') \<Rightarrow> (Inr (deployment_view deployItem no_stats []), s''))))"

text \<open>
  Running servers: the errors of the four requirements are dropped and their pointers dereferenced. \<open>None\<close>
  asks for a label to exist, \<open>Some\<close> for its value. The status is a map, ranged over in the order \<open>ord\<close>.
\<close>

definition deref :: "'a go_result \<Rightarrow> 'a go_result" where
  "deref r = (case r of Inl err \<Rightarrow> Inl (GoPanic ''invalid memory address or nil pointer dereference'') | Inr x \<Rightarrow> Inr x)"

definition server_of ::
  "'s operator \<Rightarrow> 's \<Rightarrow> ((string \<rightharpoonup> ServiceGroupItem) \<Rightarrow> string list) \<Rightarrow> StatusDeployment \<Rightarrow> InferModelServer go_result" where
  "server_of D s ord coreDeploy =
     (case rd_Get (op_ims D s) (dp_Namespace coreDeploy) (dp_Name coreDeploy) of
        Inl err \<Rightarrow> Inl err
      | Inr imService \<Rightarrow>
          (let groups = (case ims_Status imService of None \<Rightarrow> Map.empty | Some m \<Rightarrow> m)
           in Inr \<lparr>sv_Name = dp_Name coreDeploy, sv_Namespace = dp_Namespace coreDeploy,
                   sv_ServiceGroups = map (\<lambda>k. the (groups k)) (ord groups)\<rparr>))"

definition servers_in ::
  "'s operator \<Rightarrow> 's \<Rightarrow> ((string \<rightharpoonup> ServiceGroupItem) \<Rightarrow> string list) \<Rightarrow> (labels \<Rightarrow> bool) \<Rightarrow> string \<Rightarrow> InferModelServer list go_result" where
  "servers_in D s ord resourceSelector namespace =
     (case rd_List (op_dp D s) resourceSelector namespace of
        Inl err \<Rightarrow> Inl err
      | Inr items \<Rightarrow> collect (server_of D s ord) items)"

definition ListRunningInferModelServers ::
  "'s operator \<Rightarrow> 's \<Rightarrow> (string \<Rightarrow> string option \<Rightarrow> (labels \<Rightarrow> bool) go_result)
   \<Rightarrow> ((string \<rightharpoonup> ServiceGroupItem) \<Rightarrow> string list) \<Rightarrow> string \<Rightarrow> InferModelServer list go_result" where
  "ListRunningInferModelServers D s NewRequirement ord nodegroup =
     (if nodegroup = [] then Inr []
      else case collect (\<lambda>(k, v). deref (NewRequirement k v))
                  [(LabelIMTemplate, None), (LabelIMTemplateVersion, None), (LabelIMDeployment, None), (LabelNodeGroup, Some nodegroup)] of
             Inl err \<Rightarrow> Inl err
           | Inr requirements \<Rightarrow>
               (case op_Namespaces D s of
                  Inl err \<Rightarrow> Inl err
                | Inr nsList \<Rightarrow>
                    map_sum id concat (collect (servers_in D s ord (\<lambda>ls. list_all (\<lambda>r. r ls) requirements)) nsList)))"

section \<open>Templates\<close>

definition updateVersions ::
  "'s operator \<Rightarrow> 's \<Rightarrow> StampedVersion sort_slice \<Rightarrow> StampedTemplate \<Rightarrow> TemplateView go_result" where
  "updateVersions D s sortSlice template =
     (let ret = \<lparr>om_Name = imt_Name template, om_Namespace = [], om_Labels = imt_Labels template,
                 om_CreationTimestamp = imt_CreationTimestamp template, tv_Template = template,
                 tv_ServiceGroup = imt_ServiceGroup template, tv_VersionList = [], tv_LatestVersion = []\<rparr>
      in case rd_List (op_imv D s) (selects [(LabelIMTemplate, imt_Name template)]) [] of
           Inl err \<Rightarrow> Inl err
         | Inr [] \<Rightarrow> Inr ret
         | Inr items \<Rightarrow>
             (let items = sortSlice (\<lambda>x y. imv_CreationTimestamp y < imv_CreationTimestamp x) items
              in Inr (ret\<lparr>tv_LatestVersion := (case imv_Labels (hd items) LabelIMTemplateVersion of None \<Rightarrow> [] | Some v \<Rightarrow> v),
                          tv_VersionList := items\<rparr>)))"

definition GetInferModelTemplate ::
  "'s operator \<Rightarrow> 's \<Rightarrow> StampedVersion sort_slice \<Rightarrow> string \<Rightarrow> string \<Rightarrow> TemplateView go_result" where
  "GetInferModelTemplate D s sortSlice workspace name =
     (case rd_Get (op_imt D s) workspace name of
        Inl err \<Rightarrow> Inl err
      | Inr template \<Rightarrow> updateVersions D s sortSlice template)"

definition listInferModelTemplates ::
  "'s operator \<Rightarrow> 's \<Rightarrow> (string \<Rightarrow> string option \<Rightarrow> (labels \<Rightarrow> bool) go_result) \<Rightarrow> StampedVersion sort_slice \<Rightarrow> string
   \<Rightarrow> (labels \<Rightarrow> bool) \<Rightarrow> TemplateView list go_result" where
  "listInferModelTemplates D s NewRequirement sortSlice workspace selector =
     (let sel' = (if workspace \<noteq> [] then
                    (case NewRequirement LabelWorkspace (Some workspace) of
                       Inl err \<Rightarrow> Inl err
                     | Inr requirement \<Rightarrow> Inr (\<lambda>ls. selector ls \<and> requirement ls))
                  else Inr selector)
      in case sel' of
           Inl err \<Rightarrow> Inl err
         | Inr selector \<Rightarrow>
             (case rd_List (op_imt D s) selector [] of
                Inl err \<Rightarrow> Inl err
              | Inr items \<Rightarrow> collect (updateVersions D s sortSlice) items))"

definition ListInferModelTemplate ::
  "'s operator \<Rightarrow> 's \<Rightarrow> (string \<Rightarrow> string option \<Rightarrow> (labels \<Rightarrow> bool) go_result) \<Rightarrow> StampedVersion sort_slice
   \<Rightarrow> TemplateView sort_slice \<Rightarrow> (string \<Rightarrow> (labels \<Rightarrow> bool) option) \<Rightarrow> string list \<Rightarrow> string \<Rightarrow> Query
   \<Rightarrow> TemplateView ListResult go_result" where
  "ListInferModelTemplate D s NewRequirement sortVersions sortSlice parse fs workspace queryParam =
     (case listInferModelTemplates D s NewRequirement sortVersions workspace (Selector parse queryParam) of
        Inl err \<Rightarrow> Inl err
      | Inr imTemplateItems \<Rightarrow> list_result sortSlice parse fs queryParam imTemplateItems)"

section \<open>Node templates\<close>

lemma template_items_nth:
  "i < length ds \<Longrightarrow> template_items ds ! i =
     \<lparr>ti_ResourceName = ''template-'' @ show_nat i, ti_Description = td_Description (ds ! i),
      ti_ResourceRequest = td_ResourceRequest (ds ! i)\<rparr>"
  by (simp add: template_items_def enumerate_eq_zip)

lemma template_items_length [simp]: "length (template_items ds) = length ds"
  by (simp add: template_items_def)

definition no_physical :: "DevResourceTemplate \<Rightarrow> string \<Rightarrow> bool" where
  "no_physical dev devModel \<longleftrightarrow> (case dr_Physical dev of None \<Rightarrow> True | Some phys \<Rightarrow> phys devModel = None)"

lemma ParseDevResTemplate_node:
  assumes "dev = (if devType = EdgeNodeTypeNPU then rt_NPU cfg else rt_GPU cfg)"
    and "devType \<in> {EdgeNodeTypeNPU, EdgeNodeTypeGPU}" and "no_physical dev devModel"
    and "GetPhysicalTemplateEntriesFromNodeStatus D s nodeName devModel = Inr details"
  shows "ParseDevResTemplate D s cfg devType devModel False nodeName = template_items details"
  using assms by (auto simp: ParseDevResTemplate_def no_physical_def split: option.splits if_splits)

text \<open>
  A node that is not virtualized and whose model has no physical template: when its device is supported and its
  capacity registers \<open>n\<close> chips, the API offers exactly \<open>n\<close> templates, numbered from 0, the one at position
  \<open>i\<close> asking for \<open>i + 1\<close> chips of the device's resource.
\<close>

theorem node_templates_from_capacity:
  assumes "rd_Get (op_node D s) [] nodeName = Inr nd" and "rd_Get (op_clientNode D s) [] nodeName = Inr nd"
    and "rd_Get (op_cm D s) (nd_Namespace nd) (nd_Name nd) = Inr cm"
    and "cm_Data cm ResTemplateKey = Some data" and "unmarshal data = Inr cfg"
    and "GetDevTypeOnNode (nd_Labels nd) = (devType, devModel)" and "devType \<noteq> EdgeNodeTypeCommon"
    and "\<not> isVirtualized (nd_Labels nd)"
    and "no_physical (if devType = EdgeNodeTypeNPU then rt_NPU cfg else rt_GPU cfg) devModel"
    and "GetResourceName devModel = res" and "res \<noteq> []"
    and "nd_Capacity nd res = Some (show_nat n)" and "int n < 2 ^ 63"
  shows "\<exists>sp. ListNodeSpecifications D s unmarshal nodeName = Inr sp \<and> ns_Type sp = devType \<and> ns_DevModel sp = devModel \<and>
    length (ns_ResourceTemplates sp) = n \<and>
    (\<forall>i < n. ns_ResourceTemplates sp ! i = \<lparr>ti_ResourceName = ''template-'' @ show_nat i,
       ti_Description = GetPhysicalDesc devModel (int i + 1), ti_ResourceRequest = [res \<mapsto> int i + 1]\<rparr>)"
proof -
  let ?details = "map (\<lambda>i. \<lparr>td_ResourceName = [], td_ResourceRequest = [res \<mapsto> i],
    td_Description = GetPhysicalDesc devModel i\<rparr>) [1..int n]"
  have g: "GetPhysicalTemplateEntriesFromNodeStatus D s nodeName devModel = Inr ?details"
    using assms(2,10,11,12) Atoi_show_nat [OF assms(13)] by (simp add: GetPhysicalTemplateEntriesFromNodeStatus_def)
  have t: "devType \<in> {EdgeNodeTypeNPU, EdgeNodeTypeGPU}"
    using assms(6,7) by (auto simp: GetDevTypeOnNode_def split: option.splits)
  have p: "ParseDevResTemplate D s cfg devType devModel False nodeName = template_items ?details"
    by (rule ParseDevResTemplate_node [OF refl t assms(9) g])
  have "ListNodeSpecifications D s unmarshal nodeName = Inr \<lparr>ns_Type = devType, ns_DevModel = devModel,
      ns_ResourceTemplates = template_items ?details, ns_Virtualized = False\<rparr>"
    using assms(1,3,4,5,6,8) p by (simp add: ListNodeSpecifications_def GetSpecificDevResTemplates_def)
  then show ?thesis by (auto simp: template_items_nth nth_upto add.commute)
qed

section \<open>Workloads\<close>

text \<open>The status by the last condition that counts.\<close>

definition last_condition :: "(string \<times> string) list \<Rightarrow> string" where
  "last_condition cs =
     (case rev (filter (\<lambda>c. fst c \<in> {''Available'', ''ReplicaFailure''} \<and> snd c = ''True'') cs) of
        [] \<Rightarrow> Processing | c # _ \<Rightarrow> if fst c = ''Available'' then Succeeded else Failed)"

lemma workload_status_last: "workload_status d = last_condition (dp_Conditions d)"
proof -
  have "foldl condition_status Processing cs = last_condition cs" for cs
    by (induction cs rule: rev_induct) (auto simp: condition_status_def last_condition_def)
  then show ?thesis by (simp add: workload_status_def)
qed

abbreviation with_status :: "string \<Rightarrow> StatusDeployment list \<Rightarrow> StatusDeployment list" where
  "with_status st \<equiv> filter (\<lambda>d. last_condition (dp_Conditions d) = st)"

lemma last_condition_range: "last_condition cs \<in> {Processing, Succeeded, Failed}"
  by (auto simp: last_condition_def split: list.splits)

lemma count_workloads:
  "foldl count_workload no_stats ds = \<lparr>ws_Processing = length (with_status Processing ds),
     ws_Succeeded = length (with_status Succeeded ds), ws_Failed = length (with_status Failed ds)\<rparr>"
proof (induction ds rule: rev_induct)
  case (snoc d ds)
  with last_condition_range [of "dp_Conditions d"] show ?case
    by (auto simp: count_workload_def workload_status_last status_defs)
qed (simp add: no_stats_def)

text \<open>
  Reading a deployment reports exactly the workloads that carry its label in its namespace, and counts each once:
  as failed, succeeded or in progress by the last of its true \<open>Available\<close> and \<open>ReplicaFailure\<close>
  conditions, in progress when there is none. The three counts add up to the number of workloads. A failing
  read gives its error.
\<close>

theorem workload_stats:
  "GetInferModelDeployment D s namespace name =
     (case rd_Get (op_imd D s) namespace name of
        Inl err \<Rightarrow> Inl err
      | Inr imd \<Rightarrow>
          (case rd_List (op_dp D s) (selects [(LabelIMDeployment, imd_Name imd)]) namespace of
             Inl err \<Rightarrow> Inl err
           | Inr ds \<Rightarrow> Inr (deployment_view imd
               \<lparr>ws_Processing = length (with_status Processing ds), ws_Succeeded = length (with_status Succeeded ds),
                ws_Failed = length (with_status Failed ds)\<rparr> ds))) \<and>
   length (with_status Processing ds) + length (with_status Succeeded ds) + length (with_status Failed ds) = length ds"
proof
  show "length (with_status Processing ds) + length (with_status Succeeded ds) + length (with_status Failed ds) = length ds"
  proof (induction ds)
    case (Cons d ds)
    with last_condition_range [of "dp_Conditions d"] show ?case by (auto simp: status_defs)
  qed simp
qed (simp add: GetInferModelDeployment_def getDeployWithWorkloadStatus_def count_workloads split: sum.split)

section \<open>Versions\<close>

text \<open>
  A template is shown with all its versions, the newest first, and its latest version is the version label of one
  that no other is newer than; a template without versions has the empty latest version.
\<close>

theorem latest_version:
  assumes "sort_ok sortSlice" and "rd_Get (op_imt D s) workspace name = Inr t"
    and "rd_List (op_imv D s) (selects [(LabelIMTemplate, imt_Name t)]) [] = Inr vs"
  shows "\<exists>tv. GetInferModelTemplate D s sortSlice workspace name = Inr tv \<and> mset (tv_VersionList tv) = mset vs \<and>
    sorted_wrt (\<lambda>x y. imv_CreationTimestamp y \<le> imv_CreationTimestamp x) (tv_VersionList tv) \<and>
    (if vs = [] then tv_LatestVersion tv = []
     else \<exists>v \<in> set vs. tv_LatestVersion tv = (case imv_Labels v LabelIMTemplateVersion of None \<Rightarrow> [] | Some x \<Rightarrow> x) \<and>
            (\<forall>y \<in> set vs. imv_CreationTimestamp y \<le> imv_CreationTimestamp v))"
proof (cases vs)
  case Nil
  with assms(2,3) show ?thesis by (simp add: GetInferModelTemplate_def updateVersions_def)
next
  case (Cons v vs')
  let ?newer = "\<lambda>(x :: StampedVersion) y. imv_CreationTimestamp y < imv_CreationTimestamp x"
  let ?sorted = "sortSlice ?newer vs"
  have "strict_weak ?newer" by (auto simp: strict_weak_def)
  with assms(1) have m: "mset ?sorted = mset vs" and "sorted_wrt (\<lambda>x y. \<not> ?newer y x) ?sorted"
    unfolding sort_ok_def by blast+
  then have so: "sorted_wrt (\<lambda>x y. imv_CreationTimestamp y \<le> imv_CreationTimestamp x) ?sorted" by (simp add: not_less)
  have st: "set ?sorted = set vs" using m by (metis set_mset_mset)
  obtain x xs where x: "?sorted = x # xs" using st Cons by (cases ?sorted) auto
  have "x \<in> set vs \<and> (\<forall>y \<in> set vs. imv_CreationTimestamp y \<le> imv_CreationTimestamp x)"
    using so unfolding st [symmetric] x by auto
  then show ?thesis
    using assms(2,3) Cons m so x by (auto simp: GetInferModelTemplate_def updateVersions_def Let_def)
qed

section \<open>Deletion\<close>

text \<open>
  What the client promises of a successful deletion, \<open>dps\<close> being the deployments of the cluster: deleting an infer
  model deployment touches none, deleting a collection removes those of the namespace the selector selects.
\<close>

definition delete_ok :: "'s operator \<Rightarrow> ('s \<Rightarrow> StatusDeployment list) \<Rightarrow> bool" where
  "delete_ok D dps \<longleftrightarrow>
     (\<forall>s x s'. op_Delete D s x = (None, s') \<longrightarrow> dps s' = dps s) \<and>
     (\<forall>s ns sel s'. op_DeleteAllOf D s ns sel = (None, s') \<longrightarrow>
        dps s' = filter (\<lambda>d. \<not> (dp_Namespace d = ns \<and> sel (dp_Labels d))) (dps s))"

definition projects :: "StampedDeployment \<Rightarrow> string set" where
  "projects imd = mns_Project ` set (imd_NodeSelectors imd)"

lemma delete_workloads_filter:
  assumes "delete_ok D dps" and "delete_workloads D name sels s = (None, s')"
  shows "dps s' = filter (\<lambda>d. \<not> (dp_Namespace d \<in> mns_Project ` set sels \<and> dp_Labels d LabelIMDeployment = Some name)) (dps s)"
  using assms(2)
proof (induction sels arbitrary: s)
  case (Cons x sels)
  obtain s1 where s1: "op_DeleteAllOf D s (mns_Project x) (selects [(LabelIMDeployment, name)]) = (None, s1)"
    "delete_workloads D name sels s1 = (None, s')"
    using Cons.prems by (auto split: prod.splits option.splits)
  have "dps s1 = filter (\<lambda>d. \<not> (dp_Namespace d = mns_Project x \<and> selects [(LabelIMDeployment, name)] (dp_Labels d))) (dps s)"
    using assms(1) s1(1) unfolding delete_ok_def by blast
  with Cons.IH [OF s1(2)] show ?case by (auto simp: selects_def intro!: filter_cong)
qed simp

lemma delete_filter:
  assumes "delete_ok D dps" and "rd_Get (op_imd D s) namespace name = Inr imd"
    and "DeleteInferModelDeployment D s namespace name b = (Inr v, s')"
  shows "dps s' = filter (\<lambda>d. \<not> (b \<and> dp_Namespace d \<in> projects imd \<and> dp_Labels d LabelIMDeployment = Some name)) (dps s)"
proof -
  obtain s1 where s1: "op_Delete D s imd = (None, s1)"
    "(if b then delete_workloads D name (imd_NodeSelectors imd) s1 else (None, s1)) = (None, s')"
    using assms(2,3) by (auto simp: DeleteInferModelDeployment_def split: prod.splits option.splits)
  have "dps s1 = dps s" using assms(1) s1(1) unfolding delete_ok_def by blast
  with s1(2) delete_workloads_filter [OF assms(1), of name "imd_NodeSelectors imd" s1 s'] show ?thesis
    by (auto simp: projects_def split: if_splits)
qed

section \<open>A sample cluster\<close>

text \<open>The state is the list of deployments; one template with two versions, one node with four Ascend chips.\<close>

definition sample_version :: "string \<Rightarrow> int \<Rightarrow> StampedVersion" where
  "sample_version v t = \<lparr>imv_Name = ''yolo-'' @ v, imv_Labels = [LabelIMTemplate \<mapsto> ''yolo'', LabelIMTemplateVersion \<mapsto> v],
     imv_Version = v, imv_ServiceGroup = None, imv_rest = [], imv_CreationTimestamp = t\<rparr>"

definition sample_template :: StampedTemplate where
  "sample_template = \<lparr>imt_Name = ''yolo'', imt_Labels = Map.empty, imt_Finalizers = [], imt_Deleting = False,
     imt_ServiceGroup = None, imt_CreationTimestamp = 10\<rparr>"

definition sample_stamped :: StampedDeployment where
  "sample_stamped = \<lparr>imd_APIVersion = ''v1'', imd_Kind = ''k'', imd_Name = ''cam'', imd_Namespace = ''edge'', imd_UID = ''u'',
     imd_Labels = Map.empty, imd_Finalizers = [], imd_Deleting = False, imd_IMTemplateName = ''yolo'', imd_Version = ''v1'',
     imd_DeploymentSpec = \<lparr>mds_Replicas = None, mds_Template = \<lparr>pt_Labels = None, pt_NodeSelector = Map.empty,
       pt_Tolerations = [], pt_rest = []\<rparr>, mds_Strategy = []\<rparr>,
     imd_NodeSelectors = [\<lparr>mns_Project = ''shop'', mns_NodeGroup = ''g'', mns_NodeName = ''n1'', mns_HostPort = 0,
       mns_ResourceRequest = Map.empty\<rparr>],
     imd_CreationTimestamp = 20\<rparr>"

definition sample_node :: CapacityNode where
  "sample_node = \<lparr>nd_Name = ''n1'', nd_Labels = [EdgeNodeNPULabel \<mapsto> DeviceAscend310], nd_Addresses = [],
     nd_Namespace = [], nd_Capacity = [ResourceAscend310 \<mapsto> ''4'']\<rparr>"

definition one_object :: "'o \<Rightarrow> 'o reader" where
  "one_object x = \<lparr>rd_Get = (\<lambda>ns n. Inr x), rd_List = (\<lambda>sel ns. Inr [x])\<rparr>"

definition sample_operator :: "StatusDeployment list operator" where
  "sample_operator =
     \<lparr>op_imd = (\<lambda>s. one_object sample_stamped), op_imt = (\<lambda>s. one_object sample_template),
      op_imv = (\<lambda>s. \<lparr>rd_Get = (\<lambda>ns n. Inl (NotFound n)),
                    rd_List = (\<lambda>sel ns. Inr (filter (\<lambda>v. sel (imv_Labels v)) [sample_version ''v1'' 5, sample_version ''v2'' 9]))\<rparr>),
      op_ims = (\<lambda>s. one_object sample_ims),
      op_dp = (\<lambda>s. \<lparr>rd_Get = (\<lambda>ns n. Inl (NotFound n)),
                   rd_List = (\<lambda>sel ns. Inr (filter (\<lambda>d. sel (dp_Labels d) \<and> (ns = [] \<or> dp_Namespace d = ns)) s))\<rparr>),
      op_cm = (\<lambda>s. one_object \<lparr>cm_Name = ''n1'', cm_Namespace = [], cm_OwnerReferences = [], cm_Data = [ResTemplateKey \<mapsto> ''{}'']\<rparr>),
      op_node = (\<lambda>s. one_object sample_node), op_clientNode = (\<lambda>s. one_object sample_node), op_Namespaces = (\<lambda>s. Inr [''edge'', ''shop'']),
      op_Delete = (\<lambda>s x. (None, s)),
      op_DeleteAllOf = (\<lambda>s ns sel. (None, filter (\<lambda>d. \<not> (dp_Namespace d = ns \<and> sel (dp_Labels d))) s))\<rparr>"

lemma sample_delete_ok: "delete_ok sample_operator (\<lambda>s. s)"
  by (simp add: delete_ok_def sample_operator_def)

definition empty_config :: ResourceTemplateConfig where
  "empty_config = \<lparr>rt_NPU = \<lparr>dr_Virtualized = None, dr_Physical = None\<rparr>, rt_GPU = \<lparr>dr_Virtualized = None, dr_Physical = None\<rparr>\<rparr>"

theorem node_templates_from_capacity_witness:
  "\<exists>sp. ListNodeSpecifications sample_operator [] (\<lambda>_. Inr empty_config) ''n1'' = Inr sp \<and> length (ns_ResourceTemplates sp) = 4 \<and>
     ti_ResourceRequest (ns_ResourceTemplates sp ! 3) = [ResourceAscend310 \<mapsto> 4]"
proof -
  have l: "nd_Labels sample_node = [EdgeNodeNPULabel \<mapsto> DeviceAscend310]" by (simp add: sample_node_def)
  have r: "rd_Get (op_node sample_operator []) [] ''n1'' = Inr sample_node"
    "rd_Get (op_clientNode sample_operator []) [] ''n1'' = Inr sample_node"
    "rd_Get (op_cm sample_operator []) (nd_Namespace sample_node) (nd_Name sample_node) =
       Inr \<lparr>cm_Name = ''n1'', cm_Namespace = [], cm_OwnerReferences = [], cm_Data = [ResTemplateKey \<mapsto> ''{}'']\<rparr>"
    by (simp_all add: sample_operator_def one_object_def)
  have t: "GetDevTypeOnNode (nd_Labels sample_node) = (EdgeNodeTypeNPU, DeviceAscend310)" "EdgeNodeTypeNPU \<noteq> EdgeNodeTypeCommon"
    "\<not> isVirtualized (nd_Labels sample_node)" "GetResourceName DeviceAscend310 = ResourceAscend310" "ResourceAscend310 \<noteq> []"
    by (simp_all add: GetDevTypeOnNode_def isVirtualized_def GetResourceName_def l device_defs)
  have s4: "show_nat 4 = ''4''" by code_simp
  have c: "nd_Capacity sample_node ResourceAscend310 = Some (show_nat 4)" by (simp add: sample_node_def s4)
  have p: "no_physical (if EdgeNodeTypeNPU = EdgeNodeTypeNPU then rt_NPU empty_config else rt_GPU empty_config) DeviceAscend310"
    by (simp add: no_physical_def empty_config_def)
  have "cm_Data \<lparr>cm_Name = ''n1'', cm_Namespace = [], cm_OwnerReferences = [], cm_Data = [ResTemplateKey \<mapsto> ''{}'']\<rparr> ResTemplateKey = Some ''{}''"
    by simp
  from node_templates_from_capacity [OF r this refl t(1,2,3) p t(4,5) c] show ?thesis by force
qed

theorem latest_version_witness:
  "\<exists>tv. GetInferModelTemplate sample_operator [] insertion_sort ''ws'' ''yolo'' = Inr tv \<and> tv_LatestVersion tv = ''v2'' \<and>
     mset (tv_VersionList tv) = mset [sample_version ''v1'' 5, sample_version ''v2'' 9]"
proof -
  let ?vs = "[sample_version ''v1'' 5, sample_version ''v2'' 9]"
  have g: "rd_Get (op_imt sample_operator []) ''ws'' ''yolo'' = Inr sample_template"
    by (simp add: sample_operator_def one_object_def)
  have l: "rd_List (op_imv sample_operator []) (selects [(LabelIMTemplate, imt_Name sample_template)]) [] = Inr ?vs"
    by (simp add: sample_operator_def selects_def sample_version_def sample_template_def label_defs)
  have t: "imv_CreationTimestamp (sample_version v t) = t" "imv_Labels (sample_version v t) LabelIMTemplateVersion = Some v" for v t
    by (simp_all add: sample_version_def label_defs)
  from latest_version [OF insertion_sort_ok g l] show ?thesis by (auto simp: t)
qed

end
