(* ===== verification/Api.thy ===== *)
theory Api
  imports Deploy
begin

text \<open>
  \<open>pkg/kapis/apps/v1alpha1/handler.go\<close> and \<open>pkg/api/utils.go\<close>: the REST handlers over the operations of \<open>Deploy\<close>, and
  how they answer errors. Routing is go-restful's; a handler gets the request's path and query parameters and
  yields a response. A run-time panic is kept apart from an answered error. What the handlers get from outside is
  the record \<open>api_env\<close>.
\<close>

section \<open>Errors\<close>

text \<open>The replacer of single characters: \<open>&\<close>, \<open><\<close> and \<open>>\<close> become entities.\<close>

definition sanitize_char :: "char \<Rightarrow> string" where
  "sanitize_char c =
     (if c = CHR ''&'' then ''&amp;'' else if c = CHR ''<'' then ''&lt;'' else if c = CHR ''>'' then ''&gt;'' else [c])"

definition sanitizer_Replace :: "string \<Rightarrow> string" where
  "sanitizer_Replace s = concat (map sanitize_char s)"

datatype 'a response = Entity 'a | HttpError nat string | Panicked string

text \<open>\<open>err.Error()\<close>, and the code of an API status or of a service error.\<close>

record error_pkg =
  er_Error :: "go_error \<Rightarrow> string"
  er_Code :: "go_error \<Rightarrow> nat option"

definition api_handle :: "error_pkg \<Rightarrow> nat \<Rightarrow> go_error \<Rightarrow> 'a response" where
  "api_handle P statusCode err = HttpError statusCode (sanitizer_Replace (er_Error P err))"

definition HandleInternalError :: "error_pkg \<Rightarrow> go_error \<Rightarrow> 'a response" where
  "HandleInternalError P err = api_handle P 500 err"

definition HandleBadRequest :: "error_pkg \<Rightarrow> go_error \<Rightarrow> 'a response" where
  "HandleBadRequest P err = api_handle P 400 err"

definition HandleNotFound :: "error_pkg \<Rightarrow> go_error \<Rightarrow> 'a response" where
  "HandleNotFound P err = api_handle P 404 err"

definition HandleForbidden :: "error_pkg \<Rightarrow> go_error \<Rightarrow> 'a response" where
  "HandleForbidden P err = api_handle P 403 err"

definition HandleUnauthorized :: "error_pkg \<Rightarrow> go_error \<Rightarrow> 'a response" where
  "HandleUnauthorized P err = api_handle P 401 err"

definition HandleTooManyRequests :: "error_pkg \<Rightarrow> go_error \<Rightarrow> 'a response" where
  "HandleTooManyRequests P err = api_handle P 429 err"

definition HandleConflict :: "error_pkg \<Rightarrow> go_error \<Rightarrow> 'a response" where
  "HandleConflict P err = api_handle P 409 err"

definition HandleError :: "error_pkg \<Rightarrow> go_error \<Rightarrow> 'a response" where
  "HandleError P err = api_handle P (case er_Code P err of Some code \<Rightarrow> code | None \<Rightarrow> 500) err"

text \<open>The end of every handler.\<close>

definition respond :: "error_pkg \<Rightarrow> 'a go_result \<Rightarrow> 'a response" where
  "respond P result =
     (case result of
        Inr x \<Rightarrow> Entity x
      | Inl err \<Rightarrow> (case err of GoPanic m \<Rightarrow> Panicked m | _ \<Rightarrow> HandleError P err))"

section \<open>Handlers\<close>

record ApiRequest =
  ar_PathParameter :: "string \<Rightarrow> string"
  ar_Query :: "string \<rightharpoonup> string list"

record 's api_env =
  ae_operator :: "'s operator"
  ae_errors :: error_pkg
  ae_parse :: "string \<Rightarrow> (labels \<Rightarrow> bool) option"
  ae_requirement :: "string \<Rightarrow> string option \<Rightarrow> (labels \<Rightarrow> bool) go_result"
  ae_sortVersions :: "StampedVersion sort_slice"
  ae_sortTemplates :: "TemplateView sort_slice"
  ae_sortDeployments :: "DeploymentView sort_slice"
  ae_unmarshal :: "string \<Rightarrow> ResourceTemplateConfig go_result"
  ae_ordQuery :: "(string \<rightharpoonup> string list) \<Rightarrow> string list"
  ae_ordFilters :: "(string \<rightharpoonup> string) \<Rightarrow> string list"
  ae_ordGroups :: "(string \<rightharpoonup> ServiceGroupItem) \<Rightarrow> string list"

definition parse_query :: "'s api_env \<Rightarrow> ApiRequest \<Rightarrow> Query" where
  "parse_query E req = ParseQueryParameter (ar_Query req) (ae_ordQuery E (ar_Query req))"

definition list_templates :: "'s api_env \<Rightarrow> 's \<Rightarrow> string \<Rightarrow> Query \<Rightarrow> TemplateView ListResult go_result" where
  "list_templates E s workspace q =
     ListInferModelTemplate (ae_operator E) s (ae_requirement E) (ae_sortVersions E) (ae_sortTemplates E) (ae_parse E)
       (ae_ordFilters E (q_Filters q)) workspace q"

definition list_deployments :: "'s api_env \<Rightarrow> 's \<Rightarrow> string \<Rightarrow> Query \<Rightarrow> DeploymentView ListResult go_result" where
  "list_deployments E s namespace q =
     ListInferModelDeployments (ae_operator E) s (ae_sortDeployments E) (ae_parse E) (ae_ordFilters E (q_Filters q)) namespace q"

definition handleListWorkspaceInferModelTemplates :: "'s api_env \<Rightarrow> 's \<Rightarrow> ApiRequest \<Rightarrow> TemplateView ListResult response" where
  "handleListWorkspaceInferModelTemplates E s req =
     respond (ae_errors E) (list_templates E s (ar_PathParameter req ''workspace'') (parse_query E req))"

definition handleGetWorkSpaceInferModelTemplate :: "'s api_env \<Rightarrow> 's \<Rightarrow> ApiRequest \<Rightarrow> TemplateView response" where
  "handleGetWorkSpaceInferModelTemplate E s req =
     respond (ae_errors E) (GetInferModelTemplate (ae_operator E) s (ae_sortVersions E) (ar_PathParameter req ''workspace'')
       (ar_PathParameter req ''name''))"

definition handleListInferModelTemplates :: "'s api_env \<Rightarrow> 's \<Rightarrow> ApiRequest \<Rightarrow> TemplateView ListResult response" where
  "handleListInferModelTemplates E s req = respond (ae_errors E) (list_templates E s [] (parse_query E req))"

definition handleGetInferModelTemplate :: "'s api_env \<Rightarrow> 's \<Rightarrow> ApiRequest \<Rightarrow> TemplateView response" where
  "handleGetInferModelTemplate E s req =
     respond (ae_errors E) (GetInferModelTemplate (ae_operator E) s (ae_sortVersions E) [] (ar_PathParameter req ''name''))"

definition handleListAllInferModelDeployments :: "'s api_env \<Rightarrow> 's \<Rightarrow> ApiRequest \<Rightarrow> DeploymentView ListResult response" where
  "handleListAllInferModelDeployments E s req = respond (ae_errors E) (list_deployments E s [] (parse_query E req))"

definition handleListInferModelDeployments :: "'s api_env \<Rightarrow> 's \<Rightarrow> ApiRequest \<Rightarrow> DeploymentView ListResult response" where
  "handleListInferModelDeployments E s req =
     respond (ae_errors E) (list_deployments E s (ar_PathParameter req ''namespace'') (parse_query E req))"

definition handleGetInferModelDeployment :: "'s api_env \<Rightarrow> 's \<Rightarrow> ApiRequest \<Rightarrow> DeploymentView response" where
  "handleGetInferModelDeployment E s req =
     respond (ae_errors E) (GetInferModelDeployment (ae_operator E) s (ar_PathParameter req ''namespace'') (ar_PathParameter req ''name''))"

text \<open>A flag that does not parse is false.\<close>

definition handleDeleteInferModelDeployment :: "'s api_env \<Rightarrow> 's \<Rightarrow> ApiRequest \<Rightarrow> DeploymentView response \<times> 's" where
  "handleDeleteInferModelDeployment E s req =
     (let deleteWorkloads = (ParseBool (QueryParameter (ar_Query req) ''delete_workloads'') = Some True);
          (result, s') = DeleteInferModelDeployment (ae_operator E) s (ar_PathParameter req ''namespace'')
             (ar_PathParameter req ''name'') deleteWorkloads
      in (respond (ae_errors E) result, s'))"

definition handleGetSpecifications :: "'s api_env \<Rightarrow> 's \<Rightarrow> ApiRequest \<Rightarrow> NodeSpecifications response" where
  "handleGetSpecifications E s req =
     respond (ae_errors E) (ListNodeSpecifications (ae_operator E) s (ae_unmarshal E) (ar_PathParameter req ''node''))"

definition handleGetDeployedInferModelServer :: "'s api_env \<Rightarrow> 's \<Rightarrow> ApiRequest \<Rightarrow> InferModelServer list response" where
  "handleGetDeployedInferModelServer E s req =
     respond (ae_errors E) (ListRunningInferModelServers (ae_operator E) s (ae_requirement E) (ae_ordGroups E)
       (QueryParameter (ar_Query req) ''node_group''))"

section \<open>Error texts\<close>

text \<open>The inverse of the replacer.\<close>

fun unescape :: "string \<Rightarrow> string" where
  "unescape [] = []"
| "unescape (c # s) =
     (if take 4 s = ''amp;'' \<and> c = CHR ''&'' then CHR ''&'' # unescape (drop 4 s)
      else if take 3 s = ''lt;'' \<and> c = CHR ''&'' then CHR ''<'' # unescape (drop 3 s)
      else if take 3 s = ''gt;'' \<and> c = CHR ''&'' then CHR ''>'' # unescape (drop 3 s)
      else c # unescape s)"

lemma sanitize_roundtrip: "unescape (sanitizer_Replace s) = s"
  by (induction s) (auto simp: sanitizer_Replace_def sanitize_char_def)

lemma sanitize_no_html: "CHR ''<'' \<notin> set (sanitizer_Replace s) \<and> CHR ''>'' \<notin> set (sanitizer_Replace s)"
  by (auto simp: sanitizer_Replace_def sanitize_char_def split: if_splits)

text \<open>
  An operation's error is answered with the code it carries, or 500, and a text with no angle
  bracket from which the error's own text can be read back.
\<close>

theorem error_answer:
  assumes "respond P result = HttpError code txt"
  shows "\<exists>err. result = Inl err \<and> code = (case er_Code P err of Some c \<Rightarrow> c | None \<Rightarrow> 500) \<and>
    CHR ''<'' \<notin> set txt \<and> CHR ''>'' \<notin> set txt \<and> unescape txt = er_Error P err"
  using assms sanitize_no_html sanitize_roundtrip
  by (cases result) (auto simp: respond_def HandleError_def api_handle_def split: go_error.splits)

lemma invalid_group_panics:
  assumes "ae_requirement E LabelNodeGroup (Some g) = Inl err" and "g \<noteq> []"
    and "QueryParameter (ar_Query req) ''node_group'' = g"
  shows "\<exists>m. handleGetDeployedInferModelServer E s req = Panicked m"
  using assms
  by (auto simp: handleGetDeployedInferModelServer_def ListRunningInferModelServers_def deref_def respond_def split: sum.splits)

section \<open>Lists\<close>

text \<open>What a cache promises of a list: the objects of the namespace (or of all) that the selector selects.\<close>

definition dp_list_ok :: "'s operator \<Rightarrow> ('s \<Rightarrow> StatusDeployment list) \<Rightarrow> bool" where
  "dp_list_ok D dps \<longleftrightarrow> (\<forall>s sel ns ds. rd_List (op_dp D s) sel ns = Inr ds \<longrightarrow>
     ds = filter (\<lambda>d. sel (dp_Labels d) \<and> (ns = [] \<or> dp_Namespace d = ns)) (dps s))"

lemma collect_Inr: "collect f xs = Inr ys \<Longrightarrow> y \<in> set ys \<Longrightarrow> \<exists>x \<in> set xs. f x = Inr y"
  by (induction xs arbitrary: ys) (auto split: sum.splits)

lemma list_result_items:
  assumes "sort_ok sortSlice" and "list_result sortSlice parse fs q items = Inr lr"
  shows "set (lr_Items lr) \<subseteq> set items"
proof -
  have "set (FilterAndSort sortSlice parse fs q items) \<subseteq> set items"
    using assms(1) unfolding sort_ok_def FilterAndSort_def Let_def
    by (metis (no_types, lifting) filter_is_subset set_mset_mset)
  moreover have "set (lr_Items lr) \<subseteq> set (FilterAndSort sortSlice parse fs q items)"
    using assms(2) by (auto simp: list_result_def Processor_Pagination_def slice_range_def Let_def map_sum_def
        split: sum.splits prod.splits option.splits if_splits dest!: in_set_takeD in_set_dropD)
  ultimately show ?thesis by blast
qed

lemma listed_workloads:
  assumes "dp_list_ok (ae_operator E) dps" and "sort_ok (ae_sortDeployments E)"
    and "list_deployments E s ns q = Inr lr" and "v \<in> set (lr_Items lr)"
  shows "dv_Workloads v = filter (\<lambda>d. dp_Labels d LabelIMDeployment = Some (om_Name v) \<and> (ns = [] \<or> dp_Namespace d = ns)) (dps s)"
proof -
  obtain views where views: "listInferModelDeployments (ae_operator E) s ns (Selector (ae_parse E) q) = Inr views"
    "list_result (ae_sortDeployments E) (ae_parse E) (ae_ordFilters E (q_Filters q)) q views = Inr lr"
    using assms(3) by (auto simp: list_deployments_def ListInferModelDeployments_def split: sum.splits)
  then obtain imd where imd: "getDeployWithWorkloadStatus (ae_operator E) s ns imd = Inr v"
    using list_result_items [OF assms(2) views(2)] assms(4) collect_Inr
    by (fastforce simp: listInferModelDeployments_def split: sum.splits)
  then obtain ds where ds: "rd_List (op_dp (ae_operator E) s) (selects [(LabelIMDeployment, imd_Name imd)]) ns = Inr ds"
    "v = deployment_view imd (foldl count_workload no_stats ds) ds"
    by (auto simp: getDeployWithWorkloadStatus_def split: sum.splits)
  have "ds = filter (\<lambda>d. selects [(LabelIMDeployment, imd_Name imd)] (dp_Labels d) \<and> (ns = [] \<or> dp_Namespace d = ns)) (dps s)"
    using assms(1) ds(1) unfolding dp_list_ok_def by blast
  then show ?thesis by (simp add: ds(2) deployment_view_def selects_def)
qed

text \<open>
  The list of one namespace shows with each infer model deployment its workloads of that namespace; the list over all
  namespaces shows with each of them the workloads of every namespace that carry its name, so also those of a
  namesake in another namespace.
\<close>

theorem all_namespaces_mix_workloads:
  assumes "dp_list_ok (ae_operator E) dps" and "sort_ok (ae_sortDeployments E)"
  shows "(handleListInferModelDeployments E s req = Entity lr \<longrightarrow> (\<forall>v \<in> set (lr_Items lr). ar_PathParameter req ''namespace'' \<noteq> [] \<longrightarrow>
      dv_Workloads v = filter (\<lambda>d. dp_Labels d LabelIMDeployment = Some (om_Name v) \<and>
        dp_Namespace d = ar_PathParameter req ''namespace'') (dps s))) \<and>
    (handleListAllInferModelDeployments E s req = Entity lr \<longrightarrow> (\<forall>v \<in> set (lr_Items lr).
      dv_Workloads v = filter (\<lambda>d. dp_Labels d LabelIMDeployment = Some (om_Name v)) (dps s)))"
  using listed_workloads [OF assms]
  by (auto simp: handleListInferModelDeployments_def handleListAllInferModelDeployments_def respond_def HandleError_def
      api_handle_def split: sum.splits go_error.splits)

definition sample_api :: "StatusDeployment list api_env" where
  "sample_api =
     \<lparr>ae_operator = sample_operator, ae_errors = \<lparr>er_Error = (\<lambda>_. ''error''), er_Code = (\<lambda>_. None)\<rparr>, ae_parse = (\<lambda>_. None),
      ae_requirement = (\<lambda>k v. Inr (\<lambda>ls. case v of None \<Rightarrow> ls k \<noteq> None | Some x \<Rightarrow> ls k = Some x)),
      ae_sortVersions = insertion_sort, ae_sortTemplates = insertion_sort, ae_sortDeployments = insertion_sort,
      ae_unmarshal = (\<lambda>_. Inr empty_config), ae_ordQuery = (\<lambda>_. []), ae_ordFilters = (\<lambda>_. []), ae_ordGroups = (\<lambda>_. [])\<rparr>"

definition sample_api_request :: ApiRequest where
  "sample_api_request = \<lparr>ar_PathParameter = (\<lambda>_. []), ar_Query = Map.empty\<rparr>"

definition sample_workload :: "string \<Rightarrow> StatusDeployment" where
  "sample_workload ns = \<lparr>dp_Name = ''cam-g-n1'', dp_Namespace = ns, dp_UID = [], dp_Labels = [LabelIMDeployment \<mapsto> ''cam''],
     dp_Replicas = None, dp_Template = \<lparr>pt_Labels = None, pt_NodeSelector = Map.empty, pt_Tolerations = [], pt_rest = []\<rparr>,
     dp_Strategy = [], dp_MatchLabels = Map.empty, dp_Conditions = [(''Available'', ''True'')]\<rparr>"

lemma sample_list_ok: "dp_list_ok sample_operator (\<lambda>s. s)"
  by (simp add: dp_list_ok_def sample_operator_def)

lemma sample_listing:
  fixes s :: "StatusDeployment list"
  defines "s \<equiv> [sample_workload ''edge'', sample_workload ''other'']"
  assumes "ar_Query req = Map.empty"
  shows "handleListAllInferModelDeployments sample_api s req =
    Entity \<lparr>lr_Items = [deployment_view sample_stamped (foldl count_workload no_stats s) s], lr_TotalItems = 1\<rparr>"
proof -
  let ?v = "deployment_view sample_stamped (foldl count_workload no_stats s) s"
  have q: "parse_query sample_api req = Query_New\<lparr>q_Pagination := Some (newPagination (- 1) 0), q_SortBy := FieldCreationTimeStamp\<rparr>"
    by (simp add: parse_query_def sample_api_def assms(2) ParseQueryParameter_def QueryParameter_def Atoi_def parse_nat_def
        defaultString_def ParseBool_def add_filters_def i64_def Query_New_def)
  have "listInferModelDeployments sample_operator s [] sel = Inr [?v]" for sel
    by (simp add: s_def listInferModelDeployments_def getDeployWithWorkloadStatus_def sample_operator_def one_object_def
        selects_def sample_workload_def sample_stamped_def)
  then show ?thesis
    unfolding handleListAllInferModelDeployments_def q
    by (simp add: sample_api_def list_deployments_def ListInferModelDeployments_def respond_def list_result_def FilterAndSort_def
        Processor_Pagination_def GetValidPagination_def newPagination_def NoPagination_def slice_range_def Query_New_def insertion_sort_def Let_def)
qed

theorem all_namespaces_mix_workloads_witness:
  "\<exists>lr v. handleListAllInferModelDeployments sample_api [sample_workload ''edge'', sample_workload ''other''] sample_api_request = Entity lr \<and>
     v \<in> set (lr_Items lr) \<and> om_Namespace v = ''edge'' \<and> dv_Workloads v = [sample_workload ''edge'', sample_workload ''other'']"
proof -
  let ?s = "[sample_workload ''edge'', sample_workload ''other'']"
  let ?v = "deployment_view sample_stamped (foldl count_workload no_stats ?s) ?s"
  have ok: "dp_list_ok (ae_operator sample_api) (\<lambda>s. s)" "sort_ok (ae_sortDeployments sample_api)"
    using sample_list_ok insertion_sort_ok by (simp_all add: sample_api_def)
  have r: "handleListAllInferModelDeployments sample_api ?s sample_api_request = Entity \<lparr>lr_Items = [?v], lr_TotalItems = 1\<rparr>"
    by (rule sample_listing) (simp add: sample_api_request_def)
  from all_namespaces_mix_workloads [OF ok, of ?s sample_api_request, THEN conjunct2, rule_format, OF r, of ?v]
  have "dv_Workloads ?v = ?s" by (simp add: sample_workload_def deployment_view_def sample_stamped_def)
  moreover have "om_Namespace ?v = ''edge''" by (simp add: deployment_view_def sample_stamped_def)
  ultimately show ?thesis using r by (intro exI [of _ "\<lparr>lr_Items = [?v], lr_TotalItems = 1\<rparr>"] exI [of _ ?v]) simp
qed

end
