(* ===== verification/Metrics.thy ===== *)
theory Metrics
  imports Xconfig
begin

text \<open>
  \<open>internal/broker/metrics\<close>: the broker's metrics. The collector scrapes the metrics endpoint at an interval and
  sends what it read to the remote write endpoint: metric families become time series whose labels are
  sorted by name. The text parser, the protocol buffer and snappy encoders and HTTP are arguments.

  A float64 is a value of any type \<open>'v\<close>, with \<open>fmt.Sprint\<close> and the conversion of counters in \<open>float_pkg\<close>. The order
  in which a map is ranged over is the argument \<open>ord\<close>, a function from maps to lists of their keys; the results
  are shown not to depend on it. \<open>sort.Strings\<close> on distinct names is HOL's \<open>sort\<close>. The clock is read once for
  every metric; it is indexed by the number of time series written so far.
\<close>

section \<open>Data\<close>

record 'v float_pkg =
  fl_Sprint :: "'v \<Rightarrow> string"
  fl_of_uint :: "nat \<Rightarrow> 'v"

record 'v Summary =
  su_Quantile :: "('v \<times> 'v) list"
  su_SampleSum :: 'v
  su_SampleCount :: nat

record 'v Histogram =
  hg_Bucket :: "('v \<times> nat) list"
  hg_SampleSum :: 'v
  hg_SampleCount :: nat

record 'v Metric =
  mt_Label :: "(string \<times> string) list"
  mt_TimestampMs :: int
  mt_Gauge :: "'v option"
  mt_Counter :: "'v option"
  mt_Summary :: "'v Summary option"
  mt_Histogram :: "'v Histogram option"
  mt_Untyped :: "'v option"

record 'v MetricFamily =
  mf_Name :: string
  mf_Help :: string
  mf_Type :: string
  mf_Metric :: "'v Metric list"

record MetricMetadata =
  md_MetricFamilyName :: string
  md_Type :: nat
  md_Help :: string

record 'v TimeSeries =
  ts_Labels :: "(string \<times> string) list"
  ts_Samples :: "(int \<times> 'v) list"

record 'v WriteRequest =
  wr_Metadata :: "MetricMetadata list"
  wr_Timeseries :: "'v TimeSeries list"

type_synonym tags = "string \<rightharpoonup> string"

definition MetricNameLabel :: string where "MetricNameLabel = ''__name__''"
definition QuantileLabel :: string where "QuantileLabel = ''quantile''"
definition BucketLabel :: string where "BucketLabel = ''le''"
definition JobLabel :: string where "JobLabel = ''job''"
definition ExportedLabelPrefix :: string where "ExportedLabelPrefix = ''exported_''"
definition sumStr :: string where "sumStr = ''_sum''"
definition countStr :: string where "countStr = ''_count''"
definition bucketStr :: string where "bucketStr = ''_bucket''"

lemmas metric_defs =
  MetricNameLabel_def QuantileLabel_def BucketLabel_def JobLabel_def ExportedLabelPrefix_def sumStr_def
  countStr_def bucketStr_def

text \<open>A type that is not in the table, as UNTYPED, is 0.\<close>

definition MetricMetadataTypeValue :: "string \<Rightarrow> nat" where
  "MetricMetadataTypeValue t =
     (case map_of [(''UNKNOWN'', 0), (''COUNTER'', 1), (''GAUGE'', 2), (''HISTOGRAM'', 3), (''GAUGEHISTOGRAM'', 4),
        (''SUMMARY'', 5), (''INFO'', 6), (''STATESET'', 7)] t of None \<Rightarrow> 0 | Some n \<Rightarrow> n)"

section \<open>Time series\<close>

definition makeLabels :: "(tags \<Rightarrow> string list) \<Rightarrow> tags \<Rightarrow> (string \<times> string) list" where
  "makeLabels ord labelsMap = map (\<lambda>label. (label, the (labelsMap label))) (sort (ord labelsMap))"

definition add_label :: "tags \<Rightarrow> string \<times> string \<Rightarrow> tags" where
  "add_label labels l =
     (let labelname = (if fst l = JobLabel then ExportedLabelPrefix @ fst l else fst l)
      in if snd l = [] \<or> labelname = [] then labels else labels(labelname \<mapsto> snd l))"

definition makeLabelsMap :: "(tags \<Rightarrow> string list) \<Rightarrow> 'v Metric \<Rightarrow> string \<Rightarrow> tags \<Rightarrow> tags" where
  "makeLabelsMap ord m metricName extraLabels =
     (let labels = [MetricNameLabel \<mapsto> metricName];
          labels = foldl (\<lambda>ls key. ls(key \<mapsto> the (extraLabels key))) labels (ord extraLabels)
      in foldl add_label labels (mt_Label m))"

definition toTimeseries :: "(tags \<Rightarrow> string list) \<Rightarrow> tags \<Rightarrow> int \<Rightarrow> 'v \<Rightarrow> 'v WriteRequest \<Rightarrow> 'v WriteRequest" where
  "toTimeseries ord labels timestamp v wr =
     wr\<lparr>wr_Timeseries := wr_Timeseries wr @ [\<lparr>ts_Labels = makeLabels ord labels, ts_Samples = [(timestamp, v)]\<rparr>]\<rparr>"

text \<open>The loops over quantiles and buckets write into one copy of the labels.\<close>

fun quantile_loop ::
  "'v float_pkg \<Rightarrow> (tags \<Rightarrow> string list) \<Rightarrow> int \<Rightarrow> ('v \<times> 'v) list \<Rightarrow> tags \<Rightarrow> 'v WriteRequest \<Rightarrow> 'v WriteRequest" where
  "quantile_loop F ord timestamp [] quantileLabels wr = wr"
| "quantile_loop F ord timestamp ((q, v) # qs) quantileLabels wr =
     (let quantileLabels = quantileLabels(QuantileLabel \<mapsto> fl_Sprint F q)
      in quantile_loop F ord timestamp qs quantileLabels (toTimeseries ord quantileLabels timestamp v wr))"

fun bucket_loop ::
  "'v float_pkg \<Rightarrow> (tags \<Rightarrow> string list) \<Rightarrow> int \<Rightarrow> string \<Rightarrow> ('v \<times> nat) list \<Rightarrow> tags \<Rightarrow> 'v WriteRequest \<Rightarrow> 'v WriteRequest" where
  "bucket_loop F ord timestamp metricName [] bucketLabels wr = wr"
| "bucket_loop F ord timestamp metricName ((upperBound, cumulativeCount) # bs) bucketLabels wr =
     (let bucketLabels = bucketLabels(MetricNameLabel \<mapsto> metricName @ bucketStr, BucketLabel \<mapsto> fl_Sprint F upperBound)
      in bucket_loop F ord timestamp metricName bs bucketLabels
           (toTimeseries ord bucketLabels timestamp (fl_of_uint F cumulativeCount) wr))"

text \<open>The sum and the count of a summary or histogram, under the metric's name with a suffix.\<close>

definition sum_and_count ::
  "(tags \<Rightarrow> string list) \<Rightarrow> int \<Rightarrow> string \<Rightarrow> tags \<Rightarrow> 'v \<Rightarrow> 'v \<Rightarrow> 'v WriteRequest \<Rightarrow> 'v WriteRequest" where
  "sum_and_count ord timestamp metricName labels s c wr =
     (let labels = labels(MetricNameLabel \<mapsto> metricName @ sumStr);
          wr = toTimeseries ord labels timestamp s wr;
          labels = labels(MetricNameLabel \<mapsto> metricName @ countStr)
      in toTimeseries ord labels timestamp c wr)"

definition makeTimeseries ::
  "'v float_pkg \<Rightarrow> (tags \<Rightarrow> string list) \<Rightarrow> (nat \<Rightarrow> int) \<Rightarrow> tags \<Rightarrow> 'v Metric \<Rightarrow> 'v WriteRequest
   \<Rightarrow> go_error option \<times> 'v WriteRequest" where
  "makeTimeseries F ord clock labels m wr =
     (let timestamp = (if mt_TimestampMs m = 0 then clock (length (wr_Timeseries wr)) else mt_TimestampMs m);
          metricName = (case labels MetricNameLabel of None \<Rightarrow> [] | Some n \<Rightarrow> n)
      in case mt_Gauge m of
           Some v \<Rightarrow> (None, toTimeseries ord labels timestamp v wr)
         | None \<Rightarrow> (case mt_Counter m of
           Some v \<Rightarrow> (None, toTimeseries ord labels timestamp v wr)
         | None \<Rightarrow> (case mt_Summary m of
           Some su \<Rightarrow>
             (None, sum_and_count ord timestamp metricName labels (su_SampleSum su) (fl_of_uint F (su_SampleCount su))
                (quantile_loop F ord timestamp (su_Quantile su) labels wr))
         | None \<Rightarrow> (case mt_Histogram m of
           Some hg \<Rightarrow>
             (None, sum_and_count ord timestamp metricName labels (hg_SampleSum hg) (fl_of_uint F (hg_SampleCount hg))
                (bucket_loop F ord timestamp metricName (hg_Bucket hg) labels wr))
         | None \<Rightarrow> (case mt_Untyped m of
           Some v \<Rightarrow> (None, toTimeseries ord labels timestamp v wr)
         | None \<Rightarrow> (Some (Errorf ''unsupported metric type''), wr))))))"

fun metric_loop ::
  "'v float_pkg \<Rightarrow> (tags \<Rightarrow> string list) \<Rightarrow> (nat \<Rightarrow> int) \<Rightarrow> string \<Rightarrow> tags \<Rightarrow> 'v Metric list \<Rightarrow> 'v WriteRequest
   \<Rightarrow> go_error option \<times> 'v WriteRequest" where
  "metric_loop F ord clock metricName extraLabels [] wr = (None, wr)"
| "metric_loop F ord clock metricName extraLabels (metric # ms) wr =
     (case makeTimeseries F ord clock (makeLabelsMap ord metric metricName extraLabels) metric wr of
        (None, wr') \<Rightarrow> metric_loop F ord clock metricName extraLabels ms wr'
      | (Some err, wr') \<Rightarrow> (Some err, wr'))"

fun family_loop ::
  "'v float_pkg \<Rightarrow> (tags \<Rightarrow> string list) \<Rightarrow> (nat \<Rightarrow> int) \<Rightarrow> (string \<rightharpoonup> 'v MetricFamily) \<Rightarrow> tags \<Rightarrow> string list \<Rightarrow> 'v WriteRequest
   \<Rightarrow> go_error option \<times> 'v WriteRequest" where
  "family_loop F ord clock mf extraLabels [] wr = (None, wr)"
| "family_loop F ord clock mf extraLabels (metricName # names) wr =
     (let f = the (mf metricName);
          wr = wr\<lparr>wr_Metadata := wr_Metadata wr @ [\<lparr>md_MetricFamilyName = mf_Name f, md_Type = MetricMetadataTypeValue (mf_Type f),
                                                    md_Help = mf_Help f\<rparr>]\<rparr>
      in case metric_loop F ord clock metricName extraLabels (mf_Metric f) wr of
           (None, wr') \<Rightarrow> family_loop F ord clock mf extraLabels names wr'
         | (Some err, wr') \<Rightarrow> (Some err, wr'))"

text \<open>\<open>ks\<close> is the order of the range over the families. The error comes with what was written before it.\<close>

definition MetricFamiliesToWriteRequest ::
  "'v float_pkg \<Rightarrow> (tags \<Rightarrow> string list) \<Rightarrow> (nat \<Rightarrow> int) \<Rightarrow> string list \<Rightarrow> (string \<rightharpoonup> 'v MetricFamily) \<Rightarrow> tags
   \<Rightarrow> go_error option \<times> 'v WriteRequest" where
  "MetricFamiliesToWriteRequest F ord clock ks mf extraLabels =
     family_loop F ord clock mf extraLabels (sort ks) \<lparr>wr_Metadata = [], wr_Timeseries = []\<rparr>"

section \<open>The collector\<close>

definition GetEdgeProxyAddress :: "(string \<Rightarrow> string) \<Rightarrow> string" where
  "GetEdgeProxyAddress getenv =
     (let proxyPort = (if getenv ''METRICS_PROXY_PORT'' = [] then ''19101'' else getenv ''METRICS_PROXY_PORT'')
      in ''http://'' @ getenv ''NODE_IP'' @ '':'' @ proxyPort @ ''/api/v1/write'')"

text \<open>
  \<open>sendRemoteWriteRequest\<close>: \<open>marshal\<close> encodes the request (compression cannot fail), \<open>newRequest\<close> is the error of
  building the HTTP request, \<open>post\<close> sends it and gives the status code.
\<close>

definition sendRemoteWriteRequest ::
  "('r \<Rightarrow> nat list go_result) \<Rightarrow> (string \<Rightarrow> go_error option) \<Rightarrow> (string \<Rightarrow> nat list \<Rightarrow> nat go_result) \<Rightarrow> string \<Rightarrow> 'r
   \<Rightarrow> go_error option" where
  "sendRemoteWriteRequest marshal newRequest post url req =
     (case marshal req of
        Inl err \<Rightarrow> Some (Errorf ''failed to marshal request'')
      | Inr data \<Rightarrow>
          (case newRequest url of
             Some err \<Rightarrow> Some (Errorf ''failed to create HTTP request'')
           | None \<Rightarrow>
               (case post url data of
                  Inl err \<Rightarrow> Some (Errorf ''failed to send remote write request'')
                | Inr code \<Rightarrow> if code div 100 \<noteq> 2 then Some (Errorf (''unexpected status code: '' @ show_nat code)) else None)))"

record MetricCollector =
  mc_MetricAddr :: string
  mc_Interval :: duration
  mc_StopCh :: bool

definition NewMetricCollector :: "PromMetrics \<Rightarrow> MetricCollector" where
  "NewMetricCollector cfg = \<lparr>mc_MetricAddr = pm_Addr cfg, mc_Interval = pm_ScrapeInterval cfg, mc_StopCh = False\<rparr>"

definition MetricCollector_Stop :: "MetricCollector \<Rightarrow> MetricCollector go_result" where
  "MetricCollector_Stop mc =
     (if mc_StopCh mc then Inl (GoPanic ''close of closed channel'') else Inr (mc\<lparr>mc_StopCh := True\<rparr>))"

text \<open>\<open>scrape\<close>: \<open>get\<close> fetches the page, \<open>toWriteRequest\<close> is \<open>MetricTextToWriteRequest\<close>, \<open>send\<close> is \<open>sendRemoteWriteRequest\<close>.\<close>

definition scrape ::
  "(string \<Rightarrow> string go_result) \<Rightarrow> (string \<Rightarrow> 'r go_result) \<Rightarrow> ('r \<Rightarrow> go_error option) \<Rightarrow> MetricCollector \<Rightarrow> go_error option" where
  "scrape get toWriteRequest send mc =
     (case get (''http://'' @ mc_MetricAddr mc @ ''/metrics'') of
        Inl err \<Rightarrow> Some err
      | Inr body \<Rightarrow> (case toWriteRequest body of Inl err \<Rightarrow> Some err | Inr wreq \<Rightarrow> send wreq))"

definition MetricTextToWriteRequest ::
  "'v float_pkg \<Rightarrow> (tags \<Rightarrow> string list) \<Rightarrow> (nat \<Rightarrow> int) \<Rightarrow> (string \<Rightarrow> (string list \<times> (string \<rightharpoonup> 'v MetricFamily)) go_result)
   \<Rightarrow> string \<Rightarrow> tags \<Rightarrow> 'v WriteRequest go_result" where
  "MetricTextToWriteRequest F ord clock parse input labels =
     (case parse input of
        Inl err \<Rightarrow> Inl err
      | Inr (ks, mf) \<Rightarrow>
          (case MetricFamiliesToWriteRequest F ord clock ks mf labels of
             (Some err, wr) \<Rightarrow> Inl err
           | (None, wr) \<Rightarrow> Inr wr))"

text \<open>
  The loop of \<open>Run\<close>: the select yields the end of the context, the stop channel, or a tick, which comes with the
  result of its scrape. The result is the error of the last scrape; \<open>None\<close> while the loop runs.
\<close>

datatype run_event = RunCtxDone | RunStop | RunTick "go_error option"

fun collector_Run :: "go_error option \<Rightarrow> run_event list \<Rightarrow> go_error option option" where
  "collector_Run err [] = None"
| "collector_Run err (RunCtxDone # evs) = Some err"
| "collector_Run err (RunStop # evs) = Some err"
| "collector_Run err (RunTick e # evs) = collector_Run e evs"

section \<open>The metric servers\<close>

definition PromMetricsServer_Run :: "go_error option \<Rightarrow> go_error option" where
  "PromMetricsServer_Run listenAndServe =
     (case listenAndServe of Some err \<Rightarrow> if err \<noteq> ErrServerClosed then Some err else None | None \<Rightarrow> None)"

record PProfServer =
  pp_Addr :: string
  pp_Enable :: bool

definition NewPProfSrv :: "bool \<Rightarrow> PProfServer" where
  "NewPProfSrv enable = \<lparr>pp_Addr = ''0.0.0.0:6060'', pp_Enable = enable\<rparr>"

definition PProfServer_Run :: "PProfServer \<Rightarrow> go_error option \<Rightarrow> go_error option" where
  "PProfServer_Run pp listenAndServe =
     (if \<not> pp_Enable pp then None
      else case listenAndServe of Some err \<Rightarrow> if err \<noteq> ErrServerClosed then Some err else None | None \<Rightarrow> None)"

text \<open>The values the package's \<open>init\<close> takes from the environment: pod, container, seconds to sleep per request.\<close>

definition metrics_init :: "(string \<Rightarrow> string) \<Rightarrow> string \<times> string \<times> int" where
  "metrics_init getenv =
     ((if getenv ''POD_NAME'' = [] then ''unknown'' else getenv ''POD_NAME''),
      (if getenv ''CONTAINER_NAME'' = [] then ''unknown'' else getenv ''CONTAINER_NAME''),
      (case Atoi (getenv ''REQUEST_SLEEP_SECOND'') of None \<Rightarrow> 0 | Some n \<Rightarrow> n))"

section \<open>Write requests\<close>

text \<open>The law of the range over a map: every key once.\<close>

definition ord_ok :: "(tags \<Rightarrow> string list) \<Rightarrow> bool" where
  "ord_ok ord \<longleftrightarrow> (\<forall>m. finite (dom m) \<longrightarrow> map_order (ord m) m)"

text \<open>The reference: the labels and values of a metric, with no shared map and no order of a range.\<close>

definition metric_labels :: "tags \<Rightarrow> string \<Rightarrow> 'v Metric \<Rightarrow> tags" where
  "metric_labels extraLabels metricName m = foldl add_label ([MetricNameLabel \<mapsto> metricName] ++ extraLabels) (mt_Label m)"

definition metric_points :: "'v float_pkg \<Rightarrow> tags \<Rightarrow> 'v Metric \<Rightarrow> (tags \<times> 'v) list option" where
  "metric_points F labels m =
     (let n = (case labels MetricNameLabel of None \<Rightarrow> [] | Some n \<Rightarrow> n);
          tail = (\<lambda>s c. [(labels(MetricNameLabel \<mapsto> n @ sumStr), s), (labels(MetricNameLabel \<mapsto> n @ countStr), c)])
      in if mt_Gauge m \<noteq> None then Some [(labels, the (mt_Gauge m))]
         else if mt_Counter m \<noteq> None then Some [(labels, the (mt_Counter m))]
         else if mt_Summary m \<noteq> None then
           Some (map (\<lambda>(q, v). (labels(QuantileLabel \<mapsto> fl_Sprint F q), v)) (su_Quantile (the (mt_Summary m)))
                 @ tail (su_SampleSum (the (mt_Summary m))) (fl_of_uint F (su_SampleCount (the (mt_Summary m)))))
         else if mt_Histogram m \<noteq> None then
           Some (map (\<lambda>(u, c). (labels(MetricNameLabel \<mapsto> n @ bucketStr, BucketLabel \<mapsto> fl_Sprint F u), fl_of_uint F c))
                   (hg_Bucket (the (mt_Histogram m)))
                 @ tail (hg_SampleSum (the (mt_Histogram m))) (fl_of_uint F (hg_SampleCount (the (mt_Histogram m)))))
         else map_option (\<lambda>v. [(labels, v)]) (mt_Untyped m))"

definition family_points :: "'v float_pkg \<Rightarrow> tags \<Rightarrow> (string \<rightharpoonup> 'v MetricFamily) \<Rightarrow> string \<Rightarrow> (tags \<times> 'v) list" where
  "family_points F extraLabels mf n =
     concat (map (\<lambda>m. the (metric_points F (metric_labels extraLabels n m) m)) (mf_Metric (the (mf n))))"

definition points :: "'v WriteRequest \<Rightarrow> (tags \<times> 'v) list" where
  "points wr = concat (map (\<lambda>ts. map (\<lambda>s. (map_of (ts_Labels ts), snd s)) (ts_Samples ts)) (wr_Timeseries wr))"

definition series_ok :: "'v TimeSeries \<Rightarrow> bool" where
  "series_ok ts \<longleftrightarrow> sorted_wrt (<) (map fst (ts_Labels ts)) \<and> MetricNameLabel \<in> fst ` set (ts_Labels ts) \<and>
     length (ts_Samples ts) = 1"

text \<open>A set of labels a series can be made of: finitely many, the metric's name among them.\<close>

definition tags_ok :: "tags \<Rightarrow> bool" where
  "tags_ok l \<longleftrightarrow> finite (dom l) \<and> MetricNameLabel \<in> dom l"

lemma tags_ok_upd [simp]: "tags_ok l \<Longrightarrow> tags_ok (l(k \<mapsto> v))"
  by (simp add: tags_ok_def)

lemma sort_map_order: "map_order ks m \<Longrightarrow> sort ks = sorted_list_of_set (dom m)"
  using sorted_list_of_set_sort_remdups [of ks] by (simp add: map_order_def distinct_remdups_id)

lemma makeLabels_canonical:
  "ord_ok ord \<Longrightarrow> finite (dom l) \<Longrightarrow> makeLabels ord l = map (\<lambda>k. (k, the (l k))) (sorted_list_of_set (dom l))"
  using sort_map_order [of "ord l" l] by (simp add: makeLabels_def ord_ok_def)

lemma map_of_makeLabels: "ord_ok ord \<Longrightarrow> finite (dom l) \<Longrightarrow> map_of (makeLabels ord l) = l"
  by (rule ext) (simp add: makeLabels_canonical map_of_map_restrict dom_def restrict_map_def)

lemma makeLabels_ok:
  assumes "ord_ok ord" and "tags_ok l"
  shows "series_ok \<lparr>ts_Labels = makeLabels ord l, ts_Samples = [x]\<rparr>"
  using assms by (simp add: series_ok_def tags_ok_def makeLabels_canonical comp_def image_image)

text \<open>What every part of the translation does: it appends good series with the given labels and values.\<close>

definition appends :: "'v WriteRequest \<Rightarrow> 'v WriteRequest \<Rightarrow> (tags \<times> 'v) list \<Rightarrow> bool" where
  "appends wr wr' ps \<longleftrightarrow> wr_Metadata wr' = wr_Metadata wr \<and> points wr' = points wr @ ps \<and>
     (Ball (set (wr_Timeseries wr)) series_ok \<longrightarrow> Ball (set (wr_Timeseries wr')) series_ok)"

lemma appends_trans: "appends a b ps \<Longrightarrow> appends b c qs \<Longrightarrow> appends a c (ps @ qs)"
  by (simp add: appends_def)

lemma appends_nil [simp]: "appends wr wr []"
  by (simp add: appends_def)

lemma toTimeseries_appends:
  assumes "ord_ok ord" and "tags_ok l"
  shows "appends wr (toTimeseries ord l t v wr) [(l, v)]"
  using assms makeLabels_ok [OF assms, where x = "(t, v)"]
  by (simp add: appends_def toTimeseries_def points_def map_of_makeLabels tags_ok_def)

lemma quantile_loop_appends:
  assumes "ord_ok ord" and "tags_ok l"
  shows "appends wr (quantile_loop F ord t qs l wr) (map (\<lambda>(q, v). (l(QuantileLabel \<mapsto> fl_Sprint F q), v)) qs)"
  using assms(2)
proof (induction qs arbitrary: l wr)
  case (Cons a qs)
  obtain q v where a: "a = (q, v)" by (cases a)
  let ?l = "l(QuantileLabel \<mapsto> fl_Sprint F q)"
  have ok: "tags_ok ?l" using Cons.prems by simp
  from appends_trans [OF toTimeseries_appends [OF assms(1) ok] Cons.IH [OF ok]] show ?case
    by (simp add: a Let_def del: fun_upd_apply)
qed simp

lemma bucket_loop_appends:
  assumes "ord_ok ord" and "tags_ok l"
  shows "appends wr (bucket_loop F ord t n bs l wr)
    (map (\<lambda>(u, c). (l(MetricNameLabel \<mapsto> n @ bucketStr, BucketLabel \<mapsto> fl_Sprint F u), fl_of_uint F c)) bs)"
  using assms(2)
proof (induction bs arbitrary: l wr)
  case (Cons a bs)
  obtain u c where a: "a = (u, c)" by (cases a)
  let ?l = "l(MetricNameLabel \<mapsto> n @ bucketStr, BucketLabel \<mapsto> fl_Sprint F u)"
  have ok: "tags_ok ?l" using Cons.prems by simp
  have ov: "?l(MetricNameLabel \<mapsto> n @ bucketStr, BucketLabel \<mapsto> x) = l(MetricNameLabel \<mapsto> n @ bucketStr, BucketLabel \<mapsto> x)" for x
    by (rule ext) simp
  from appends_trans [OF toTimeseries_appends [OF assms(1) ok] Cons.IH [OF ok]] show ?case
    by (simp add: a ov Let_def del: fun_upd_apply)
qed simp

lemma sum_and_count_appends:
  assumes "ord_ok ord" and "tags_ok l"
  shows "appends wr (sum_and_count ord t n l s c wr)
    [(l(MetricNameLabel \<mapsto> n @ sumStr), s), (l(MetricNameLabel \<mapsto> n @ countStr), c)]"
proof -
  have ok: "tags_ok (l(MetricNameLabel \<mapsto> n @ sumStr))" "tags_ok (l(MetricNameLabel \<mapsto> n @ countStr))"
    using assms(2) by simp_all
  from appends_trans [OF toTimeseries_appends [OF assms(1) ok(1)] toTimeseries_appends [OF assms(1) ok(2)]]
  show ?thesis by (simp add: sum_and_count_def Let_def)
qed

lemma makeTimeseries_appends:
  assumes "ord_ok ord" and "tags_ok l"
  shows "case metric_points F l m of
           None \<Rightarrow> makeTimeseries F ord clock l m wr = (Some (Errorf ''unsupported metric type''), wr)
         | Some ps \<Rightarrow> \<exists>wr'. makeTimeseries F ord clock l m wr = (None, wr') \<and> appends wr wr' ps"
proof -
  note one = toTimeseries_appends [OF assms]
  note su = appends_trans [OF quantile_loop_appends [OF assms] sum_and_count_appends [OF assms]]
  note hg = appends_trans [OF bucket_loop_appends [OF assms] sum_and_count_appends [OF assms]]
  show ?thesis
    by (cases "mt_Gauge m"; cases "mt_Counter m"; cases "mt_Summary m"; cases "mt_Histogram m"; cases "mt_Untyped m")
      (simp_all add: makeTimeseries_def metric_points_def Let_def one su hg del: fun_upd_apply)
qed

lemma copy_loop: "foldl (\<lambda>ls key. ls(key \<mapsto> the (extra key))) ls ks = ls ++ map_of (map (\<lambda>k. (k, the (extra k))) (rev ks))"
  by (induction ks arbitrary: ls) (auto simp: map_add_def fun_eq_iff map_of_append split: option.split)

lemma makeLabelsMap_canonical:
  assumes "ord_ok ord" and "finite (dom extraLabels)"
  shows "makeLabelsMap ord m n extraLabels = metric_labels extraLabels n m"
proof -
  have "set (ord extraLabels) = dom extraLabels" using assms by (simp add: ord_ok_def map_order_def)
  then have "map_of (map (\<lambda>k. (k, the (extraLabels k))) (rev (ord extraLabels))) = extraLabels"
    by (auto simp: fun_eq_iff map_of_map_restrict restrict_map_def dom_def)
  then show ?thesis by (simp add: makeLabelsMap_def metric_labels_def Let_def copy_loop)
qed

lemma add_label_ok: "tags_ok l \<Longrightarrow> tags_ok (add_label l x)"
  by (simp add: add_label_def Let_def)

lemma metric_labels_ok: "finite (dom extraLabels) \<Longrightarrow> tags_ok (metric_labels extraLabels n m)"
proof -
  have "tags_ok (foldl add_label l xs)" if "tags_ok l" for l xs
    using that by (induction xs arbitrary: l) (simp_all add: add_label_ok)
  then show "finite (dom extraLabels) \<Longrightarrow> tags_ok (metric_labels extraLabels n m)"
    by (simp add: metric_labels_def tags_ok_def)
qed

definition supported :: "'v Metric \<Rightarrow> bool" where
  "supported m \<longleftrightarrow> mt_Gauge m \<noteq> None \<or> mt_Counter m \<noteq> None \<or> mt_Summary m \<noteq> None \<or> mt_Histogram m \<noteq> None \<or> mt_Untyped m \<noteq> None"

lemma metric_points_supported: "(metric_points F l m = None) = (\<not> supported m)"
  by (auto simp: metric_points_def supported_def Let_def)

lemma metric_loop_appends:
  assumes "ord_ok ord" and "finite (dom extraLabels)"
  shows "case metric_loop F ord clock n extraLabels ms wr of
           (None, wr') \<Rightarrow> (\<forall>m \<in> set ms. supported m) \<and>
              appends wr wr' (concat (map (\<lambda>m. the (metric_points F (metric_labels extraLabels n m) m)) ms))
         | (Some err, wr') \<Rightarrow> err = Errorf ''unsupported metric type'' \<and> (\<exists>m \<in> set ms. \<not> supported m) \<and> (\<exists>ps. appends wr wr' ps)"
proof (induction ms arbitrary: wr)
  case (Cons m ms)
  let ?l = "metric_labels extraLabels n m"
  note step = makeTimeseries_appends [OF assms(1) metric_labels_ok [OF assms(2)], where F = F and m = m and clock = clock and wr = wr and n1 = n and m1 = m]
  show ?case
  proof (cases "metric_points F ?l m")
    case None
    with step metric_points_supported [of F ?l m] show ?thesis
      by (auto simp: makeLabelsMap_canonical [OF assms] intro: appends_nil)
  next
    case (Some ps)
    with step obtain wr' where wr': "makeTimeseries F ord clock ?l m wr = (None, wr')" "appends wr wr' ps" by auto
    have "supported m" using metric_points_supported [of F ?l m] Some by simp
    with Cons.IH [of wr'] wr' Some show ?thesis
      by (auto simp: makeLabelsMap_canonical [OF assms] split: prod.splits option.splits intro: appends_trans)
  qed
qed simp

definition family_metadata :: "'v MetricFamily \<Rightarrow> MetricMetadata" where
  "family_metadata f = \<lparr>md_MetricFamilyName = mf_Name f, md_Type = MetricMetadataTypeValue (mf_Type f), md_Help = mf_Help f\<rparr>"

definition all_supported :: "(string \<rightharpoonup> 'v MetricFamily) \<Rightarrow> string list \<Rightarrow> bool" where
  "all_supported mf names \<longleftrightarrow> (\<forall>n \<in> set names. \<forall>m \<in> set (mf_Metric (the (mf n))). supported m)"

lemma family_loop_spec:
  assumes "ord_ok ord" and "finite (dom extraLabels)"
  shows "case family_loop F ord clock mf extraLabels names wr of
           (err, wr') \<Rightarrow> err = (if all_supported mf names then None else Some (Errorf ''unsupported metric type'')) \<and>
             (Ball (set (wr_Timeseries wr)) series_ok \<longrightarrow> Ball (set (wr_Timeseries wr')) series_ok) \<and>
             (err = None \<longrightarrow> wr_Metadata wr' = wr_Metadata wr @ map (family_metadata \<circ> the \<circ> mf) names \<and>
                points wr' = points wr @ concat (map (family_points F extraLabels mf) names))"
proof (induction names arbitrary: wr)
  case (Cons n names)
  let ?f = "the (mf n)"
  let ?wr = "wr\<lparr>wr_Metadata := wr_Metadata wr @ [family_metadata ?f]\<rparr>"
  note step = metric_loop_appends [OF assms, where F = F and clock = clock and n = n and ms = "mf_Metric ?f" and wr = ?wr]
  have u: "family_loop F ord clock mf extraLabels (n # names) wr =
      (case metric_loop F ord clock n extraLabels (mf_Metric ?f) ?wr of
         (None, wr') \<Rightarrow> family_loop F ord clock mf extraLabels names wr' | (Some err, wr') \<Rightarrow> (Some err, wr'))"
    by (simp add: family_metadata_def Let_def)
  obtain err wr' where m: "metric_loop F ord clock n extraLabels (mf_Metric ?f) ?wr = (err, wr')" by fastforce
  show ?case
  proof (cases err)
    case None
    have pt: "all_supported mf (n # names) = all_supported mf names" "points ?wr = points wr"
      using step by (auto simp: m None all_supported_def points_def)
    have ap: "appends ?wr wr' (family_points F extraLabels mf n)" using step by (simp add: m None family_points_def)
    obtain e wr'' where f: "family_loop F ord clock mf extraLabels names wr' = (e, wr'')" by fastforce
    show ?thesis using Cons.IH [of wr'] ap unfolding u m None f prod.case option.case pt by (simp add: appends_def pt)
  next
    case (Some e)
    with step have "e = Errorf ''unsupported metric type''" "\<not> all_supported mf (n # names)"
      "Ball (set (wr_Timeseries wr)) series_ok \<longrightarrow> Ball (set (wr_Timeseries wr')) series_ok"
      by (auto simp: m all_supported_def appends_def)
    then show ?thesis unfolding u m Some prod.case option.case by simp
  qed
qed (simp add: all_supported_def)

text \<open>
  C35. The write request. Whatever the order of the ranges over the maps, a scraped set of families gives one
  metadata entry per family, in the order of the family names, and then exactly the time series of the reference
  translation: one per gauge, counter and untyped metric, one per quantile or bucket of a summary or histogram and
  its sum and count, under the metric's own name and labels. In every series the labels are strictly sorted by
  name, the metric's name is among them, and there is one sample. The only error is a metric of no supported
  type.
\<close>

theorem write_request_series:
  assumes "ord_ok ord" and "finite (dom extraLabels)" and "map_order ks mf"
    and "MetricFamiliesToWriteRequest F ord clock ks mf extraLabels = (err, wr)"
    and "names = sorted_list_of_set (dom mf)"
  shows "err = (if all_supported mf names then None else Some (Errorf ''unsupported metric type'')) \<and>
    Ball (set (wr_Timeseries wr)) series_ok \<and>
    (err = None \<longrightarrow> wr_Metadata wr = map (family_metadata \<circ> the \<circ> mf) names \<and>
       points wr = concat (map (family_points F extraLabels mf) names))"
  using family_loop_spec [OF assms(1,2), where F = F and clock = clock and mf = mf and names = names
      and wr = "\<lparr>wr_Metadata = [], wr_Timeseries = []\<rparr>"] assms(4,5) sort_map_order [OF assms(3)]
  by (simp add: MetricFamiliesToWriteRequest_def points_def)

text \<open>A histogram of two buckets; numbers stand for themselves.\<close>

definition sample_float :: "nat float_pkg" where
  "sample_float = \<lparr>fl_Sprint = show_nat, fl_of_uint = id\<rparr>"

definition sample_metric :: "nat Metric" where
  "sample_metric = \<lparr>mt_Label = [(''job'', ''x'')], mt_TimestampMs = 5, mt_Gauge = None, mt_Counter = None, mt_Summary = None,
     mt_Histogram = Some \<lparr>hg_Bucket = [(2, 3), (9, 4)], hg_SampleSum = 30, hg_SampleCount = 4\<rparr>, mt_Untyped = None\<rparr>"

definition sample_family :: "nat MetricFamily" where
  "sample_family = \<lparr>mf_Name = ''rt'', mf_Help = ''h'', mf_Type = ''HISTOGRAM'', mf_Metric = [sample_metric]\<rparr>"

theorem write_request_series_witness:
  "\<exists>(ord :: tags \<Rightarrow> string list) wr. ord_ok ord \<and>
     MetricFamiliesToWriteRequest sample_float ord (\<lambda>_. 0) [''rt''] [''rt'' \<mapsto> sample_family] Map.empty = (None, wr) \<and>
     points wr = [([MetricNameLabel \<mapsto> ''rt_bucket'', ''exported_job'' \<mapsto> ''x'', BucketLabel \<mapsto> ''2''], 3),
       ([MetricNameLabel \<mapsto> ''rt_bucket'', ''exported_job'' \<mapsto> ''x'', BucketLabel \<mapsto> ''9''], 4),
       ([MetricNameLabel \<mapsto> ''rt_sum'', ''exported_job'' \<mapsto> ''x''], 30),
       ([MetricNameLabel \<mapsto> ''rt_count'', ''exported_job'' \<mapsto> ''x''], 4)]"
proof -
  let ?ord = "\<lambda>m :: tags. sorted_list_of_set (dom m)"
  have o: "ord_ok ?ord" by (simp add: ord_ok_def map_order_def)
  have k: "map_order [''rt''] [''rt'' \<mapsto> sample_family]" by (simp add: map_order_def)
  have c: "show_nat 2 = ''2''" "show_nat 9 = ''9''" by code_simp+
  obtain err wr where r: "MetricFamiliesToWriteRequest sample_float ?ord (\<lambda>_. 0) [''rt''] [''rt'' \<mapsto> sample_family] Map.empty = (err, wr)"
    by fastforce
  have "all_supported [''rt'' \<mapsto> sample_family] [''rt'']"
    by (simp add: all_supported_def sample_family_def sample_metric_def supported_def)
  with write_request_series [OF o _ k r refl] have "err = None"
    "points wr = family_points sample_float Map.empty [''rt'' \<mapsto> sample_family] ''rt''" by simp_all
  moreover have "family_points sample_float Map.empty [''rt'' \<mapsto> sample_family] ''rt'' =
      [([MetricNameLabel \<mapsto> ''rt_bucket'', ''exported_job'' \<mapsto> ''x'', BucketLabel \<mapsto> ''2''], 3),
       ([MetricNameLabel \<mapsto> ''rt_bucket'', ''exported_job'' \<mapsto> ''x'', BucketLabel \<mapsto> ''9''], 4),
       ([MetricNameLabel \<mapsto> ''rt_sum'', ''exported_job'' \<mapsto> ''x''], 30),
       ([MetricNameLabel \<mapsto> ''rt_count'', ''exported_job'' \<mapsto> ''x''], 4)]"
    by (simp add: family_points_def sample_family_def sample_metric_def metric_points_def metric_labels_def add_label_def
        metric_defs sample_float_def fun_upd_twist c)
  ultimately show ?thesis using o r by (intro exI [of _ ?ord] exI [of _ wr]) simp
qed

section \<open>The collector's result\<close>

text \<open>
  Failed scrapes never stop the collector: it runs until the context ends or it is stopped. \<open>Run\<close> then returns
  the outcome of the last scrape alone: earlier errors are forgotten and no event after the end is seen. A
  collector stopped before its first tick returns no error.
\<close>

theorem collector_last_error:
  "collector_Run err (map RunTick es) = None \<and>
   (stop \<in> {RunCtxDone, RunStop} \<longrightarrow> collector_Run err (map RunTick es @ stop # rest) = Some (last (err # es)))"
  by (induction es arbitrary: err) auto

theorem collector_last_error_witness:
  "collector_Run None (map RunTick [Some (Errorf ''x''), None] @ [RunStop]) = Some None \<and>
   collector_Run None (map RunTick [None, Some (Errorf ''x'')] @ [RunCtxDone]) = Some (Some (Errorf ''x''))"
  using collector_last_error [of None "[Some (Errorf ''x''), None]" RunStop "[]"]
    collector_last_error [of None "[None, Some (Errorf ''x'')]" RunCtxDone "[]"] by simp

end
