(* ===== verification/Lifecycle.thy ===== *)
theory Lifecycle
  imports Broker Metrics
begin

text \<open>
  \<open>internal/broker/server.go\<close>: how the broker starts, runs and stops. \<open>Run\<close> is an error group of five goroutines:
  the signal watcher, the endpoint, the metrics server, the profiling server and the metrics collector. The
  first of them to end with an error cancels the group's context; a sixth goroutine, outside the group, then calls
  \<open>StopComponents\<close>, which stops the four components one after the other. \<open>Run\<close> returns when the five have ended.

  The state also counts the requests whose handlers wait for the dispatcher (\<open>lc_blocked\<close>, flow control
  enabled): a graceful stop of a server waits for its handlers. Of net/http and grpc the model uses what they
  document: \<open>Shutdown\<close> makes \<open>ListenAndServe\<close> return \<open>ErrServerClosed\<close> at once and itself returns
  when no handler runs, or at the end of its context; \<open>GracefulStop\<close> lets \<open>Serve\<close> return nil when no
  handler runs.
\<close>

section \<open>State\<close>

record BrokerServer =
  bs_Endpoint :: Endpoint
  bs_PromAddr :: string
  bs_MetricCollector :: MetricCollector
  bs_PProfSrv :: PProfServer

definition PrepareRun ::
  "'a attributes_pkg \<Rightarrow> ServiceGroup list \<Rightarrow> nat \<Rightarrow> string \<Rightarrow> int \<Rightarrow> (nat \<Rightarrow> dial) \<Rightarrow> BrokerConfig \<Rightarrow> BrokerServer go_result" where
  "PrepareRun A ks rnd env now dials cfg =
     (case GetBrokerEndpoint A ks rnd env now dials cfg of
        Inl err \<Rightarrow> Inl err
      | Inr ep \<Rightarrow>
          Inr \<lparr>bs_Endpoint = ep, bs_PromAddr = pm_Addr (cfg_PromMetrics cfg),
               bs_MetricCollector = NewMetricCollector (cfg_PromMetrics cfg),
               bs_PProfSrv = NewPProfSrv (bc_ProfEnable (cfg_BaseOptions cfg))\<rparr>)"

datatype member = SignalGo | EndpointGo | PromGo | PProfGo | CollectorGo

text \<open>
  \<open>lc_stopping\<close> is the position of the sixth goroutine: waiting for the context, in the stop of the
  endpoint, the metrics server, the collector, the profiler, or past them. \<open>lc_cancelled\<close> is the
  signal the watcher has read when it has called \<open>cancel\<close> and not yet returned.
\<close>

datatype stopping = AwaitCtx | StopEndpoint | StopProm | StopCollector | StopPProf | Stopped

record lifecycle =
  lc_signal :: "string option"
  lc_cancelled :: "string option"
  lc_ctxDone :: bool
  lc_running :: "member list"
  lc_err :: "go_error option"
  lc_stopping :: stopping
  lc_blocked :: nat
  lc_dispatcher :: bool
  lc_ticks :: "go_error option list"

definition Run_init :: lifecycle where
  "Run_init = \<lparr>lc_signal = None, lc_cancelled = None, lc_ctxDone = False,
     lc_running = [SignalGo, EndpointGo, PromGo, PProfGo, CollectorGo], lc_err = None, lc_stopping = AwaitCtx,
     lc_blocked = 0, lc_dispatcher = True, lc_ticks = []\<rparr>"

text \<open>A goroutine of the group returns: the first error is kept and cancels the context.\<close>

definition member_end :: "member \<Rightarrow> go_error option \<Rightarrow> lifecycle \<Rightarrow> lifecycle" where
  "member_end m r s =
     s\<lparr>lc_running := remove1 m (lc_running s), lc_err := (case lc_err s of None \<Rightarrow> r | Some e \<Rightarrow> Some e),
       lc_ctxDone := (lc_ctxDone s \<or> r \<noteq> None)\<rparr>"

text \<open>
  \<open>StopComponents\<close>, one call after the other. The HTTP endpoint's \<open>Stop\<close> is a \<open>Shutdown\<close> without a deadline, the
  gRPC endpoint's only closes the stop channel; the other stops have a deadline or do not wait.
\<close>

fun StopComponents :: "bool \<Rightarrow> nat \<Rightarrow> stopping \<Rightarrow> stopping option" where
  "StopComponents http blocked AwaitCtx = Some StopEndpoint"
| "StopComponents http blocked StopEndpoint = (if http \<and> blocked > 0 then None else Some StopProm)"
| "StopComponents http blocked StopProm = Some StopCollector"
| "StopComponents http blocked StopCollector = Some StopPProf"
| "StopComponents http blocked StopPProf = Some Stopped"
| "StopComponents http blocked Stopped = None"

text \<open>How \<open>Start\<close> of a stopped endpoint returns; \<open>None\<close> while it does not.\<close>

definition Start_stopped :: "bool \<Rightarrow> nat \<Rightarrow> stopping \<Rightarrow> go_error option option" where
  "Start_stopped http blocked pos =
     (if pos = AwaitCtx then None
      else if http then Some (Some ErrServerClosed)
      else if blocked > 0 then None else Some None)"

fun stop_begun :: "member \<Rightarrow> stopping \<Rightarrow> bool" where
  "stop_begun PromGo pos = (pos \<in> {StopProm, StopCollector, StopPProf, Stopped})"
| "stop_begun PProfGo pos = (pos \<in> {StopPProf, Stopped})"
| "stop_begun CollectorGo pos = (pos \<in> {StopPProf, Stopped})"
| "stop_begun m pos = (pos \<noteq> AwaitCtx)"

section \<open>Steps\<close>

text \<open>
  \<open>http\<close> is the kind of the endpoint, \<open>pp\<close> the profiling server, and \<open>fails\<close> says which servers may end with an
  error of their own (a port in use, a broken listener).
\<close>

inductive run_step :: "bool \<Rightarrow> PProfServer \<Rightarrow> (member \<Rightarrow> bool) \<Rightarrow> lifecycle \<Rightarrow> lifecycle \<Rightarrow> bool" for http pp fails where
  signal: "lc_signal s = None \<Longrightarrow> run_step http pp fails s (s\<lparr>lc_signal := Some sig\<rparr>)"
| sig_cancel: "SignalGo \<in> set (lc_running s) \<Longrightarrow> lc_cancelled s = None \<Longrightarrow> lc_signal s = Some sig \<Longrightarrow>
    run_step http pp fails s (s\<lparr>lc_signal := None, lc_cancelled := Some sig, lc_ctxDone := True\<rparr>)"
| sig_return: "SignalGo \<in> set (lc_running s) \<Longrightarrow> lc_cancelled s = Some sig \<Longrightarrow>
    run_step http pp fails s (member_end SignalGo (Some (Errorf (''received signal '' @ sig))) s)"
| sig_ctx: "SignalGo \<in> set (lc_running s) \<Longrightarrow> lc_cancelled s = None \<Longrightarrow> lc_ctxDone s \<Longrightarrow>
    run_step http pp fails s (member_end SignalGo (Some Canceled) s)"
| start_fails: "EndpointGo \<in> set (lc_running s) \<Longrightarrow> fails EndpointGo \<Longrightarrow> e \<noteq> ErrServerClosed \<Longrightarrow>
    run_step http pp fails s (member_end EndpointGo (Some e) s)"
| start_returns: "EndpointGo \<in> set (lc_running s) \<Longrightarrow> Start_stopped http (lc_blocked s) (lc_stopping s) = Some r \<Longrightarrow>
    run_step http pp fails s (member_end EndpointGo r s)"
| prom: "PromGo \<in> set (lc_running s) \<Longrightarrow>
    (if e = ErrServerClosed then stop_begun PromGo (lc_stopping s) else fails PromGo) \<Longrightarrow>
    run_step http pp fails s (member_end PromGo (PromMetricsServer_Run (Some e)) s)"
| pprof: "PProfGo \<in> set (lc_running s) \<Longrightarrow>
    \<not> pp_Enable pp \<or> (if e = ErrServerClosed then stop_begun PProfGo (lc_stopping s) else fails PProfGo) \<Longrightarrow>
    run_step http pp fails s (member_end PProfGo (PProfServer_Run pp (Some e)) s)"
| tick: "CollectorGo \<in> set (lc_running s) \<Longrightarrow> run_step http pp fails s (s\<lparr>lc_ticks := lc_ticks s @ [r]\<rparr>)"
| collector: "CollectorGo \<in> set (lc_running s) \<Longrightarrow> lc_ctxDone s \<or> stop_begun CollectorGo (lc_stopping s) \<Longrightarrow>
    collector_Run None (map RunTick (lc_ticks s) @ [if lc_ctxDone s then RunCtxDone else RunStop]) = Some r \<Longrightarrow>
    run_step http pp fails s (member_end CollectorGo r s)"
| stop: "lc_ctxDone s \<Longrightarrow> StopComponents http (lc_blocked s) (lc_stopping s) = Some pos \<Longrightarrow>
    run_step http pp fails s (s\<lparr>lc_stopping := pos\<rparr>)"
| arrive: "EndpointGo \<in> set (lc_running s) \<Longrightarrow> lc_stopping s = AwaitCtx \<Longrightarrow>
    run_step http pp fails s (s\<lparr>lc_blocked := lc_blocked s + 1\<rparr>)"
| answer: "lc_dispatcher s \<Longrightarrow> lc_blocked s > 0 \<Longrightarrow>
    run_step http pp fails s (s\<lparr>lc_blocked := lc_blocked s - 1\<rparr>)"
| dispatcher_ends: "lc_dispatcher s \<Longrightarrow> lc_ctxDone s \<or> lc_stopping s \<noteq> AwaitCtx \<Longrightarrow>
    run_step http pp fails s (s\<lparr>lc_dispatcher := False\<rparr>)"

inductive run_reach :: "bool \<Rightarrow> PProfServer \<Rightarrow> (member \<Rightarrow> bool) \<Rightarrow> lifecycle \<Rightarrow> lifecycle \<Rightarrow> bool" for http pp fails s0 where
  init: "run_reach http pp fails s0 s0"
| step: "run_reach http pp fails s0 s \<Longrightarrow> run_step http pp fails s s' \<Longrightarrow> run_reach http pp fails s0 s'"

interpretation runs: step_system "run_step http pp fails" "run_reach http pp fails" for http pp fails
proof unfold_locales
  show "P b" if "run_reach http pp fails a b" "P a" "\<And>x y. P x \<Longrightarrow> run_step http pp fails x y \<Longrightarrow> P y" for a b P
    using that by (induction rule: run_reach.induct) auto
qed (auto intro: run_reach.intros)

text \<open>What \<open>Run\<close> returns, once every goroutine of the group has ended.\<close>

definition Run_returns :: "lifecycle \<Rightarrow> go_error option option" where
  "Run_returns s = (if lc_running s = [] then Some (lc_err s) else None)"

lemmas run_simps = member_end_def Start_stopped_def PromMetricsServer_Run_def PProfServer_Run_def

inductive_cases run_step_E: "run_step http pp fails s s'"

section \<open>Invariant\<close>

definition run_inv :: "bool \<Rightarrow> (member \<Rightarrow> bool) \<Rightarrow> lifecycle \<Rightarrow> bool" where
  "run_inv http fails s \<longleftrightarrow>
     distinct (lc_running s) \<and>
     (SignalGo \<notin> set (lc_running s) \<longrightarrow> lc_err s \<noteq> None) \<and>
     (lc_err s \<noteq> None \<longrightarrow> lc_ctxDone s) \<and>
     (lc_cancelled s \<noteq> None \<longrightarrow> lc_ctxDone s) \<and>
     (lc_stopping s \<noteq> AwaitCtx \<longrightarrow> lc_ctxDone s) \<and>
     (\<not> lc_dispatcher s \<longrightarrow> lc_ctxDone s) \<and>
     (http \<and> lc_blocked s > 0 \<longrightarrow> lc_stopping s \<in> {AwaitCtx, StopEndpoint}) \<and>
     (PromGo \<notin> set (lc_running s) \<and> \<not> fails PromGo \<longrightarrow> lc_stopping s \<in> {StopProm, StopCollector, StopPProf, Stopped}) \<and>
     (\<not> http \<and> EndpointGo \<notin> set (lc_running s) \<and> \<not> fails EndpointGo \<longrightarrow> lc_blocked s = 0)"

lemma run_inv_init: "run_inv http fails Run_init"
  by (simp add: run_inv_def Run_init_def)

lemma stop_position:
  assumes "StopComponents http b pos = Some pos'"
  shows "pos' \<noteq> AwaitCtx" and "http \<and> b > 0 \<Longrightarrow> pos \<in> {AwaitCtx, StopEndpoint} \<Longrightarrow> pos' = StopEndpoint"
    and "pos \<in> {StopProm, StopCollector, StopPProf, Stopped} \<Longrightarrow> pos' \<in> {StopProm, StopCollector, StopPProf, Stopped}"
  using assms by (cases pos; auto split: if_splits)+

lemma run_inv_member_end:
  assumes "run_inv http fails s" and "m \<in> set (lc_running s)"
    and "m = SignalGo \<Longrightarrow> r \<noteq> None"
    and "m = PromGo \<Longrightarrow> \<not> fails PromGo \<Longrightarrow> lc_stopping s \<in> {StopProm, StopCollector, StopPProf, Stopped}"
    and "m = EndpointGo \<Longrightarrow> \<not> http \<Longrightarrow> \<not> fails EndpointGo \<Longrightarrow> lc_blocked s = 0"
  shows "run_inv http fails (member_end m r s)"
  using assms unfolding run_inv_def member_end_def
  by (cases r; cases m; cases "lc_err s") auto

lemma run_step_inv [inv_intros]:
  assumes "run_step http pp fails s s'" and "run_inv http fails s"
  shows "run_inv http fails s'"
  using assms(1)
proof cases
  case (start_returns r)
  show ?thesis unfolding start_returns(1)
    by (rule run_inv_member_end [OF assms(2) start_returns(2)])
      (use start_returns(3) in \<open>auto simp: Start_stopped_def split: if_splits\<close>)
next
  case (prom e)
  show ?thesis unfolding prom(1)
    by (rule run_inv_member_end [OF assms(2) prom(2)]) (use prom(3) in \<open>auto split: if_splits\<close>)
next
  case (stop pos)
  show ?thesis using assms(2) stop_position [OF stop(3)] stop(2)
    unfolding stop(1) run_inv_def by auto
next
  case (start_fails e)
  show ?thesis unfolding start_fails(1)
    by (rule run_inv_member_end [OF assms(2) start_fails(2)]) (use start_fails(3) in auto)
next
  case (pprof e)
  show ?thesis unfolding pprof(1) by (rule run_inv_member_end [OF assms(2) pprof(2)]) auto
next
  case (collector r)
  show ?thesis unfolding collector(1) by (rule run_inv_member_end [OF assms(2) collector(2)]) auto
next
  case (sig_return sig)
  show ?thesis unfolding sig_return(1) by (rule run_inv_member_end [OF assms(2) sig_return(2)]) auto
next
  case sig_ctx
  show ?thesis unfolding sig_ctx(1) by (rule run_inv_member_end [OF assms(2) sig_ctx(2)]) auto
next
  case arrive
  with assms(2) show ?thesis by (auto simp: run_inv_def)
qed (use assms(2) in \<open>auto simp: run_inv_def\<close>)

lemma run_reach_inv: "run_reach http pp fails s0 s \<Longrightarrow> run_inv http fails s0 \<Longrightarrow> run_inv http fails s"
  by (rule runs.reach_invariant) (auto intro: inv_intros)

text \<open>\<open>Run\<close> never returns nil: the signal watcher always ends with an error, and \<open>Run\<close> waits for it.\<close>

lemma Run_returns_error:
  "run_reach http pp fails Run_init s \<Longrightarrow> Run_returns s = Some r \<Longrightarrow> \<exists>e. r = Some e"
  using run_reach_inv [OF _ run_inv_init] by (fastforce simp: Run_returns_def run_inv_def split: if_splits)

section \<open>Shutdown\<close>

text \<open>The steps a shutdown has left, when no request is waiting.\<close>

fun stops_left :: "stopping \<Rightarrow> nat" where
  "stops_left AwaitCtx = 5"
| "stops_left StopEndpoint = 4"
| "stops_left StopProm = 3"
| "stops_left StopCollector = 2"
| "stops_left StopPProf = 1"
| "stops_left Stopped = 0"

definition quiet :: "lifecycle \<Rightarrow> bool" where
  "quiet s \<longleftrightarrow> lc_ctxDone s \<and> lc_blocked s = 0"

definition work_left :: "lifecycle \<Rightarrow> nat" where
  "work_left s = stops_left (lc_stopping s) + length (lc_running s)"

lemma member_can_end:
  assumes "quiet s" and "lc_stopping s = Stopped" and "m \<in> set (lc_running s)"
  shows "\<exists>r. run_step http pp fails s (member_end m r s)"
proof (cases m)
  case SignalGo
  with assms show ?thesis
    by (cases "lc_cancelled s") (auto simp: quiet_def intro: run_step.sig_ctx run_step.sig_return)
next
  case EndpointGo
  then have "\<exists>r. Start_stopped http (lc_blocked s) (lc_stopping s) = Some r"
    using assms by (simp add: Start_stopped_def quiet_def)
  with EndpointGo assms(3) show ?thesis by (blast intro: run_step.start_returns)
next
  case PromGo
  with assms show ?thesis using run_step.prom [of s ErrServerClosed] by fastforce
next
  case PProfGo
  with assms show ?thesis using run_step.pprof [of s pp ErrServerClosed] by fastforce
next
  case CollectorGo
  obtain r where "collector_Run None (map RunTick (lc_ticks s) @ [if lc_ctxDone s then RunCtxDone else RunStop]) = Some r"
  proof -
    have "collector_Run e (map RunTick ts @ [x]) = Some (last (e # ts))" if "x \<in> {RunCtxDone, RunStop}" for e ts x
      using that by (induction ts arbitrary: e) auto
    then show ?thesis using that by auto
  qed
  with CollectorGo assms show ?thesis by (blast intro: run_step.collector dest: quiet_def [THEN iffD1])
qed

lemma quiet_progress:
  assumes "quiet s" and "lc_running s \<noteq> []"
  shows "\<exists>s'. run_step http pp fails s s' \<and> quiet s' \<and> work_left s' < work_left s"
proof (cases "lc_stopping s = Stopped")
  case True
  let ?m = "hd (lc_running s)"
  have m: "?m \<in> set (lc_running s)" using assms(2) by simp
  obtain r where "run_step http pp fails s (member_end ?m r s)" using member_can_end [OF assms(1) True m] by blast
  moreover have "quiet (member_end ?m r s)" "work_left (member_end ?m r s) < work_left s"
    using assms m by (simp_all add: quiet_def member_end_def work_left_def length_remove1)
  ultimately show ?thesis by blast
next
  case False
  then obtain pos where "StopComponents http (lc_blocked s) (lc_stopping s) = Some pos" "stops_left pos < stops_left (lc_stopping s)"
    using assms(1) by (cases "lc_stopping s") (auto simp: quiet_def)
  then show ?thesis using assms(1) run_step.stop [of s http pos]
    by (intro exI [of _ "s\<lparr>lc_stopping := pos\<rparr>"]) (auto simp: quiet_def work_left_def)
qed

lemma quiet_completes: "quiet s \<Longrightarrow> \<exists>s'. run_reach http pp fails s s' \<and> lc_running s' = []"
  using runs.reach_goal [of quiet s "\<lambda>x. lc_running x = []" http pp fails work_left] quiet_progress by blast

text \<open>A request that waits when the dispatcher has ended waits for ever, and keeps \<open>Run\<close> from returning.\<close>

lemma blocked_stays:
  assumes "run_reach http pp fails s s'" and "\<not> lc_dispatcher s" and "lc_blocked s > 0"
  shows "\<not> lc_dispatcher s' \<and> lc_blocked s' > 0"
proof (rule runs.reach_invariant [OF assms(1)])
  show "\<not> lc_dispatcher y \<and> lc_blocked y > 0" if "run_step http pp fails x y" "\<not> lc_dispatcher x \<and> lc_blocked x > 0" for x y
    using that by (cases rule: run_step.cases) (auto simp: member_end_def)
qed (use assms(2,3) in simp)

lemma blocked_runs:
  assumes "run_inv http fails s" and "lc_blocked s > 0" and "\<not> fails (if http then PromGo else EndpointGo)"
  shows "lc_running s \<noteq> []"
  using assms by (auto simp: run_inv_def split: if_splits)

text \<open>
  C24. When does a cancelled broker stop? With the dispatcher gone, and with the metrics server (HTTP) or the endpoint
  (gRPC) not failing by itself, \<open>Run\<close> can still return exactly when no request is waiting. One waiting
  request blocks the graceful stop of the endpoint: with HTTP the other components are never stopped, with gRPC
  the endpoint never returns. And \<open>Run\<close> never returns nil, a shutdown by a signal included.
\<close>

theorem shutdown_iff_none_waiting:
  assumes "run_reach http pp fails Run_init s" and "\<not> lc_dispatcher s" and "\<not> fails (if http then PromGo else EndpointGo)"
  shows "((\<exists>s' r. run_reach http pp fails s s' \<and> Run_returns s' = Some r) \<longleftrightarrow> lc_blocked s = 0) \<and>
    (\<forall>s'. run_reach http pp fails s s' \<longrightarrow> Run_returns s' \<noteq> Some None)"
proof (intro conjI iffI allI impI)
  have inv: "run_inv http fails s" by (rule run_reach_inv [OF assms(1) run_inv_init])
  show "lc_blocked s = 0" if "\<exists>s' r. run_reach http pp fails s s' \<and> Run_returns s' = Some r"
  proof (rule ccontr)
    assume "lc_blocked s \<noteq> 0"
    with that blocked_stays [OF _ assms(2)] blocked_runs [OF run_reach_inv [OF _ inv] _ assms(3)] show False
      by (auto simp: Run_returns_def split: if_splits)
  qed
  show "\<exists>s' r. run_reach http pp fails s s' \<and> Run_returns s' = Some r" if "lc_blocked s = 0"
  proof -
    have "quiet s" using inv assms(2) that by (auto simp: run_inv_def quiet_def)
    from quiet_completes [OF this] obtain s' where "run_reach http pp fails s s'" "lc_running s' = []" by blast
    then show ?thesis by (auto simp: Run_returns_def)
  qed
  show "Run_returns s' \<noteq> Some None" if "run_reach http pp fails s s'" for s'
    using Run_returns_error [OF runs.reach_trans [OF that assms(1)]] by blast
qed

text \<open>A request waits, the broker is told to stop, and the dispatcher ends before it has served it.\<close>

definition sample_stop :: lifecycle where
  "sample_stop = Run_init\<lparr>lc_blocked := 1, lc_cancelled := Some ''terminated'', lc_ctxDone := True, lc_dispatcher := False\<rparr>"

lemma sample_stop_reach: "run_reach http pp fails Run_init sample_stop"
proof -
  let ?a = "Run_init\<lparr>lc_blocked := 1\<rparr>"
  let ?b = "?a\<lparr>lc_signal := Some ''terminated''\<rparr>"
  let ?c = "?b\<lparr>lc_signal := None, lc_cancelled := Some ''terminated'', lc_ctxDone := True\<rparr>"
  have a: "run_step http pp fails Run_init ?a" using run_step.arrive [of Run_init] by (simp add: Run_init_def)
  have b: "run_step http pp fails ?a ?b" by (rule run_step.signal) (simp add: Run_init_def)
  have c: "run_step http pp fails ?b ?c" by (rule run_step.sig_cancel) (simp_all add: Run_init_def)
  have d: "run_step http pp fails ?c (?c\<lparr>lc_dispatcher := False\<rparr>)"
    by (rule run_step.dispatcher_ends) (simp_all add: Run_init_def)
  have e: "?c\<lparr>lc_dispatcher := False\<rparr> = sample_stop" by (simp add: sample_stop_def Run_init_def)
  from run_reach.step [OF run_reach.step [OF run_reach.step [OF run_reach.step [OF run_reach.init a] b] c] d]
  show ?thesis unfolding e .
qed

theorem shutdown_iff_none_waiting_witness:
  "\<not> (\<exists>s' r. run_reach True (NewPProfSrv False) (\<lambda>_. False) sample_stop s' \<and> Run_returns s' = Some r)"
  using shutdown_iff_none_waiting [OF sample_stop_reach [of True "NewPProfSrv False" "\<lambda>_. False"]]
  by (simp add: sample_stop_def)

section \<open>Coming to rest\<close>

text \<open>The state up to pending signals and the outcomes of scrapes.\<close>

definition settled :: "lifecycle \<Rightarrow> lifecycle" where
  "settled s = s\<lparr>lc_ticks := [], lc_signal := None\<rparr>"

definition shutdown_measure :: "lifecycle \<Rightarrow> nat" where
  "shutdown_measure s = stops_left (lc_stopping s) + length (lc_running s) + (if lc_cancelled s = None then 1 else 0) +
     lc_blocked s + (if lc_dispatcher s then 1 else 0)"

lemma member_end_measure:
  assumes "m \<in> set (lc_running s)"
  shows "lc_stopping (member_end m r s) = lc_stopping s" and "shutdown_measure (member_end m r s) < shutdown_measure s"
  using assms length_pos_if_in_set [OF assms] by (simp_all add: member_end_def shutdown_measure_def length_remove1)

lemma StopComponents_measure: "StopComponents http b pos = Some pos' \<Longrightarrow> stops_left pos' < stops_left pos"
  by (cases pos) (auto split: if_splits)

lemma run_step_measure:
  assumes "run_step http pp fails s s'" and "lc_stopping s \<noteq> AwaitCtx"
  shows "lc_stopping s' \<noteq> AwaitCtx \<and> (settled s' = settled s \<or> shutdown_measure s' < shutdown_measure s)"
  using assms(1)
proof cases
  case (stop pos)
  with stop_position(1) [OF stop(3)] StopComponents_measure [OF stop(3)] show ?thesis by (simp add: shutdown_measure_def)
next
  case (sig_return sig)
  then show ?thesis using assms(2) by (simp add: member_end_measure)
next
  case (start_fails e)
  then show ?thesis using assms(2) by (simp add: member_end_measure)
next
  case (start_returns r)
  then show ?thesis using assms(2) by (simp add: member_end_measure)
next
  case (prom e)
  then show ?thesis using assms(2) by (simp add: member_end_measure)
next
  case (pprof e)
  then show ?thesis using assms(2) by (simp add: member_end_measure)
next
  case (collector r)
  then show ?thesis using assms(2) by (simp add: member_end_measure)
next
  case sig_ctx
  then show ?thesis using assms(2) by (simp add: member_end_measure)
qed (use assms(2) in \<open>simp_all add: settled_def shutdown_measure_def\<close>)

text \<open>
  Once \<open>StopComponents\<close> has begun, every run of the broker comes to rest: from some point on nothing happens but
  scrapes and the arrival of signals, whatever the interleaving and whatever the servers do.
\<close>

theorem shutdown_comes_to_rest:
  assumes "lc_stopping (f 0) \<noteq> AwaitCtx" and "\<And>i. run_step http pp fails (f i) (f (Suc i))"
  shows "\<exists>n. \<forall>i \<ge> n. settled (f i) = settled (f n)"
proof -
  let ?m = "\<lambda>i. shutdown_measure (f i)"
  have stop: "lc_stopping (f i) \<noteq> AwaitCtx" for i
    by (induction i) (use assms(1) run_step_measure [OF assms(2)] in auto)
  have step: "settled (f (Suc i)) = settled (f i) \<or> ?m (Suc i) < ?m i" for i
    using run_step_measure [OF assms(2) stop] by blast
  have same: "?m (Suc i) = ?m i" if "settled (f (Suc i)) = settled (f i)" for i
  proof -
    have "shutdown_measure (settled s) = shutdown_measure s" for s by (simp add: settled_def shutdown_measure_def)
    from this [of "f (Suc i)"] this [of "f i"] that show ?thesis by simp
  qed
  obtain n where n: "\<And>i. ?m n \<le> ?m i" by (rule that [OF arg_min_nat_le [of "\<lambda>_. True" _ ?m]]) simp
  have "settled (f (n + k)) = settled (f n) \<and> ?m (n + k) = ?m n" for k
  proof (induction k)
    case (Suc k)
    with step [of "n + k"] n [of "n + Suc k"] same [of "n + k"] show ?case by auto
  qed simp
  then show ?thesis by (metis le_iff_add)
qed

definition sample_stopping :: lifecycle where
  "sample_stopping = sample_stop\<lparr>lc_stopping := StopEndpoint\<rparr>"

text \<open>The signal watcher returns; then there are only scrapes.\<close>

definition sample_rest :: "nat \<Rightarrow> lifecycle" where
  "sample_rest i = (case i of 0 \<Rightarrow> sample_stopping
     | Suc k \<Rightarrow> (member_end SignalGo (Some (Errorf ''received signal terminated'')) sample_stopping)\<lparr>lc_ticks := replicate k None\<rparr>)"

lemma sample_rest_steps: "run_step True (NewPProfSrv False) (\<lambda>_. False) (sample_rest i) (sample_rest (Suc i))"
proof (cases i)
  case 0
  have "SignalGo \<in> set (lc_running sample_stopping)" "lc_cancelled sample_stopping = Some ''terminated''"
    by (simp_all add: sample_stopping_def sample_stop_def Run_init_def)
  from run_step.sig_return [OF this, of True "NewPProfSrv False" "\<lambda>_. False"] 0 show ?thesis
    by (simp add: sample_rest_def member_end_def sample_stopping_def sample_stop_def Run_init_def)
next
  case (Suc k)
  have "CollectorGo \<in> set (lc_running (sample_rest i))"
    by (simp add: Suc sample_rest_def member_end_def sample_stopping_def sample_stop_def Run_init_def)
  from run_step.tick [OF this, of True "NewPProfSrv False" "\<lambda>_. False" None] show ?thesis
    by (simp add: Suc sample_rest_def replicate_append_same)
qed

theorem shutdown_comes_to_rest_witness:
  "settled (sample_rest 1) \<noteq> settled (sample_rest 0) \<and> (\<exists>n. \<exists>m > n. settled (sample_rest m) = settled (sample_rest n))"
proof
  show "settled (sample_rest 1) \<noteq> settled (sample_rest 0)"
    by (simp add: sample_rest_def settled_def member_end_def sample_stopping_def sample_stop_def Run_init_def)
  have "lc_stopping (sample_rest 0) \<noteq> AwaitCtx" by (simp add: sample_rest_def sample_stopping_def)
  from shutdown_comes_to_rest [OF this sample_rest_steps] show "\<exists>n. \<exists>m > n. settled (sample_rest m) = settled (sample_rest n)"
    by (meson lessI less_imp_le)
qed

end
