(* ===== verification/Command.thy ===== *)
theory Command
  imports Prelude
begin

text \<open>
  \<open>cmd/*/app/server.go\<close>: the outer loop of the broker, the proxy and the API server. The three have the same
  \<open>Run\<close>: a goroutine runs the server; a new configuration cancels its context, replaces the options' configuration
  and starts another goroutine; an error of one of them, or the end of the process' context, ends the loop, which
  closes the error channel.

  The model is a step relation. What differs between the commands is the record \<open>program\<close>: the address a
  configuration listens on, the error of preparing a server and what \<open>run\<close> makes of it, whether
  \<open>Run\<close> of the server ends when its context is cancelled (the API server's does; those of the broker and the
  proxy replace the context they are given by one of their own), whether it ends on a signal by itself, and
  whether it may fail while serving. Of the network the model uses that an address is listened on by one server at
  a time.
\<close>

section \<open>State\<close>

record 'c program =
  pr_addr :: "'c \<Rightarrow> string"
  pr_prepare :: "'c \<Rightarrow> go_error option"
  pr_onPrepare :: "go_error \<Rightarrow> go_error option"
  pr_obeys :: bool
  pr_signals :: bool
  pr_crash :: bool

text \<open>A goroutine: before it reads the options, serving, blocked on the error channel, or ended.\<close>

datatype 'c phase = Starting | Serving 'c | Sending go_error | Gone

datatype loop = Looping | Returned "go_error option"

record 'c process =
  ps_Config :: 'c
  ps_instances :: "('c phase \<times> bool) list"   \<comment> \<open>with the end of its context\<close>
  ps_loop :: loop
  ps_signalled :: bool
  ps_panicked :: bool

definition Run_start :: "'c \<Rightarrow> 'c process" where
  "Run_start c = \<lparr>ps_Config = c, ps_instances = [(Starting, False)], ps_loop = Looping, ps_signalled = False, ps_panicked = False\<rparr>"

definition serving :: "('c phase \<times> bool) list \<Rightarrow> 'c list" where
  "serving xs = concat (map (\<lambda>(ph, _). case ph of Serving c \<Rightarrow> [c] | _ \<Rightarrow> []) xs)"

definition AddrInUse :: go_error where
  "AddrInUse = OtherErr ''bind: address already in use''"

text \<open>\<open>run\<close>: prepare a server with the configuration of the moment, and listen.\<close>

definition ended :: "go_error option \<Rightarrow> 'c phase" where
  "ended r = (case r of Some err \<Rightarrow> Sending err | None \<Rightarrow> Gone)"

definition cmd_run :: "'c program \<Rightarrow> 'c process \<Rightarrow> 'c phase" where
  "cmd_run p s =
     (case pr_prepare p (ps_Config s) of
        Some err \<Rightarrow> ended (pr_onPrepare p err)
      | None \<Rightarrow> if pr_addr p (ps_Config s) \<in> pr_addr p ` set (serving (ps_instances s)) then Sending AddrInUse
                else Serving (ps_Config s))"

definition set_phase :: "nat \<Rightarrow> 'c phase \<Rightarrow> 'c process \<Rightarrow> 'c process" where
  "set_phase i ph s = s\<lparr>ps_instances := (ps_instances s)[i := (ph, snd (ps_instances s ! i))]\<rparr>"

text \<open>\<open>cancelFunc\<close> belongs to the newest goroutine.\<close>

definition cancelFunc :: "('c phase \<times> bool) list \<Rightarrow> ('c phase \<times> bool) list" where
  "cancelFunc xs = (if xs = [] then [] else butlast xs @ [(fst (last xs), True)])"

definition loop_return :: "go_error option \<Rightarrow> 'c process \<Rightarrow> 'c process" where
  "loop_return r s = s\<lparr>ps_instances := cancelFunc (ps_instances s), ps_loop := Returned r\<rparr>"

definition reload :: "'c \<Rightarrow> 'c process \<Rightarrow> 'c process" where
  "reload c s = s\<lparr>ps_Config := c, ps_instances := cancelFunc (ps_instances s) @ [(Starting, False)]\<rparr>"

abbreviation phase_of :: "'c process \<Rightarrow> nat \<Rightarrow> 'c phase" where
  "phase_of s i \<equiv> fst (ps_instances s ! i)"

inductive cmd_step :: "'c program \<Rightarrow> 'c process \<Rightarrow> 'c process \<Rightarrow> bool" for p where
  go_run: "i < length (ps_instances s) \<Longrightarrow> phase_of s i = Starting \<Longrightarrow> cmd_step p s (set_phase i (cmd_run p s) s)"
| cancelled: "i < length (ps_instances s) \<Longrightarrow> ps_instances s ! i = (Serving c, True) \<Longrightarrow> pr_obeys p \<Longrightarrow>
    cmd_step p s (set_phase i Gone s)"
| signal: "cmd_step p s (s\<lparr>ps_signalled := True\<rparr>)"
| signal_end: "i < length (ps_instances s) \<Longrightarrow> phase_of s i = Serving c \<Longrightarrow> pr_signals p \<Longrightarrow> ps_signalled s \<Longrightarrow>
    cmd_step p s (set_phase i (Sending (Errorf ''received signal'')) s)"
| crash: "i < length (ps_instances s) \<Longrightarrow> phase_of s i = Serving c \<Longrightarrow> pr_crash p \<Longrightarrow> cmd_step p s (set_phase i (Sending err) s)"
| ctx_done: "ps_loop s = Looping \<Longrightarrow> ps_signalled s \<Longrightarrow> cmd_step p s (loop_return None s)"
| config: "ps_loop s = Looping \<Longrightarrow> cmd_step p s (reload c s)"
| receive: "ps_loop s = Looping \<Longrightarrow> i < length (ps_instances s) \<Longrightarrow> phase_of s i = Sending err \<Longrightarrow>
    cmd_step p s (loop_return (Some err) (set_phase i Gone s))"
| closed: "ps_loop s = Returned r \<Longrightarrow> i < length (ps_instances s) \<Longrightarrow> phase_of s i = Sending err \<Longrightarrow>
    cmd_step p s ((set_phase i Gone s)\<lparr>ps_panicked := True\<rparr>)"

inductive cmd_reach :: "'c program \<Rightarrow> 'c process \<Rightarrow> 'c process \<Rightarrow> bool" for p s0 where
  init: "cmd_reach p s0 s0"
| step: "cmd_reach p s0 s \<Longrightarrow> cmd_step p s s' \<Longrightarrow> cmd_reach p s0 s'"

text \<open>The three commands, over what their servers do.\<close>

definition broker_cmd :: "('c \<Rightarrow> string) \<Rightarrow> ('c \<Rightarrow> go_error option) \<Rightarrow> bool \<Rightarrow> 'c program" where
  "broker_cmd addr prepare crash = \<lparr>pr_addr = addr, pr_prepare = prepare, pr_onPrepare = Some, pr_obeys = False, pr_signals = True,
     pr_crash = crash\<rparr>"

definition proxy_cmd :: "('c \<Rightarrow> string) \<Rightarrow> ('c \<Rightarrow> go_error option) \<Rightarrow> bool \<Rightarrow> 'c program" where
  "proxy_cmd addr prepare crash = \<lparr>pr_addr = addr, pr_prepare = prepare, pr_onPrepare = (\<lambda>_. None), pr_obeys = False,
     pr_signals = True, pr_crash = crash\<rparr>"

definition apiserver_cmd :: "('c \<Rightarrow> string) \<Rightarrow> ('c \<Rightarrow> go_error option) \<Rightarrow> bool \<Rightarrow> 'c program" where
  "apiserver_cmd addr prepare crash = \<lparr>pr_addr = addr, pr_prepare = prepare, pr_onPrepare = Some, pr_obeys = True, pr_signals = False,
     pr_crash = crash\<rparr>"

section \<open>Lemmas\<close>

interpretation cmds: step_system "cmd_step p" "cmd_reach p" for p :: "'c program"
proof unfold_locales
  show "P b" if "cmd_reach p a b" "P a" "\<And>x y. P x \<Longrightarrow> cmd_step p x y \<Longrightarrow> P y" for a b P
    using that by (induction rule: cmd_reach.induct) auto
qed (auto intro: cmd_reach.intros)

lemma serving_simps [simp]:
  "serving [] = []" "serving ((Serving c, b) # xs) = c # serving xs" "serving ((Starting, b) # xs) = serving xs"
  "serving ((Sending e, b) # xs) = serving xs" "serving ((Gone, b) # xs) = serving xs" "serving (xs @ ys) = serving xs @ serving ys"
  by (simp_all add: serving_def)

lemma serving_cancel [simp]: "serving (cancelFunc xs) = serving xs"
proof (cases xs rule: rev_cases)
  case (snoc ys y)
  then show ?thesis by (cases y; cases "fst y") (auto simp: cancelFunc_def)
qed (simp add: cancelFunc_def)

lemma cancelFunc_length [simp]: "length (cancelFunc xs) = length xs"
  by (simp add: cancelFunc_def)

lemma cancelFunc_phase: "i < length xs \<Longrightarrow> fst (cancelFunc xs ! i) = fst (xs ! i)"
  by (cases xs rule: rev_cases) (auto simp: cancelFunc_def nth_append)

lemma in_serving: "c \<in> set (serving xs) \<longleftrightarrow> (\<exists>i < length xs. fst (xs ! i) = Serving c)"
proof
  assume "c \<in> set (serving xs)"
  then obtain ph b where "(ph, b) \<in> set xs" "ph = Serving c" by (auto simp: serving_def split: phase.splits)
  then show "\<exists>i < length xs. fst (xs ! i) = Serving c" by (metis fst_conv in_set_conv_nth)
next
  assume "\<exists>i < length xs. fst (xs ! i) = Serving c"
  then obtain b where "(Serving c, b) \<in> set xs" by (metis in_set_conv_nth prod.collapse)
  then show "c \<in> set (serving xs)" by (force simp: serving_def)
qed

lemma set_phase_simps [simp]:
  "ps_loop (set_phase i ph s) = ps_loop s" "ps_signalled (set_phase i ph s) = ps_signalled s"
  "ps_Config (set_phase i ph s) = ps_Config s" "length (ps_instances (set_phase i ph s)) = length (ps_instances s)"
  by (simp_all add: set_phase_def)

lemma phase_of_set_phase [simp]:
  "i < length (ps_instances s) \<Longrightarrow> phase_of (set_phase j ph s) i = (if i = j then ph else phase_of s i)"
  by (simp add: set_phase_def)

lemma loop_return_simps [simp]:
  "ps_loop (loop_return r s) = Returned r" "ps_signalled (loop_return r s) = ps_signalled s"
  "length (ps_instances (loop_return r s)) = length (ps_instances s)"
  "serving (ps_instances (loop_return r s)) = serving (ps_instances s)"
  "i < length (ps_instances s) \<Longrightarrow> phase_of (loop_return r s) i = phase_of s i"
  by (simp_all add: loop_return_def cancelFunc_phase)

lemma serving_upd:
  assumes "i < length xs"
  shows "serving (xs[i := (ph, b)]) = serving (take i xs) @ serving [(ph, b)] @ serving (drop (Suc i) xs)"
    and "serving xs = serving (take i xs) @ serving [xs ! i] @ serving (drop (Suc i) xs)"
proof -
  show "serving (xs[i := (ph, b)]) = serving (take i xs) @ serving [(ph, b)] @ serving (drop (Suc i) xs)"
    using serving_simps(6) [of "take i xs" "(ph, b) # drop (Suc i) xs"]
      serving_simps(6) [of "[(ph, b)]" "drop (Suc i) xs"] by (simp add: upd_conv_take_nth_drop assms)
  show "serving xs = serving (take i xs) @ serving [xs ! i] @ serving (drop (Suc i) xs)"
    using serving_simps(6) [of "take i xs" "xs ! i # drop (Suc i) xs"]
      serving_simps(6) [of "[xs ! i]" "drop (Suc i) xs"] by (simp add: id_take_nth_drop [OF assms, symmetric])
qed

lemma serving_set_phase:
  assumes "i < length (ps_instances s)" and "\<And>c. phase_of s i \<noteq> Serving c" and "\<And>c. ph \<noteq> Serving c"
  shows "serving (ps_instances (set_phase i ph s)) = serving (ps_instances s)"
proof -
  have "serving [(ph', b)] = []" if "\<And>c. ph' \<noteq> Serving c" for ph' :: "'a phase" and b using that by (cases ph') auto
  from this [OF assms(3)] this [OF assms(2), of "snd (ps_instances s ! i)"] show ?thesis
    unfolding set_phase_def using serving_upd [OF assms(1)] by simp
qed

section \<open>Reloading the broker and the proxy\<close>

text \<open>Without a signal: who serves, who failed, and why the loop ended.\<close>

definition ignore_inv :: "'c process \<Rightarrow> bool" where
  "ignore_inv s \<longleftrightarrow>
     (\<forall>i < length (ps_instances s). phase_of s i \<in> {Starting, Sending AddrInUse, Gone} \<union> range Serving) \<and>
     length (serving (ps_instances s)) \<le> 1 \<and>
     ps_loop s \<in> {Looping, Returned (Some AddrInUse)} \<and>
     (\<forall>i < length (ps_instances s). phase_of s i = Gone \<longrightarrow> ps_loop s \<noteq> Looping) \<and>
     ((\<exists>i < length (ps_instances s). phase_of s i \<noteq> Starting) \<longrightarrow> serving (ps_instances s) \<noteq> [])"

definition stubborn :: "'c program \<Rightarrow> bool" where
  "stubborn p \<longleftrightarrow> \<not> pr_obeys p \<and> \<not> pr_crash p \<and> (\<forall>c. pr_prepare p c = None) \<and> (\<forall>c c'. pr_addr p c = pr_addr p c')"

lemma cmd_run_stubborn:
  assumes "stubborn p"
  shows "cmd_run p s = (if serving (ps_instances s) = [] then Serving (ps_Config s) else Sending AddrInUse)"
proof -
  have eq: "pr_addr p (ps_Config s) = pr_addr p c" for c using assms unfolding stubborn_def by blast
  have "pr_addr p (ps_Config s) \<in> pr_addr p ` set xs \<longleftrightarrow> xs \<noteq> []" for xs
  proof (cases xs)
    case (Cons y ys)
    then show ?thesis using eq [of y] by simp
  qed simp
  then show ?thesis using assms by (simp add: cmd_run_def stubborn_def)
qed

text \<open>A step without a signal keeps the invariant and whoever serves.\<close>

lemma stubborn_step:
  assumes "cmd_step p s s'" and "stubborn p" and "\<not> ps_signalled s'" and "ignore_inv s"
  shows "ignore_inv s'" and "serving (ps_instances s) \<noteq> [] \<Longrightarrow> serving (ps_instances s') = serving (ps_instances s)"
proof -
  have "ignore_inv s' \<and> (serving (ps_instances s) \<noteq> [] \<longrightarrow> serving (ps_instances s') = serving (ps_instances s))"
    using assms(1)
  proof cases
    case (go_run i)
    show ?thesis
    proof (cases "serving (ps_instances s) = []")
      case True
      have "serving [ps_instances s ! i] = []" using go_run(3) by (cases "ps_instances s ! i") simp
      then have "serving (ps_instances s') = [ps_Config s]"
        using True serving_upd(2) [OF go_run(2)] serving_upd(1) [OF go_run(2)]
        by (simp add: go_run(1) set_phase_def cmd_run_stubborn [OF assms(2)])
      moreover have "phase_of s j = Starting" if "j < length (ps_instances s)" for j
        using that assms(4) True by (auto simp: ignore_inv_def)
      ultimately show ?thesis
        using True assms(4) by (auto simp: go_run(1) ignore_inv_def cmd_run_stubborn [OF assms(2)])
    next
      case False
      have "serving (ps_instances s') = serving (ps_instances s)"
        unfolding go_run(1) by (rule serving_set_phase) (use go_run(2,3) False in \<open>auto simp: cmd_run_stubborn [OF assms(2)]\<close>)
      with False assms(4) show ?thesis
        by (auto simp: go_run(1) ignore_inv_def cmd_run_stubborn [OF assms(2)])
    qed
  next
    case (config c)
    have "phase_of s' i = (if i < length (ps_instances s) then phase_of s i else Starting)" if "i < length (ps_instances s')" for i
      using that by (simp add: config(1) reload_def nth_append cancelFunc_phase)
    moreover have "length (ps_instances s') = Suc (length (ps_instances s))" "serving (ps_instances s') = serving (ps_instances s)"
      "ps_loop s' = ps_loop s" by (simp_all add: config(1) reload_def)
    ultimately show ?thesis using assms(4) by (auto simp: ignore_inv_def split: if_splits)
  next
    case (receive i err)
    have "serving (ps_instances s') = serving (ps_instances s)"
      unfolding receive(1) loop_return_simps by (rule serving_set_phase) (use receive(3,4) in auto)
    moreover have "err = AddrInUse" using assms(4) receive(3,4) by (force simp: ignore_inv_def)
    moreover have "serving (ps_instances s) \<noteq> []" using assms(4) receive(3,4) by (force simp: ignore_inv_def)
    ultimately show ?thesis using assms(4) by (auto simp: receive(1) ignore_inv_def)
  next
    case (closed r i err)
    have "serving (ps_instances s') = serving (ps_instances s)"
      using serving_set_phase [OF closed(3), of Gone] closed(4) by (simp add: closed(1))
    moreover have "serving (ps_instances s) \<noteq> []" using assms(4) closed(3,4) by (force simp: ignore_inv_def)
    ultimately show ?thesis using assms(4) closed(2) by (auto simp: closed(1) ignore_inv_def)
  qed (use assms in \<open>auto simp: stubborn_def\<close>)
  then show "ignore_inv s'" and "serving (ps_instances s) \<noteq> [] \<Longrightarrow> serving (ps_instances s') = serving (ps_instances s)"
    by simp_all
qed

lemma signalled_stays: "cmd_step p s s' \<Longrightarrow> ps_signalled s \<Longrightarrow> ps_signalled s'"
  by (induction rule: cmd_step.induct) (simp_all add: reload_def)

lemma stubborn_reach:
  assumes "cmd_reach p s s'" and "stubborn p" and "\<not> ps_signalled s'" and "ignore_inv s"
  shows "ignore_inv s' \<and> (serving (ps_instances s) \<noteq> [] \<longrightarrow> serving (ps_instances s') = serving (ps_instances s))"
proof (rule cmds.reach_invariant_until [where B = ps_signalled, OF assms(1,3), where I = "\<lambda>x. ignore_inv x \<and>
    (serving (ps_instances s) \<noteq> [] \<longrightarrow> serving (ps_instances x) = serving (ps_instances s))"])
  fix x y
  assume x: "cmd_step p x y" "\<not> ps_signalled y" "ignore_inv x \<and>
    (serving (ps_instances s) \<noteq> [] \<longrightarrow> serving (ps_instances x) = serving (ps_instances s))"
  then show "ignore_inv y \<and> (serving (ps_instances s) \<noteq> [] \<longrightarrow> serving (ps_instances y) = serving (ps_instances s))"
    using stubborn_step [OF x(1) assms(2) x(2)] by auto
qed (use assms(4) signalled_stays in auto)

lemma stubborn_init: "ignore_inv (Run_start c)"
  by (simp add: ignore_inv_def Run_start_def)

text \<open>While the loop runs, a goroutine that does not serve can still end it with the error of its address.\<close>

lemma waiting_ends:
  assumes "stubborn p" and "ignore_inv s" and "ps_loop s = Looping" and "serving (ps_instances s) \<noteq> []"
    and "2 \<le> length (ps_instances s)"
  shows "\<exists>s'. cmd_reach p s s' \<and> ps_loop s' = Returned (Some AddrInUse)"
proof -
  have ends: "\<exists>s'. cmd_reach p u s' \<and> ps_loop s' = Returned (Some AddrInUse)"
    if "ps_loop u = Looping" "i < length (ps_instances u)" "phase_of u i = Sending AddrInUse" for u i
    using cmd_reach.step [OF cmd_reach.init cmd_step.receive [OF that]] by (metis loop_return_simps(1))
  have "\<exists>i < length (ps_instances s). \<forall>c. phase_of s i \<noteq> Serving c"
  proof (rule ccontr)
    assume "\<not> ?thesis"
    then obtain c d where "phase_of s 0 = Serving c" "phase_of s 1 = Serving d" using assms(5) by fastforce
    moreover have "ps_instances s = ps_instances s ! 0 # ps_instances s ! 1 # drop 2 (ps_instances s)"
      using assms(5) by (cases "ps_instances s"; cases "tl (ps_instances s)") auto
    ultimately have "serving (ps_instances s) = c # d # serving (drop 2 (ps_instances s))"
      by (metis prod.collapse serving_simps(2))
    then show False using assms(2) by (simp add: ignore_inv_def)
  qed
  then obtain i where i: "i < length (ps_instances s)" "\<And>c. phase_of s i \<noteq> Serving c" by blast
  then consider "phase_of s i = Starting" | "phase_of s i = Sending AddrInUse"
    using assms(2,3) by (auto simp: ignore_inv_def)
  then show ?thesis
  proof cases
    case 1
    let ?u = "set_phase i (cmd_run p s) s"
    have "cmd_reach p s ?u" by (rule cmd_reach.step [OF cmd_reach.init cmd_step.go_run [OF i(1) 1]])
    moreover have "\<exists>s'. cmd_reach p ?u s' \<and> ps_loop s' = Returned (Some AddrInUse)"
      by (rule ends [where i = i]) (use assms(3,4) i(1) in \<open>simp_all add: cmd_run_stubborn [OF assms(1)]\<close>)
    ultimately show ?thesis using cmds.reach_trans by blast
  next
    case 2
    then show ?thesis using ends assms(3) i(1) by blast
  qed
qed



section \<open>Reloading the API server\<close>

text \<open>
  A reload of the API server is a race. Its server ends when its context is cancelled, so the new configuration can
  come to be served; but the new goroutine may also try to listen before the old one has ended, and then the
  loop ends with the error.
\<close>

theorem apiserver_reload_race:
  assumes "p = apiserver_cmd addr prepare crash" and "ps_instances s = [(Serving c, False)]" and "ps_loop s = Looping"
    and "addr c' = addr c" and "prepare c' = None"
  shows "(\<exists>s'. cmd_reach p (reload c' s) s' \<and> ps_loop s' = Looping \<and> serving (ps_instances s') = [c']) \<and>
    (\<exists>s'. cmd_reach p (reload c' s) s' \<and> ps_loop s' = Returned (Some AddrInUse))"
proof
  let ?r = "reload c' s"
  have r: "ps_instances ?r = [(Serving c, True), (Starting, False)]" "ps_loop ?r = Looping" "ps_Config ?r = c'"
    using assms(2,3) by (simp_all add: reload_def cancelFunc_def)
  have p: "pr_obeys p" "pr_prepare p = prepare" "pr_addr p = addr" by (simp_all add: assms(1) apiserver_cmd_def)
  show "\<exists>s'. cmd_reach p ?r s' \<and> ps_loop s' = Looping \<and> serving (ps_instances s') = [c']"
  proof -
    let ?u = "set_phase 0 Gone ?r"
    have u: "ps_instances ?u = [(Gone, True), (Starting, False)]" by (simp add: set_phase_def r)
    have "cmd_step p ?r ?u" by (rule cmd_step.cancelled [where c = c]) (simp_all add: r p)
    moreover have "cmd_step p ?u (set_phase 1 (cmd_run p ?u) ?u)" by (rule cmd_step.go_run) (simp_all add: u)
    moreover have "cmd_run p ?u = Serving c'" by (simp add: cmd_run_def p assms(5) r u)
    ultimately show ?thesis
      by (intro exI [of _ "set_phase 1 (cmd_run p ?u) ?u"] conjI)
        (blast intro: cmd_reach.init cmd_reach.step, simp add: r, simp add: set_phase_def r)
  qed
  show "\<exists>s'. cmd_reach p ?r s' \<and> ps_loop s' = Returned (Some AddrInUse)"
  proof -
    let ?u = "set_phase 1 (cmd_run p ?r) ?r"
    have "cmd_run p ?r = Sending AddrInUse" by (simp add: cmd_run_def p assms(4,5) r)
    then have u: "phase_of ?u 1 = Sending AddrInUse" "ps_loop ?u = Looping" "1 < length (ps_instances ?u)" by (simp_all add: r)
    have "cmd_step p ?r ?u" by (rule cmd_step.go_run) (simp_all add: r)
    with cmd_step.receive [OF u(2,3,1), of p] show ?thesis
      by (intro exI [of _ "loop_return (Some AddrInUse) (set_phase 1 Gone ?u)"] conjI)
        (blast intro: cmd_reach.init cmd_reach.step, simp)
  qed
qed

text \<open>The witness: configuration 1 is served, configuration 2 comes.\<close>

theorem apiserver_reload_race_witness:
  "\<exists>s s'. serving (ps_instances s) = [1] \<and> cmd_reach (apiserver_cmd (\<lambda>_. ''a'') (\<lambda>_. None) False) (reload (2 :: nat) s) s' \<and>
     serving (ps_instances s') = [2]"
proof -
  let ?s = "(Run_start (1 :: nat))\<lparr>ps_instances := [(Serving 1, False)]\<rparr>"
  have "ps_instances ?s = [(Serving 1, False)]" "ps_loop ?s = Looping" by (simp_all add: Run_start_def)
  from apiserver_reload_race [OF refl this, of "\<lambda>_. ''a''" 2 "\<lambda>_. None" False]
  obtain s' where "cmd_reach (apiserver_cmd (\<lambda>_. ''a'') (\<lambda>_. None) False) (reload 2 ?s) s'" "serving (ps_instances s') = [2]"
    by auto
  moreover have "serving (ps_instances ?s) = [1]" by (simp add: Run_start_def)
  ultimately show ?thesis by blast
qed

text \<open>
  A proxy whose server cannot be prepared goes on with none: the error is dropped, nobody serves and the loop does
  not end, until a signal or a new configuration.
\<close>

theorem proxy_prepare_silent:
  assumes "p = proxy_cmd addr (\<lambda>_. Some e) crash" and "cmd_reach p (Run_start c) s" and "\<not> ps_signalled s"
  shows "serving (ps_instances s) = [] \<and> ps_loop s = Looping \<and>
    (\<forall>i < length (ps_instances s). phase_of s i \<in> {Starting, Gone})"
  using assms(2,3)
proof (induction rule: cmd_reach.induct)
  case init
  show ?case by (simp add: Run_start_def)
next
  case (step s1 s2)
  have ih: "serving (ps_instances s1) = []" "ps_loop s1 = Looping" "\<And>i. i < length (ps_instances s1) \<Longrightarrow> phase_of s1 i \<in> {Starting, Gone}"
    using step.IH signalled_stays [OF step.hyps(2)] step.prems by auto
  have run: "cmd_run p s1 = Gone" by (simp add: cmd_run_def assms(1) proxy_cmd_def ended_def)
  from step.hyps(2) show ?case
  proof cases
    case (go_run i)
    have "serving (ps_instances s2) = []"
      unfolding go_run(1) run using serving_set_phase [OF go_run(2), of Gone] go_run(3) ih(1) by simp
    with ih go_run show ?thesis by (auto simp: run)
  next
    case (config d)
    then show ?thesis using ih by (auto simp: reload_def nth_append cancelFunc_phase less_Suc_eq)
  next
    case (receive i err)
    then show ?thesis using ih(3) by fastforce
  next
    case (signal_end i d)
    then show ?thesis using ih(3) by fastforce
  next
    case (crash i d err)
    then show ?thesis using ih(3) by fastforce
  next
    case (cancelled i d)
    then show ?thesis using ih(3) by fastforce
  qed (use ih step.prems in auto)
qed

end
