(* ===== verification/Options.thy ===== *)
theory Options
  imports Webhook
begin

text \<open>
  The options of the commands and how they are checked before anything starts: \<open>pkg/server/options\<close>,
  \<open>pkg/simple/client/k8s/options.go\<close>, \<open>pkg/apiserver/config\<close>, \<open>cmd/apiserver/app/options\<close>,
  \<open>cmd/controller/app/options\<close> and \<open>internal/controller/config\<close>. Command line flags only overwrite fields. Files
  (\<open>os.Stat\<close>, reading, YAML, key pairs) are arguments. Ports are integers, they are only compared and printed.
\<close>

section \<open>The API server\<close>

record GenericOptions =
  go_BindAddress :: string
  go_InsecurePort :: int
  go_SecurePort :: int
  go_TlsCertFile :: string
  go_TlsPrivateKey :: string

definition Generic_New :: GenericOptions where
  "Generic_New = \<lparr>go_BindAddress = ''0.0.0.0'', go_InsecurePort = 9091, go_SecurePort = 0, go_TlsCertFile = [], go_TlsPrivateKey = []\<rparr>"

definition IsValidPort :: "int \<Rightarrow> bool" where
  "IsValidPort port \<longleftrightarrow> port > 0 \<and> port < 65535"

definition file_errors :: "(string \<Rightarrow> go_error option) \<Rightarrow> string \<Rightarrow> string \<Rightarrow> go_error list" where
  "file_errors stat file msg = (if file = [] then [Errorf msg] else case stat file of Some err \<Rightarrow> [err] | None \<Rightarrow> [])"

definition Generic_Validate :: "(string \<Rightarrow> go_error option) \<Rightarrow> GenericOptions \<Rightarrow> go_error list" where
  "Generic_Validate stat s =
     (if go_SecurePort s = 0 \<and> go_InsecurePort s = 0
      then [Errorf ''insecure and secure port can not be disabled at the same time''] else []) @
     (if IsValidPort (go_SecurePort s)
      then file_errors stat (go_TlsCertFile s) ''tls cert file is empty while secure serving'' @
           file_errors stat (go_TlsPrivateKey s) ''tls private key file is empty while secure serving''
      else [])"

record KubernetesOptions =
  ko_KubeConfig :: string
  ko_Master :: string
  ko_QPS :: int
  ko_Burst :: int

definition Kubernetes_Validate :: "(string \<Rightarrow> go_error option) \<Rightarrow> KubernetesOptions \<Rightarrow> go_error list" where
  "Kubernetes_Validate stat k =
     (if ko_KubeConfig k \<noteq> [] then (case stat (ko_KubeConfig k) of Some err \<Rightarrow> [err] | None \<Rightarrow> []) else [])"

text \<open>\<open>ToMap\<close>: the only field of the configuration is a pointer with the name \<open>kubernetes\<close>.\<close>

record APIServerConfig =
  ac_KubernetesOptions :: "KubernetesOptions option"

definition ToMap :: "APIServerConfig option \<Rightarrow> (string \<rightharpoonup> bool)" where
  "ToMap conf = (case conf of None \<Rightarrow> Map.empty | Some c \<Rightarrow> [''kubernetes'' \<mapsto> ac_KubernetesOptions c \<noteq> None])"

text \<open>The loader: the error of reading the file is overwritten by the result of \<open>Unmarshal\<close>.\<close>

definition apiserver_loadFromDisk ::
  "go_error option \<Rightarrow> (APIServerConfig \<Rightarrow> go_error option \<times> APIServerConfig) \<Rightarrow> APIServerConfig config_holder
   \<Rightarrow> (APIServerConfig \<times> go_error option) \<times> APIServerConfig config_holder" where
  "apiserver_loadFromDisk read_in unmarshal h =
     (if ch_loaded h then ((ch_cfg h, None), h)
      else (let (err, c) = unmarshal (ch_cfg h) in ((c, err), h\<lparr>ch_cfg := c, ch_loaded := True\<rparr>)))"

text \<open>\<open>SchemeOnce\<close> is the flag of a \<open>sync.Once\<close>: whether it has run.\<close>

record ApiOptions =
  ao_Generic :: GenericOptions
  ao_Config :: APIServerConfig
  ao_SchemeOnce :: bool

definition ApiOptions_New :: "APIServerConfig \<Rightarrow> ApiOptions" where
  "ApiOptions_New conf = \<lparr>ao_Generic = Generic_New, ao_Config = conf, ao_SchemeOnce = False\<rparr>"

definition Api_Merge :: "ApiOptions \<Rightarrow> APIServerConfig option \<Rightarrow> ApiOptions" where
  "Api_Merge s conf = (case conf of None \<Rightarrow> s | Some c \<Rightarrow> s\<lparr>ao_Config := c\<rparr>)"

text \<open>A nil pointer to the Kubernetes options is dereferenced by their \<open>Validate\<close>.\<close>

definition Api_Validate :: "(string \<Rightarrow> go_error option) \<Rightarrow> ApiOptions \<Rightarrow> go_error list go_result" where
  "Api_Validate stat s =
     (case ac_KubernetesOptions (ao_Config s) of
        None \<Rightarrow> Inl (GoPanic ''invalid memory address or nil pointer dereference'')
      | Some k \<Rightarrow> Inr (Generic_Validate stat (ao_Generic s) @ Kubernetes_Validate stat k))"

text \<open>The listening part of \<open>NewAPIServer\<close>: the address, and whether it is served with TLS.\<close>

definition api_listener :: "(string \<Rightarrow> string \<Rightarrow> go_error option) \<Rightarrow> GenericOptions \<Rightarrow> (string \<times> bool) go_result" where
  "api_listener loadKeyPair g =
     (if go_SecurePort g \<noteq> 0
      then (case loadKeyPair (go_TlsCertFile g) (go_TlsPrivateKey g) of
              Some err \<Rightarrow> Inl err
            | None \<Rightarrow> Inr ('':'' @ show_int (go_SecurePort g), True))
      else Inr (''0.0.0.0:'' @ show_int (go_InsecurePort g), False))"

section \<open>The controller\<close>

record ControllerConfig =
  cc_KubernetesOptions :: "KubernetesOptions option"
  cc_WebhookServiceName :: string
  cc_WebhookPort :: int
  cc_ProxySidecar :: "SidecarConfig option"
  cc_BrokerSidecar :: "SidecarConfig option"

definition Controller_New :: "KubernetesOptions \<Rightarrow> ControllerConfig" where
  "Controller_New k = \<lparr>cc_KubernetesOptions = Some k, cc_WebhookServiceName = ''edge-qos-webhook'', cc_WebhookPort = 8444,
     cc_ProxySidecar = None, cc_BrokerSidecar = None\<rparr>"

definition getConfigPath :: "(string \<Rightarrow> string) \<Rightarrow> string" where
  "getConfigPath getenv =
     (if getenv ''DEBUG'' \<noteq> [] then ''tmp/edge-qos-controller.yaml'' else ''/etc/edge-qos-controller/edge-qos-controller.yaml'')"

definition loadConfig ::
  "(string \<Rightarrow> string) \<Rightarrow> (string \<Rightarrow> string go_result) \<Rightarrow> (string \<Rightarrow> ControllerConfig go_result) \<Rightarrow> ControllerConfig go_result" where
  "loadConfig getenv readFile unmarshal =
     (case readFile (getConfigPath getenv) of Inl err \<Rightarrow> Inl err | Inr data \<Rightarrow> unmarshal data)"

text \<open>A failed load leaves a nil configuration behind.\<close>

definition controller_loadFromDisk ::
  "ControllerConfig go_result \<Rightarrow> ControllerConfig option config_holder
   \<Rightarrow> (ControllerConfig option \<times> go_error option) \<times> ControllerConfig option config_holder" where
  "controller_loadFromDisk load h =
     (if ch_loaded h then ((ch_cfg h, None), h)
      else (case load of
              Inl err \<Rightarrow> ((None, Some err), h\<lparr>ch_cfg := None, ch_loaded := True\<rparr>)
            | Inr c \<Rightarrow> ((Some c, None), h\<lparr>ch_cfg := Some c, ch_loaded := True\<rparr>)))"

record ControllerOptions =
  co_Config :: ControllerConfig
  co_LeaderElect :: bool
  co_LeaseDuration :: duration
  co_RenewDeadline :: duration
  co_RetryPeriod :: duration
  co_MetricsBindAddress :: string
  co_HealthProbeBindAddress :: string

definition ControllerOptions_New :: "ControllerConfig \<Rightarrow> ControllerOptions" where
  "ControllerOptions_New cfg = \<lparr>co_Config = cfg, co_LeaderElect = False, co_LeaseDuration = 30 * time_Second, co_RenewDeadline = 15 * time_Second,
     co_RetryPeriod = 5 * time_Second, co_MetricsBindAddress = ''0.0.0.0:18080'', co_HealthProbeBindAddress = ''0.0.0.0:18081''\<rparr>"

definition merge_config :: "ControllerConfig \<Rightarrow> ControllerConfig \<Rightarrow> ControllerConfig" where
  "merge_config s conf =
     (let s = (if cc_KubernetesOptions conf \<noteq> None then s\<lparr>cc_KubernetesOptions := cc_KubernetesOptions conf\<rparr> else s);
          s = (if cc_WebhookServiceName conf \<noteq> [] then s\<lparr>cc_WebhookServiceName := cc_WebhookServiceName conf\<rparr> else s);
          s = (if cc_ProxySidecar conf \<noteq> None then s\<lparr>cc_ProxySidecar := cc_ProxySidecar conf\<rparr> else s);
          s = (if cc_BrokerSidecar conf \<noteq> None then s\<lparr>cc_BrokerSidecar := cc_BrokerSidecar conf\<rparr> else s)
      in if cc_WebhookPort conf \<noteq> 0 then s\<lparr>cc_WebhookPort := cc_WebhookPort conf\<rparr> else s)"

definition Controller_Merge :: "ControllerOptions \<Rightarrow> ControllerConfig option \<Rightarrow> ControllerOptions" where
  "Controller_Merge s conf = (case conf of None \<Rightarrow> s | Some c \<Rightarrow> s\<lparr>co_Config := merge_config (co_Config s) c\<rparr>)"

definition Controller_Validate :: "ControllerOptions \<Rightarrow> go_error list" where
  "Controller_Validate s =
     (if cc_ProxySidecar (co_Config s) = None then [Errorf ''app injection config cannot be empty''] else []) @
     (if cc_BrokerSidecar (co_Config s) = None then [Errorf ''model injection config cannot be empty''] else [])"

text \<open>
  \<open>addControllers\<close>: the results of \<open>SetupWithManager\<close> in their order; and \<open>RunE\<close> of the command: check the options,
  then run. The first error of the list stands for the aggregate.
\<close>

fun addControllers :: "go_error option list \<Rightarrow> go_error option" where
  "addControllers [] = None"
| "addControllers (r # rs) = (case r of Some err \<Rightarrow> Some err | None \<Rightarrow> addControllers rs)"

definition controller_RunE :: "(ControllerOptions \<Rightarrow> go_error option) \<Rightarrow> ControllerOptions \<Rightarrow> go_error option" where
  "controller_RunE run s = (case Controller_Validate s of [] \<Rightarrow> run s | err # _ \<Rightarrow> Some err)"

section \<open>Properties\<close>

text \<open>
  The options of the file prevail where they are set, the defaults stay elsewhere, and merging the same
  file twice changes nothing.
\<close>

lemma merge_config_fields:
  "cc_KubernetesOptions (merge_config s c) = (case cc_KubernetesOptions c of None \<Rightarrow> cc_KubernetesOptions s | k \<Rightarrow> k)"
  "cc_WebhookServiceName (merge_config s c) = (if cc_WebhookServiceName c = [] then cc_WebhookServiceName s else cc_WebhookServiceName c)"
  "cc_WebhookPort (merge_config s c) = (if cc_WebhookPort c = 0 then cc_WebhookPort s else cc_WebhookPort c)"
  "cc_ProxySidecar (merge_config s c) = (case cc_ProxySidecar c of None \<Rightarrow> cc_ProxySidecar s | k \<Rightarrow> k)"
  "cc_BrokerSidecar (merge_config s c) = (case cc_BrokerSidecar c of None \<Rightarrow> cc_BrokerSidecar s | k \<Rightarrow> k)"
  by (simp_all add: merge_config_def Let_def split: option.splits)

theorem merge_idempotent: "Controller_Merge (Controller_Merge s c) c = Controller_Merge s c"
proof (cases c)
  case (Some conf)
  have "merge_config (merge_config x conf) conf = merge_config x conf" for x
    by (rule ControllerConfig.equality) (simp_all add: merge_config_fields split: option.splits)
  with Some show ?thesis by (simp add: Controller_Merge_def)
qed (simp add: Controller_Merge_def)

text \<open>
  The controller runs only with both sidecars, and from the defaults they can only come from
  the configuration file.
\<close>

theorem controller_run_guarded:
  assumes "s = Controller_Merge (ControllerOptions_New (Controller_New k)) conf"
    and "Controller_Validate s = []"
  shows "\<exists>c px bk. conf = Some c \<and> cc_ProxySidecar c = Some px \<and> cc_BrokerSidecar c = Some bk \<and>
    cc_ProxySidecar (co_Config s) = Some px \<and> cc_BrokerSidecar (co_Config s) = Some bk \<and> controller_RunE run s = run s"
  using assms
  by (cases conf) (auto simp: Controller_Merge_def Controller_Validate_def ControllerOptions_New_def Controller_New_def
      merge_config_fields controller_RunE_def split: if_splits option.splits)

text \<open>
  Options that pass the check can be listened on, except for one gap: for a secure port from 1 to 65534 both
  key files were found to exist, and without a secure port there is an insecure one; but a secure port outside
  that range, 65535 included, passes with no key files at all, and then the server is not created unless the
  empty file names happen to load.
\<close>

theorem validated_listener:
  assumes "Api_Validate stat s = Inr []" and "g = ao_Generic s"
  shows "(IsValidPort (go_SecurePort g) \<longrightarrow> go_TlsCertFile g \<noteq> [] \<and> stat (go_TlsCertFile g) = None \<and>
       go_TlsPrivateKey g \<noteq> [] \<and> stat (go_TlsPrivateKey g) = None) \<and>
    (go_SecurePort g = 0 \<longrightarrow> go_InsecurePort g \<noteq> 0 \<and>
       api_listener loadKeyPair g = Inr (''0.0.0.0:'' @ show_int (go_InsecurePort g), False)) \<and>
    (Api_Validate stat (s\<lparr>ao_Generic := g\<lparr>go_SecurePort := 65535, go_TlsCertFile := [], go_TlsPrivateKey := []\<rparr>\<rparr>) = Inr [] \<and>
     (loadKeyPair [] [] = Some err \<longrightarrow>
        api_listener loadKeyPair (g\<lparr>go_SecurePort := 65535, go_TlsCertFile := [], go_TlsPrivateKey := []\<rparr>) = Inl err))"
  using assms
  by (auto simp: Api_Validate_def Generic_Validate_def file_errors_def IsValidPort_def api_listener_def
      split: option.splits if_splits)

theorem validated_listener_witness:
  "api_listener (\<lambda>_ _. Some (OtherErr ''no file''))
     (Generic_New\<lparr>go_SecurePort := 65535, go_TlsCertFile := [], go_TlsPrivateKey := []\<rparr>) = Inl (OtherErr ''no file'')"
proof -
  let ?s = "\<lparr>ao_Generic = Generic_New,
    ao_Config = \<lparr>ac_KubernetesOptions = Some \<lparr>ko_KubeConfig = [], ko_Master = [], ko_QPS = 1000000, ko_Burst = 1000000\<rparr>\<rparr>, ao_SchemeOnce = False\<rparr>"
  have "Api_Validate (\<lambda>_. None) ?s = Inr []"
    by (simp add: Api_Validate_def Generic_Validate_def Kubernetes_Validate_def IsValidPort_def Generic_New_def)
  from validated_listener [OF this refl, of "\<lambda>_ _. Some (OtherErr ''no file'')" "OtherErr ''no file''"] show ?thesis by simp
qed

end
