(* ===== verification/Api_Server.thy ===== *)
theory Api_Server
  imports Api Options
begin

text \<open>
  \<open>pkg/kapis/apps/v1alpha1/register.go\<close>, \<open>pkg/apiserver/runtime\<close>, \<open>pkg/apiserver/apiserver.go\<close> and \<open>NewAPIServer\<close> of
  \<open>cmd/apiserver/app/options\<close>: the table of routes, the container with its filter and its recovery from panics, the
  construction of the server, and how it listens. go-restful is a parameter whose documented behaviour is the
  predicate \<open>restful_ok\<close>; the constructors of client-go and controller-runtime are the record \<open>kube_env\<close>.
\<close>

section \<open>Routes\<close>

text \<open>What the handlers write as an entity.\<close>

datatype api_entity =
    TemplateList "TemplateView ListResult"
  | TemplateEntity TemplateView
  | DeploymentList "DeploymentView ListResult"
  | DeploymentEntity DeploymentView
  | NodeSpecificationsEntity NodeSpecifications
  | RunningServers "InferModelServer list"

type_synonym 's route_function = "ApiRequest \<Rightarrow> 's \<Rightarrow> api_entity response \<times> 's"

record 's Route =
  ro_Method :: string
  ro_Path :: string
  ro_Function :: "'s route_function"

definition map_response :: "('a \<Rightarrow> 'b) \<Rightarrow> 'a response \<Rightarrow> 'b response" where
  "map_response f r = (case r of Entity x \<Rightarrow> Entity (f x) | response.HttpError c t \<Rightarrow> response.HttpError c t | Panicked m \<Rightarrow> Panicked m)"

text \<open>A handler that only reads.\<close>

definition reading :: "('a \<Rightarrow> api_entity) \<Rightarrow> ('s \<Rightarrow> ApiRequest \<Rightarrow> 'a response) \<Rightarrow> 's route_function" where
  "reading entity h req s = (map_response entity (h s req), s)"

definition ApiRootPath :: string where
  "ApiRootPath = ''/kapis''"

definition GroupVersion :: string where
  "GroupVersion = ''apps.edgewize.io/v1alpha1''"

definition NewWebService :: "string \<Rightarrow> string" where
  "NewWebService gv = ApiRootPath @ ''/'' @ gv"

definition web_route :: "string \<Rightarrow> string \<Rightarrow> string \<Rightarrow> 's route_function \<Rightarrow> 's Route" where
  "web_route root method path f = \<lparr>ro_Method = method, ro_Path = root @ path, ro_Function = f\<rparr>"

definition AddToContainer :: "'s api_env \<Rightarrow> 's Route list" where
  "AddToContainer E =
     (let ws = web_route (NewWebService GroupVersion)
      in [ws ''GET'' ''/workspaces/{workspace}/infermodeltemplates'' (reading TemplateList (handleListWorkspaceInferModelTemplates E)),
          ws ''GET'' ''/workspaces/{workspace}/infermodeltemplates/{name}'' (reading TemplateEntity (handleGetWorkSpaceInferModelTemplate E)),
          ws ''GET'' ''/infermodeltemplates'' (reading TemplateList (handleListInferModelTemplates E)),
          ws ''GET'' ''/infermodeltemplates/{name}'' (reading TemplateEntity (handleGetInferModelTemplate E)),
          ws ''GET'' ''/infermodeldeployments'' (reading DeploymentList (handleListAllInferModelDeployments E)),
          ws ''GET'' ''/namespaces/{namespace}/infermodeldeployments'' (reading DeploymentList (handleListInferModelDeployments E)),
          ws ''GET'' ''/namespaces/{namespace}/infermodeldeployments/{name}'' (reading DeploymentEntity (handleGetInferModelDeployment E)),
          ws ''DELETE'' ''/namespaces/{namespace}/infermodeldeployments/{name}''
             (\<lambda>req s. let (resp, s') = handleDeleteInferModelDeployment E s req in (map_response DeploymentEntity resp, s')),
          ws ''GET'' ''/specification/{node}'' (reading NodeSpecificationsEntity (handleGetSpecifications E)),
          ws ''GET'' ''/infermodelservers'' (reading RunningServers (handleGetDeployedInferModelServer E))])"

section \<open>The container\<close>

record WebRequest =
  wr_Method :: string
  wr_Path :: string
  wr_Query :: "string \<rightharpoonup> string list"
  wr_Header :: "string \<Rightarrow> string"
  wr_RemoteAddr :: string

record Answer =
  an_Status :: nat
  an_Entity :: "api_entity option"
  an_Text :: string

text \<open>A line of the access log, with the verbosity it is written at.\<close>

record AccessLog =
  al_Verbosity :: nat
  al_RemoteIp :: string
  al_Method :: string
  al_Status :: nat

definition status_of :: "'a response \<Rightarrow> nat" where
  "status_of r = (case r of Entity _ \<Rightarrow> 200 | response.HttpError c _ \<Rightarrow> c | Panicked _ \<Rightarrow> 500)"

text \<open>A panic in the chain leaves the filter before it logs.\<close>

definition logRequestAndResponse ::
  "WebRequest \<Rightarrow> ('s \<Rightarrow> api_entity response \<times> 's) \<Rightarrow> 's \<Rightarrow> (api_entity response \<times> 's) \<times> AccessLog list" where
  "logRequestAndResponse req chain s =
     (let (resp, s') = chain s
      in ((resp, s'),
          (case resp of
             Panicked _ \<Rightarrow> []
           | _ \<Rightarrow> [\<lparr>al_Verbosity = (if status_of resp > 400 then 0 else 4), al_RemoteIp = RemoteIp (wr_RemoteAddr req) (wr_Header req),
                    al_Method = wr_Method req, al_Status = status_of resp\<rparr>])))"

definition logStackOnRecover :: "string \<Rightarrow> Answer" where
  "logStackOnRecover panicReason = \<lparr>an_Status = 500, an_Entity = None, an_Text = ''Internal server error''\<rparr>"

record 's container =
  ct_Filter :: "WebRequest \<Rightarrow> ('s \<Rightarrow> api_entity response \<times> 's) \<Rightarrow> 's \<Rightarrow> (api_entity response \<times> 's) \<times> AccessLog list"
  ct_Recover :: "string \<Rightarrow> Answer"
  ct_Routes :: "'s Route list"

definition Api_PrepareRun :: "'s api_env \<Rightarrow> 's container" where
  "Api_PrepareRun E = \<lparr>ct_Filter = logRequestAndResponse, ct_Recover = logStackOnRecover, ct_Routes = AddToContainer E\<rparr>"

section \<open>What is relied on of go-restful\<close>

text \<open>
  A path template matches a path with as many segments, each of which equals the template's or stands for a
  parameter in braces. Only paths without empty segments are considered.
\<close>

definition segments :: "string \<Rightarrow> string list" where
  "segments path = SplitChar (TrimPrefix path ''/'') CHR ''/''"

definition is_param :: "string \<Rightarrow> bool" where
  "is_param t \<longleftrightarrow> t \<noteq> [] \<and> hd t = CHR ''{'' \<and> last t = CHR ''}''"

definition path_matches :: "string list \<Rightarrow> string list \<Rightarrow> bool" where
  "path_matches ts ss = list_all2 (\<lambda>t s. is_param t \<or> t = s) ts ss"

definition path_parameter :: "string list \<Rightarrow> string list \<Rightarrow> string \<Rightarrow> string" where
  "path_parameter ts ss name =
     (case map_of (zip ts ss) (''{'' @ name @ ''}'') of Some v \<Rightarrow> v | None \<Rightarrow> [])"

definition clean_path :: "string \<Rightarrow> bool" where
  "clean_path path \<longleftrightarrow> list_all (\<lambda>s. s \<noteq> []) (segments path)"

definition for_path :: "string \<Rightarrow> 's Route list \<Rightarrow> 's Route list" where
  "for_path path = filter (\<lambda>r. path_matches (segments (ro_Path r)) (segments path))"

definition for_method :: "string \<Rightarrow> 's Route list \<Rightarrow> 's Route list" where
  "for_method method = filter (\<lambda>r. ro_Method r = method)"

definition api_request :: "'s Route \<Rightarrow> WebRequest \<Rightarrow> ApiRequest" where
  "api_request r req = \<lparr>ar_PathParameter = path_parameter (segments (ro_Path r)) (segments (wr_Path req)), ar_Query = wr_Query req\<rparr>"

definition written :: "'s container \<Rightarrow> api_entity response \<Rightarrow> Answer" where
  "written ct resp =
     (case resp of
        Entity x \<Rightarrow> \<lparr>an_Status = 200, an_Entity = Some x, an_Text = []\<rparr>
      | response.HttpError c t \<Rightarrow> \<lparr>an_Status = c, an_Entity = None, an_Text = t\<rparr>
      | Panicked m \<Rightarrow> ct_Recover ct m)"

type_synonym 's restful_pkg = "'s container \<Rightarrow> WebRequest \<Rightarrow> 's \<Rightarrow> Answer \<times> 's \<times> AccessLog list"

text \<open>
  The only route for a path and a method runs inside the filter, its panics go to the recovery function; without a
  route the answer is 404, or 405 when the path has routes for other methods. Nothing is said of a choice
  between several routes.
\<close>

definition restful_ok :: "'s restful_pkg \<Rightarrow> bool" where
  "restful_ok serve \<longleftrightarrow>
     (\<forall>ct req s. clean_path (wr_Path req) \<longrightarrow>
        (case for_method (wr_Method req) (for_path (wr_Path req) (ct_Routes ct)) of
           [] \<Rightarrow> fst (snd (serve ct req s)) = s \<and>
                an_Status (fst (serve ct req s)) = (if for_path (wr_Path req) (ct_Routes ct) = [] then 404 else 405)
         | [r] \<Rightarrow> serve ct req s =
                  (let ((resp, s'), log) = ct_Filter ct req (ro_Function r (api_request r req)) s
                   in (written ct resp, s', log))
         | _ \<Rightarrow> True))"

lemma restful_one:
  assumes "restful_ok serve" "clean_path (wr_Path req)" "for_method (wr_Method req) (for_path (wr_Path req) (ct_Routes ct)) = [r]"
  shows "serve ct req s = (let ((resp, s'), log) = ct_Filter ct req (ro_Function r (api_request r req)) s in (written ct resp, s', log))"
  using assms(1) [unfolded restful_ok_def, rule_format, OF assms(2), of ct s] assms(3) by simp

lemma restful_none:
  assumes "restful_ok serve" "clean_path (wr_Path req)" "for_method (wr_Method req) (for_path (wr_Path req) (ct_Routes ct)) = []"
  shows "fst (snd (serve ct req s)) = s"
    "an_Status (fst (serve ct req s)) = (if for_path (wr_Path req) (ct_Routes ct) = [] then 404 else 405)"
  using assms(1) [unfolded restful_ok_def, rule_format, OF assms(2), of ct s] assms(3) by simp_all

section \<open>The table has no overlaps\<close>

definition route_key :: "'s Route \<Rightarrow> string \<times> string list" where
  "route_key r = (ro_Method r, segments (ro_Path r))"

text \<open>Two templates that can match the same path.\<close>

definition overlap :: "string list \<Rightarrow> string list \<Rightarrow> bool" where
  "overlap ts us = list_all2 (\<lambda>t u. is_param t \<or> is_param u \<or> t = u) ts us"

lemma matches_overlap: "path_matches ts ss \<Longrightarrow> path_matches us ss \<Longrightarrow> overlap ts us"
  unfolding path_matches_def overlap_def by (fastforce simp: list_all2_conv_all_nth)

definition api_prefix :: "string list" where
  "api_prefix = [''kapis'', ''apps.edgewize.io'', ''v1alpha1'']"

definition api_table :: "(string \<times> string list) list" where
  "api_table = map (\<lambda>(m, ts). (m, api_prefix @ ts))
     [(''GET'', [''workspaces'', ''{workspace}'', ''infermodeltemplates'']),
      (''GET'', [''workspaces'', ''{workspace}'', ''infermodeltemplates'', ''{name}'']),
      (''GET'', [''infermodeltemplates'']),
      (''GET'', [''infermodeltemplates'', ''{name}'']),
      (''GET'', [''infermodeldeployments'']),
      (''GET'', [''namespaces'', ''{namespace}'', ''infermodeldeployments'']),
      (''GET'', [''namespaces'', ''{namespace}'', ''infermodeldeployments'', ''{name}'']),
      (''DELETE'', [''namespaces'', ''{namespace}'', ''infermodeldeployments'', ''{name}'']),
      (''GET'', [''specification'', ''{node}'']),
      (''GET'', [''infermodelservers''])]"

lemmas web_defs = AddToContainer_def web_route_def NewWebService_def ApiRootPath_def GroupVersion_def Let_def

lemma AddToContainer_table: "map route_key (AddToContainer E) = api_table"
  by (simp add: web_defs route_key_def segments_def TrimPrefix_def HasPrefix_def api_table_def api_prefix_def)

lemma api_table_disjoint:
  "list_all (\<lambda>(m, ts). list_all (\<lambda>(m', us). m = m' \<and> overlap ts us \<longrightarrow> ts = us) api_table) api_table" "distinct api_table"
  by code_simp+

lemma filter_at_most_one:
  assumes "distinct (map f xs)" and "\<And>x y. x \<in> set xs \<Longrightarrow> y \<in> set xs \<Longrightarrow> P x \<Longrightarrow> P y \<Longrightarrow> f x = f y" and "x \<in> set xs" "P x"
  shows "filter P xs = [x]"
proof -
  have inj: "inj_on f (set xs)" using assms(1) by (simp add: distinct_map)
  have "y = x" if "y \<in> set xs" "P y" for y
    by (rule inj_onD [OF inj assms(2) [OF that(1) assms(3) that(2) assms(4)] that(1) assms(3)])
  then have one: "set (filter P xs) = {x}" unfolding set_filter using assms(3,4) by blast
  have "distinct (filter P xs)" using assms(1) by (simp add: distinct_map)
  from distinct_card [OF this] have "length (filter P xs) = 1" unfolding one by simp
  then obtain y where "filter P xs = [y]" by (auto simp: length_Suc_conv)
  with one show ?thesis by simp
qed

lemma route_unique:
  assumes "r \<in> set (AddToContainer E)" "ro_Method r = m" "path_matches (segments (ro_Path r)) (segments path)"
  shows "for_method m (for_path path (AddToContainer E)) = [r]"
proof -
  let ?P = "\<lambda>r. ro_Method r = m \<and> path_matches (segments (ro_Path r)) (segments path)"
  have key: "route_key x \<in> set api_table" if "x \<in> set (AddToContainer E)" for x :: "'a Route"
    using that by (metis AddToContainer_table imageI set_map)
  have "filter ?P (AddToContainer E) = [r]"
  proof (rule filter_at_most_one [where f = route_key])
    show "distinct (map route_key (AddToContainer E))" by (simp add: AddToContainer_table api_table_disjoint(2))
    show "route_key x = route_key y" if "x \<in> set (AddToContainer E)" "y \<in> set (AddToContainer E)" "?P x" "?P y" for x y
      using api_table_disjoint(1) key [OF that(1)] key [OF that(2)] that(3,4)
        matches_overlap [of "segments (ro_Path x)" "segments path" "segments (ro_Path y)"]
      unfolding list_all_iff route_key_def by fastforce
  qed (use assms in auto)
  moreover have "for_method m (for_path path (AddToContainer E)) = filter ?P (AddToContainer E)"
    by (simp add: for_method_def for_path_def conj_commute)
  ultimately show ?thesis by simp
qed

definition fits :: "WebRequest \<Rightarrow> 's Route \<Rightarrow> bool" where
  "fits req r \<longleftrightarrow> ro_Method r = wr_Method req \<and> path_matches (segments (ro_Path r)) (segments (wr_Path req))"

lemma fits_unique:
  assumes "r \<in> set (AddToContainer E)" "r' \<in> set (AddToContainer E)" "fits req r" "fits req r'"
  shows "r = r'"
proof -
  have "for_method (wr_Method req) (for_path (wr_Path req) (AddToContainer E)) = [q]" if "q \<in> set (AddToContainer E)" "fits req q" for q
    using that unfolding fits_def by (intro route_unique) auto
  then show ?thesis using assms by (metis list.inject)
qed

text \<open>Only the route for deletion changes anything.\<close>

lemma reads_only:
  "r \<in> set (AddToContainer E) \<Longrightarrow> ro_Method r \<noteq> ''DELETE'' \<Longrightarrow> snd (ro_Function r req s) = s"
  by (auto simp: web_defs reading_def)

section \<open>Properties\<close>


text \<open>An instance of go-restful's promises: the first route that fits.\<close>

definition first_fit :: "'s restful_pkg" where
  "first_fit ct req s =
     (case for_method (wr_Method req) (for_path (wr_Path req) (ct_Routes ct)) of
        [] \<Rightarrow> (\<lparr>an_Status = (if for_path (wr_Path req) (ct_Routes ct) = [] then 404 else 405), an_Entity = None, an_Text = []\<rparr>, s, [])
      | r # _ \<Rightarrow> (let ((resp, s'), log) = ct_Filter ct req (ro_Function r (api_request r req)) s in (written ct resp, s', log)))"

lemma first_fit_ok: "restful_ok first_fit"
  by (auto simp: restful_ok_def first_fit_def split: list.splits)

definition sample_web_request :: "string \<Rightarrow> WebRequest" where
  "sample_web_request method = \<lparr>wr_Method = method, wr_Path = ''/kapis/apps.edgewize.io/v1alpha1/infermodeldeployments'', wr_Query = Map.empty,
     wr_Header = (\<lambda>_. []), wr_RemoteAddr = ''10.0.0.1:80''\<rparr>"

lemma sample_web_segments:
  "segments (wr_Path (sample_web_request m)) = [''kapis'', ''apps.edgewize.io'', ''v1alpha1'', ''infermodeldeployments'']"
  "clean_path (wr_Path (sample_web_request m))"
  by (simp_all add: clean_path_def sample_web_request_def segments_def TrimPrefix_def HasPrefix_def)


text \<open>The access log calls for level 0 for every error, but an answer 400 is logged at level 4.\<close>

lemma bad_request_quiet:
  "al_Verbosity (hd (snd (logRequestAndResponse req (\<lambda>s. (response.HttpError 400 t, s)) s))) = 4"
  by (simp add: logRequestAndResponse_def status_of_def)

section \<open>The server\<close>

text \<open>The groups of types a scheme knows.\<close>

datatype api_group = CoreV1 | AppsV1 | AppsV1alpha1

text \<open>
  What \<open>NewAPIServer\<close> calls outside the repository: the client configuration \<open>'c\<close>, the HTTP client \<open>'h\<close>, the mapper \<open>'m\<close>,
  and the cache and client over a scheme. Of these two the operators use the reads of the cache, and one read and the
  deletions of the client; \<open>NewHandler\<close> gives both to the operators.
\<close>

record 's runtime_cache =
  rc_imd :: "'s \<Rightarrow> StampedDeployment reader"
  rc_imt :: "'s \<Rightarrow> StampedTemplate reader"
  rc_imv :: "'s \<Rightarrow> StampedVersion reader"
  rc_ims :: "'s \<Rightarrow> InferModelService reader"
  rc_dp :: "'s \<Rightarrow> StatusDeployment reader"
  rc_cm :: "'s \<Rightarrow> ConfigMap reader"
  rc_node :: "'s \<Rightarrow> CapacityNode reader"
  rc_Namespaces :: "'s \<Rightarrow> string list go_result"

record 's runtime_client =
  cl_node :: "'s \<Rightarrow> CapacityNode reader"
  cl_Delete :: "'s \<Rightarrow> StampedDeployment \<Rightarrow> go_error option \<times> 's"
  cl_DeleteAllOf :: "'s \<Rightarrow> string \<Rightarrow> (labels \<Rightarrow> bool) \<Rightarrow> go_error option \<times> 's"

definition NewHandler :: "'s runtime_cache \<Rightarrow> 's runtime_client \<Rightarrow> 's operator" where
  "NewHandler cache client =
     \<lparr>op_imd = rc_imd cache, op_imt = rc_imt cache, op_imv = rc_imv cache, op_ims = rc_ims cache, op_dp = rc_dp cache,
      op_cm = rc_cm cache, op_node = rc_node cache, op_clientNode = cl_node client, op_Namespaces = rc_Namespaces cache,
      op_Delete = cl_Delete client, op_DeleteAllOf = cl_DeleteAllOf client\<rparr>"

record ('c, 'h, 'm, 's) kube_env =
  ke_LoadKeyPair :: "string \<Rightarrow> string \<Rightarrow> go_error option"
  ke_GetConfig :: "'c go_result"
  ke_HTTPClientFor :: "'c \<Rightarrow> 'h go_result"
  ke_Mapper :: "'c \<Rightarrow> 'h \<Rightarrow> 'm go_result"
  ke_NewCache :: "'c \<Rightarrow> api_group set \<Rightarrow> 'm \<Rightarrow> 's runtime_cache go_result"
  ke_NewClient :: "'c \<Rightarrow> api_group set \<Rightarrow> 'm \<Rightarrow> 's runtime_client go_result"

record 's APIServer =
  as_Config :: APIServerConfig
  as_Addr :: string
  as_TLSConfig :: bool
  as_RuntimeCache :: "'s runtime_cache"
  as_RuntimeClient :: "'s runtime_client"

definition wrapf :: "string \<Rightarrow> 'a go_result \<Rightarrow> 'a go_result" where
  "wrapf msg r = (case r of Inl e \<Rightarrow> Inl (Errorf msg) | Inr x \<Rightarrow> Inr x)"

text \<open>
  The scheme is a new one on every call, but filled by the \<open>sync.Once\<close> of the options. \<open>klog.Fatalf\<close>, which ends
  the process, is taken as a panic.
\<close>

definition scheme_of :: "ApiOptions \<Rightarrow> api_group set" where
  "scheme_of s = (if ao_SchemeOnce s then {} else {CoreV1, AppsV1, AppsV1alpha1})"

definition NewAPIServer :: "('c, 'h, 'm, 's) kube_env \<Rightarrow> ApiOptions \<Rightarrow> 's APIServer go_result \<times> ApiOptions" where
  "NewAPIServer K s =
     ((case api_listener (ke_LoadKeyPair K) (ao_Generic s) of
         Inl err \<Rightarrow> Inl err
       | Inr (addr, tls) \<Rightarrow>
           (case wrapf ''failed to get kubeconfig'' (ke_GetConfig K) of
              Inl err \<Rightarrow> Inl err
            | Inr k8sConfig \<Rightarrow>
                (case wrapf ''failed to create rest client'' (ke_HTTPClientFor K k8sConfig) of
                   Inl err \<Rightarrow> Inl err
                 | Inr restClient \<Rightarrow>
                     (case wrapf ''failed to create dynamic rest mapper'' (ke_Mapper K k8sConfig restClient) of
                        Inl err \<Rightarrow> Inl err
                      | Inr mapper \<Rightarrow>
                          (case ke_NewCache K k8sConfig (scheme_of s) mapper of
                             Inl err \<Rightarrow> Inl (GoPanic ''fatal: unable to create controller runtime cache'')
                           | Inr cache \<Rightarrow>
                               (case ke_NewClient K k8sConfig (scheme_of s) mapper of
                                  Inl err \<Rightarrow> Inl (GoPanic ''fatal: unable to create controller runtime client'')
                                | Inr client \<Rightarrow>
                                    Inr \<lparr>as_Config = ao_Config s, as_Addr = addr, as_TLSConfig = tls,
                                         as_RuntimeCache = cache, as_RuntimeClient = client\<rparr>)))))),
      s\<lparr>ao_SchemeOnce := True\<rparr>)"

text \<open>
  \<open>run\<close> of the command: \<open>serve\<close> is the result of \<open>ListenAndServe\<close> (without or with TLS), which is \<open>ErrServerClosed\<close>
  after \<open>Shutdown\<close>.
\<close>

definition APIServer_Run :: "(string \<Rightarrow> bool \<Rightarrow> go_error) \<Rightarrow> 's APIServer \<Rightarrow> go_error" where
  "APIServer_Run listen a = (if as_TLSConfig a then listen (as_Addr a) True else listen (as_Addr a) False)"

definition apiserver_run ::
  "('c, 'h, 'm, 's) kube_env \<Rightarrow> (string \<Rightarrow> bool \<Rightarrow> go_error) \<Rightarrow> ApiOptions \<Rightarrow> go_error option \<times> ApiOptions" where
  "apiserver_run K listen s =
     (case NewAPIServer K s of
        (Inl err, s') \<Rightarrow> (Some err, s')
      | (Inr a, s') \<Rightarrow> (if APIServer_Run listen a = ErrServerClosed then None else Some (APIServer_Run listen a), s'))"

text \<open>What is relied on of the cache: a read of a type its scheme does not know is an error.\<close>

definition unknown_type :: "'o reader \<Rightarrow> bool" where
  "unknown_type r \<longleftrightarrow> (\<forall>ns n sel. (\<exists>m. rd_Get r ns n = Inl (OtherErr m)) \<and> (\<exists>m. rd_List r sel ns = Inl (OtherErr m)))"

definition scheme_ok :: "('c, 'h, 'm, 's) kube_env \<Rightarrow> bool" where
  "scheme_ok K \<longleftrightarrow> (\<forall>c sch m cache s. ke_NewCache K c sch m = Inr cache \<longrightarrow>
     (AppsV1alpha1 \<notin> sch \<longrightarrow> unknown_type (rc_imd cache s) \<and> unknown_type (rc_imt cache s) \<and> unknown_type (rc_imv cache s) \<and>
        unknown_type (rc_ims cache s)) \<and>
     (AppsV1 \<notin> sch \<longrightarrow> unknown_type (rc_dp cache s)) \<and>
     (CoreV1 \<notin> sch \<longrightarrow> unknown_type (rc_cm cache s) \<and> unknown_type (rc_node cache s) \<and>
        (\<exists>m. rc_Namespaces cache s = Inl (OtherErr m))))"

lemma NewAPIServer_cache:
  assumes "NewAPIServer K s = (Inr a, s')"
  obtains c m where "ke_NewCache K c (scheme_of s) m = Inr (as_RuntimeCache a)"
  using assms by (auto simp: NewAPIServer_def split: sum.splits prod.splits)

lemma NewAPIServer_once: "NewAPIServer K s = (r, s') \<Longrightarrow> ao_SchemeOnce s'"
  by (auto simp: NewAPIServer_def)

lemma unknown_type_Inl: "unknown_type r \<Longrightarrow> rd_Get r ns n \<noteq> Inr x" "unknown_type r \<Longrightarrow> rd_List r sel ns \<noteq> Inr xs"
  unfolding unknown_type_def by (metis Inl_Inr_False)+

lemma respond_Entity: "respond P r = Entity x \<longleftrightarrow> r = Inr x"
  by (auto simp: respond_def HandleError_def api_handle_def split: sum.splits go_error.splits)

lemma map_response_Entity: "map_response f r = Entity y \<longleftrightarrow> (\<exists>x. r = Entity x \<and> y = f x)"
  by (auto simp: map_response_def split: response.splits)

lemmas operation_defs = list_templates_def ListInferModelTemplate_def listInferModelTemplates_def GetInferModelTemplate_def
  list_deployments_def ListInferModelDeployments_def listInferModelDeployments_def GetInferModelDeployment_def
  DeleteInferModelDeployment_def ListNodeSpecifications_def ListRunningInferModelServers_def

lemmas handler_defs = handleListWorkspaceInferModelTemplates_def handleGetWorkSpaceInferModelTemplate_def
  handleListInferModelTemplates_def handleGetInferModelTemplate_def handleListAllInferModelDeployments_def
  handleListInferModelDeployments_def handleGetInferModelDeployment_def handleDeleteInferModelDeployment_def
  handleGetSpecifications_def handleGetDeployedInferModelServer_def

lemma blind_operator:
  assumes "unknown_type (op_imd (ae_operator E) s)" "unknown_type (op_imt (ae_operator E) s)" "unknown_type (op_node (ae_operator E) s)"
    and "op_Namespaces (ae_operator E) s = Inl err" and "r \<in> set (AddToContainer E)"
  shows "snd (ro_Function r req s) = s \<and> (\<forall>x. fst (ro_Function r req s) = Entity x \<longrightarrow> x = RunningServers [])"
proof -
  note u = unknown_type_Inl [OF assms(1)] unknown_type_Inl [OF assms(2)] unknown_type_Inl [OF assms(3)]
  have op: "list_templates E s w q \<noteq> Inr lt" "GetInferModelTemplate (ae_operator E) s srt w n \<noteq> Inr t"
    "list_deployments E s w q \<noteq> Inr ld" "GetInferModelDeployment (ae_operator E) s w n \<noteq> Inr d"
    "ListNodeSpecifications (ae_operator E) s um n \<noteq> Inr sp" for w q lt srt n t ld d um sp
    by (simp_all add: operation_defs u Let_def split: sum.splits)
  have del: "\<exists>e. DeleteInferModelDeployment (ae_operator E) s w n fl = (Inl e, s)" for w n fl
    using u(1) by (auto simp: DeleteInferModelDeployment_def split: sum.splits)
  have run: "ListRunningInferModelServers (ae_operator E) s nr ord g = Inr xs \<Longrightarrow> xs = []" for nr ord g xs
    by (auto simp: ListRunningInferModelServers_def assms(4) split: if_splits sum.splits)
  have "fst (handleDeleteInferModelDeployment E s req) \<noteq> Entity x \<and> snd (handleDeleteInferModelDeployment E s req) = s" for x
    using del [of "ar_PathParameter req ''namespace''" "ar_PathParameter req ''name''"
        "ParseBool (QueryParameter (ar_Query req) ''delete_workloads'') = Some True"]
    by (auto simp: handleDeleteInferModelDeployment_def respond_Entity)
  then show ?thesis using assms(5)
    by (auto simp: AddToContainer_def web_route_def Let_def case_prod_beta reading_def handler_defs(1-7,9,10) respond_Entity
        map_response_Entity op dest: run)
qed

text \<open>
  C28. A reloaded configuration leaves an API server that cannot read. The command keeps its options and builds a new server
  from them; the scheme of the new server is empty, because the \<open>sync.Once\<close> that fills it belongs to the options and has
  run. Whatever the cluster holds, no request is then answered with an object: the only entity any route can still
  answer is the empty list of running servers, and a deletion deletes nothing.
\<close>

theorem reload_empties_scheme:
  assumes "scheme_ok K" "NewAPIServer K s = (first, s1)" "NewAPIServer K (s1\<lparr>ao_Config := conf\<rparr>) = (Inr a, s2)"
    and "ae_operator E = NewHandler (as_RuntimeCache a) (as_RuntimeClient a)"
    and "r \<in> set (AddToContainer E)" and "ro_Function r req cl = (resp, cl')"
  shows "cl' = cl \<and> (\<forall>x. resp = Entity x \<longrightarrow> x = RunningServers [])"
proof -
  have sch: "scheme_of (s1\<lparr>ao_Config := conf\<rparr>) = {}" using NewAPIServer_once [OF assms(2)] by (simp add: scheme_of_def)
  obtain c m where "ke_NewCache K c {} m = Inr (as_RuntimeCache a)"
    using NewAPIServer_cache [OF assms(3)] by (metis sch)
  then have u: "unknown_type (op_imd (ae_operator E) cl)" "unknown_type (op_imt (ae_operator E) cl)"
    "unknown_type (op_node (ae_operator E) cl)" "\<exists>e. op_Namespaces (ae_operator E) cl = Inl e"
    using assms(1) unfolding scheme_ok_def assms(4) NewHandler_def by fastforce+
  then show ?thesis using blind_operator [OF u(1-3) _ assms(5), of _ req] assms(6) by auto
qed

definition guarded :: "bool \<Rightarrow> 'o reader \<Rightarrow> 'o reader" where
  "guarded known r =
     (if known then r
      else \<lparr>rd_Get = (\<lambda>_ _. Inl (OtherErr ''no kind is registered'')), rd_List = (\<lambda>_ _. Inl (OtherErr ''no kind is registered''))\<rparr>)"

definition sample_cache :: "api_group set \<Rightarrow> StatusDeployment list runtime_cache" where
  "sample_cache sch =
     \<lparr>rc_imd = (\<lambda>s. guarded (AppsV1alpha1 \<in> sch) (op_imd sample_operator s)), rc_imt = (\<lambda>s. guarded (AppsV1alpha1 \<in> sch) (op_imt sample_operator s)),
      rc_imv = (\<lambda>s. guarded (AppsV1alpha1 \<in> sch) (op_imv sample_operator s)), rc_ims = (\<lambda>s. guarded (AppsV1alpha1 \<in> sch) (op_ims sample_operator s)),
      rc_dp = (\<lambda>s. guarded (AppsV1 \<in> sch) (op_dp sample_operator s)), rc_cm = (\<lambda>s. guarded (CoreV1 \<in> sch) (op_cm sample_operator s)),
      rc_node = (\<lambda>s. guarded (CoreV1 \<in> sch) (op_node sample_operator s)),
      rc_Namespaces = (\<lambda>s. if CoreV1 \<in> sch then op_Namespaces sample_operator s else Inl (OtherErr ''no kind is registered''))\<rparr>"

definition sample_client :: "StatusDeployment list runtime_client" where
  "sample_client = \<lparr>cl_node = op_clientNode sample_operator, cl_Delete = op_Delete sample_operator, cl_DeleteAllOf = op_DeleteAllOf sample_operator\<rparr>"

definition sample_kube :: "(unit, unit, unit, StatusDeployment list) kube_env" where
  "sample_kube = \<lparr>ke_LoadKeyPair = (\<lambda>_ _. None), ke_GetConfig = Inr (), ke_HTTPClientFor = (\<lambda>_. Inr ()), ke_Mapper = (\<lambda>_ _. Inr ()),
     ke_NewCache = (\<lambda>_ sch _. Inr (sample_cache sch)), ke_NewClient = (\<lambda>_ _ _. Inr sample_client)\<rparr>"

lemma sample_scheme_ok: "scheme_ok sample_kube"
  by (simp add: scheme_ok_def sample_kube_def sample_cache_def guarded_def unknown_type_def)

definition sample_api_options :: ApiOptions where
  "sample_api_options = ApiOptions_New \<lparr>ac_KubernetesOptions = None\<rparr>"

theorem reload_empties_scheme_witness:
  "\<exists>a s2. NewAPIServer sample_kube (snd (NewAPIServer sample_kube sample_api_options)) = (Inr a, s2) \<and>
     snd (ro_Function (AddToContainer (sample_api\<lparr>ae_operator := NewHandler (as_RuntimeCache a) (as_RuntimeClient a)\<rparr>) ! 7)
       sample_api_request [sample_workload ''edge'']) = [sample_workload ''edge'']"
proof -
  let ?s1 = "snd (NewAPIServer sample_kube sample_api_options)"
  obtain a s2 where a: "NewAPIServer sample_kube (?s1\<lparr>ao_Config := ao_Config ?s1\<rparr>) = (Inr a, s2)"
    by (simp add: NewAPIServer_def sample_kube_def sample_api_options_def ApiOptions_New_def Generic_New_def api_listener_def wrapf_def)
  let ?E = "sample_api\<lparr>ae_operator := NewHandler (as_RuntimeCache a) (as_RuntimeClient a)\<rparr>"
  let ?r = "AddToContainer ?E ! 7"
  have "?r \<in> set (AddToContainer ?E)" by (rule nth_mem) (simp add: AddToContainer_def Let_def)
  from reload_empties_scheme [OF sample_scheme_ok prod.collapse [symmetric] a _ this prod.collapse [symmetric],
      of sample_api_request "[sample_workload ''edge'']"]
  have "snd (ro_Function ?r sample_api_request [sample_workload ''edge'']) = [sample_workload ''edge'']" by simp
  moreover have "?s1\<lparr>ao_Config := ao_Config ?s1\<rparr> = ?s1" by simp
  ultimately show ?thesis using a by auto
qed

end
