(* ===== verification/Webhook_Server.thy ===== *)
theory Webhook_Server
  imports Webhook Query
begin

text \<open>
  \<open>internal/controller/cert.go\<close> and \<open>NewWebHookServer\<close>: the webhook server makes its own certificate authority and
  certificate at every start, registers itself with the API server, and serves the injection paths. The packages
  \<open>crypto\<close>, \<open>tls\<close> and the client constructors are arguments; \<open>x509_ok\<close> is what the code relies on of signing.
\<close>

section \<open>Certificates\<close>

record x509_Certificate =
  xc_SerialNumber :: nat
  xc_Organization :: "string list"
  xc_CommonName :: string
  xc_DNSNames :: "string list"
  xc_NotBefore :: int
  xc_NotAfter :: int
  xc_IsCA :: bool
  xc_CertSign :: bool
  xc_BasicConstraintsValid :: bool

text \<open>
  Keys are a type \<open>'k\<close>. \<open>cy_GenerateKey\<close> takes the number of the call; \<open>cy_CreateCertificate\<close> the template, the
  parent, the key certified and the signing key; \<open>cy_AddYears\<close> is \<open>AddDate\<close>.
\<close>

record 'k crypto_pkg =
  cy_GenerateKey :: "nat \<Rightarrow> 'k go_result"
  cy_CreateCertificate :: "x509_Certificate \<Rightarrow> x509_Certificate \<Rightarrow> 'k \<Rightarrow> 'k \<Rightarrow> string go_result"
  cy_PemEncode :: "string \<Rightarrow> string \<Rightarrow> string"
  cy_MarshalKey :: "'k \<Rightarrow> string"
  cy_AddYears :: "int \<Rightarrow> nat \<Rightarrow> int"

definition ca_template :: "'k crypto_pkg \<Rightarrow> int \<Rightarrow> string list \<Rightarrow> x509_Certificate" where
  "ca_template C now orgs =
     \<lparr>xc_SerialNumber = 2022, xc_Organization = orgs, xc_CommonName = [], xc_DNSNames = [], xc_NotBefore = now,
      xc_NotAfter = cy_AddYears C now 10, xc_IsCA = True, xc_CertSign = True, xc_BasicConstraintsValid = True\<rparr>"

definition cert_template :: "'k crypto_pkg \<Rightarrow> int \<Rightarrow> string list \<Rightarrow> string list \<Rightarrow> string \<Rightarrow> x509_Certificate" where
  "cert_template C now orgs dnsNames commonName =
     \<lparr>xc_SerialNumber = 1024, xc_Organization = orgs, xc_CommonName = commonName, xc_DNSNames = dnsNames, xc_NotBefore = now,
      xc_NotAfter = cy_AddYears C now 10, xc_IsCA = False, xc_CertSign = False, xc_BasicConstraintsValid = False\<rparr>"

definition GenerateCert ::
  "'k crypto_pkg \<Rightarrow> int \<Rightarrow> string list \<Rightarrow> string list \<Rightarrow> string \<Rightarrow> (string \<times> string \<times> string) go_result" where
  "GenerateCert C now orgs dnsNames commonName =
     (let ca = ca_template C now orgs; newCert = cert_template C now orgs dnsNames commonName
      in case cy_GenerateKey C 0 of
           Inl err \<Rightarrow> Inl err
         | Inr caPrivateKey \<Rightarrow>
             (case cy_CreateCertificate C ca ca caPrivateKey caPrivateKey of
                Inl err \<Rightarrow> Inl err
              | Inr caBytes \<Rightarrow>
                  (case cy_GenerateKey C 1 of
                     Inl err \<Rightarrow> Inl err
                   | Inr newPrivateKey \<Rightarrow>
                       (case cy_CreateCertificate C newCert ca newPrivateKey caPrivateKey of
                          Inl err \<Rightarrow> Inl err
                        | Inr newCertBytes \<Rightarrow>
                            Inr (cy_PemEncode C ''CERTIFICATE'' caBytes, cy_PemEncode C ''CERTIFICATE'' newCertBytes,
                                 cy_PemEncode C ''RSA PRIVATE KEY'' (cy_MarshalKey C newPrivateKey))))))"

section \<open>The server\<close>

definition dnsNames_of :: "string \<Rightarrow> string \<Rightarrow> string list" where
  "dnsNames_of name namespace =
     [name, name @ ''.'' @ namespace, name @ ''.'' @ namespace @ ''.svc'', name @ ''.'' @ namespace @ ''.svc.cluster'',
      name @ ''.'' @ namespace @ ''.svc.cluster.local'']"

datatype route = InjectProxy | InjectBroker | Ready

record RunningWebhook =
  rw_Server :: WebhookServer
  rw_Addr :: string
  rw_Certificate :: string
  rw_Key :: string
  rw_Routes :: "string \<rightharpoonup> route"

definition webhook_routes :: "string \<rightharpoonup> route" where
  "webhook_routes = [''/proxy'' \<mapsto> InjectProxy, ''/broker'' \<mapsto> InjectBroker, ''/healthz'' \<mapsto> Ready, ''/readyz'' \<mapsto> Ready]"

text \<open>\<open>keyPair\<close> is \<open>tls.X509KeyPair\<close>; \<open>clients\<close> the error of building the client configuration and the two client sets.\<close>

definition NewWebHookServer ::
  "'k crypto_pkg \<Rightarrow> (string \<Rightarrow> string \<Rightarrow> go_error option) \<Rightarrow> (string \<Rightarrow> go_error option) \<Rightarrow> 'w webhook_api \<Rightarrow> int \<Rightarrow> string \<Rightarrow> string
   \<Rightarrow> int32 \<Rightarrow> SidecarConfig option \<Rightarrow> SidecarConfig option \<Rightarrow> string \<Rightarrow> 'w \<Rightarrow> RunningWebhook go_result \<times> 'w" where
  "NewWebHookServer C keyPair clients A now name namespace port proxyConf brokerConf kubeconfig w =
     (let commonName = name @ ''.'' @ namespace @ ''.'' @ ''svc''
      in case GenerateCert C now [''edgewize''] (dnsNames_of name namespace) commonName of
           Inl err \<Rightarrow> (Inl err, w)
         | Inr (caPEM, certPEM, certKeyPEM) \<Rightarrow>
             (case keyPair certPEM certKeyPEM of
                Some err \<Rightarrow> (Inl err, w)
              | None \<Rightarrow>
                  (case clients kubeconfig of
                     Some err \<Rightarrow> (Inl err, w)
                   | None \<Rightarrow>
                       (case CreateOrUpdateMutatingWebhookConfiguration A caPEM name namespace port w of
                          (Some err, w') \<Rightarrow> (Inl err, w')
                        | (None, w') \<Rightarrow>
                            (Inr \<lparr>rw_Server = \<lparr>ws_ProxySidecar = proxyConf, ws_BrokerSidecar = brokerConf, ws_CurrentNamespace = namespace\<rparr>,
                                  rw_Addr = ''0.0.0.0:'' @ show_int (sint port), rw_Certificate = certPEM, rw_Key = certKeyPEM,
                                  rw_Routes = webhook_routes\<rparr>, w')))))"

section \<open>The registration is current\<close>

text \<open>
  \<open>verifies ca cert host\<close> is the check a TLS client makes of a certificate against a bundle and a host name. Of
  \<open>crypto/x509\<close>: a certificate made from a template with a validity period and the host among its DNS names,
  signed with the key of a certificate authority made from the parent template, is accepted. Of the API
  server: a configuration that was created or updated is read back.
\<close>

definition x509_ok :: "'k crypto_pkg \<Rightarrow> (string \<Rightarrow> string \<Rightarrow> string \<Rightarrow> bool) \<Rightarrow> bool" where
  "x509_ok C verifies \<longleftrightarrow>
     (\<forall>ca crt caKey key caBytes certBytes host.
        cy_CreateCertificate C ca ca caKey caKey = Inr caBytes \<and> cy_CreateCertificate C crt ca key caKey = Inr certBytes \<and>
        xc_IsCA ca \<and> xc_CertSign ca \<and> xc_BasicConstraintsValid ca \<and> host \<in> set (xc_DNSNames crt) \<longrightarrow>
        verifies (cy_PemEncode C ''CERTIFICATE'' caBytes) (cy_PemEncode C ''CERTIFICATE'' certBytes) host)"

definition webhook_api_ok :: "'w webhook_api \<Rightarrow> bool" where
  "webhook_api_ok A \<longleftrightarrow>
     (\<forall>w cfg w'. wa_create A w cfg = (None, w') \<longrightarrow> (\<exists>v. wa_get A w' = Inr (v, cfg))) \<and>
     (\<forall>w v cfg w'. wa_update A w v cfg = (None, w') \<longrightarrow> (\<exists>v'. wa_get A w' = Inr (v', cfg)))"

lemma webhook_same_refl: "list_all2 webhook_same cfg cfg"
  by (simp add: list_all2_same webhook_same_def)

lemma registered:
  assumes "webhook_api_ok A" and "CreateOrUpdateMutatingWebhookConfiguration A ca name ns port w = (None, w')"
  shows "\<exists>v found. wa_get A w' = Inr (v, found) \<and> list_all2 webhook_same found (mutatingWebhooks ca name ns port)"
proof (cases "wa_get A w")
  case (Inl err)
  with assms(2) have "wa_create A w (mutatingWebhooks ca name ns port) = (None, w')"
    by (simp add: CreateOrUpdateMutatingWebhookConfiguration_def split: if_splits)
  with assms(1) show ?thesis unfolding webhook_api_ok_def by (blast intro: webhook_same_refl)
next
  case (Inr x)
  obtain v found where x: "x = (v, found)" by fastforce
  show ?thesis
  proof (cases "CheckWebhookUpdated found (mutatingWebhooks ca name ns port)")
    case True
    with assms Inr x have "wa_update A w v (mutatingWebhooks ca name ns port) = (None, w')"
      by (simp add: CreateOrUpdateMutatingWebhookConfiguration_def)
    with assms(1) show ?thesis unfolding webhook_api_ok_def by (blast intro: webhook_same_refl)
  next
    case False
    with assms Inr x show ?thesis
      by (simp add: CreateOrUpdateMutatingWebhookConfiguration_def CheckWebhookUpdated_def split: if_splits)
  qed
qed

lemma GenerateCert_verifies:
  assumes "x509_ok C verifies" and "GenerateCert C now orgs dns cn = Inr (caPEM, certPEM, keyPEM)" and "host \<in> set dns"
  shows "verifies caPEM certPEM host"
proof -
  obtain caKey key caBytes certBytes where
    "cy_CreateCertificate C (ca_template C now orgs) (ca_template C now orgs) caKey caKey = Inr caBytes"
    "cy_CreateCertificate C (cert_template C now orgs dns cn) (ca_template C now orgs) key caKey = Inr certBytes"
    "caPEM = cy_PemEncode C ''CERTIFICATE'' caBytes" "certPEM = cy_PemEncode C ''CERTIFICATE'' certBytes"
    using assms(2) by (auto simp: GenerateCert_def Let_def split: sum.splits)
  then show ?thesis
    using assms(1,3) unfolding x509_ok_def
    by (metis (no_types, lifting) ca_template_def cert_template_def x509_Certificate.select_convs(4,7,8,9))
qed


section \<open>A sample start\<close>

definition sample_crypto :: "nat crypto_pkg" where
  "sample_crypto =
     \<lparr>cy_GenerateKey = Inr, cy_CreateCertificate = (\<lambda>t parent key signer. Inr (show_nat signer @ '':'' @ Join (xc_DNSNames t) '','')),
      cy_PemEncode = (\<lambda>_ b. b), cy_MarshalKey = show_nat, cy_AddYears = (\<lambda>t n. t + int n)\<rparr>"

definition sample_webhook_api :: "MutatingWebhook list option webhook_api" where
  "sample_webhook_api =
     \<lparr>wa_get = (\<lambda>w. case w of None \<Rightarrow> Inl (NotFound ''x'') | Some c \<Rightarrow> Inr (0, c)), wa_create = (\<lambda>w c. (None, Some c)),
      wa_update = (\<lambda>w v c. (None, Some c))\<rparr>"

text \<open>In the sample, a bundle and a certificate begin with the key that signed them.\<close>

definition sample_verifies :: "string \<Rightarrow> string \<Rightarrow> string \<Rightarrow> bool" where
  "sample_verifies ca crt host \<longleftrightarrow> takeWhile (\<lambda>c. c \<noteq> CHR '':'') ca = takeWhile (\<lambda>c. c \<noteq> CHR '':'') crt"

lemma sample_crypto_ok: "x509_ok sample_crypto sample_verifies"
proof -
  have d: "CHR '':'' \<notin> set (show_nat n)" for n
    using show_nat_parse [of n] by (auto simp: list_all_iff is_digit_def)
  have "takeWhile (\<lambda>c. c \<noteq> CHR '':'') (show_nat n @ CHR '':'' # xs) = show_nat n" for n xs
    using d [of n] by (subst takeWhile_append2) auto
  then show ?thesis by (auto simp: x509_ok_def sample_crypto_def sample_verifies_def)
qed


end
