(* ===== verification/Controller_Run.thy ===== *)
theory Controller_Run
  imports Options Webhook_Server
begin

text \<open>
  \<open>cmd/controller/app/server.go\<close> and \<open>NewKubernetesClient\<close> of \<open>pkg/simple/client/k8s\<close>: the controller process. \<open>Run\<close> is an error group
  of a signal watcher, the webhook server and the manager of the three controllers. The first of them to end with an
  error cancels the context, which the others watch; a failure of the manager itself ends the process
  (\<open>klog.Fatalf\<close>).

  Of controller-runtime the model uses that \<open>Start\<close> of a manager returns nil after the end of its context and
  otherwise only with an error, of net/http that \<open>ListenAndServeTLS\<close> returns \<open>ErrServerClosed\<close> after
  \<open>Shutdown\<close>.
\<close>

section \<open>Starting\<close>

record ('c, 'mgr) manager_env =
  me_BuildConfig :: "string \<Rightarrow> string \<Rightarrow> 'c go_result"
  me_SetLimits :: "int \<Rightarrow> int \<Rightarrow> 'c \<Rightarrow> 'c"
  me_NewForConfig :: "'c \<Rightarrow> go_error option"

text \<open>\<open>NewKubernetesClient\<close>: the client's configuration and master.\<close>

definition NewKubernetesClient :: "('c, 'mgr) manager_env \<Rightarrow> KubernetesOptions \<Rightarrow> ('c \<times> string) go_result" where
  "NewKubernetesClient P k =
     (case me_BuildConfig P (ko_Master k) (ko_KubeConfig k) of
        Inl err \<Rightarrow> Inl err
      | Inr config \<Rightarrow>
          (let config = me_SetLimits P (ko_QPS k) (ko_Burst k) config
           in case me_NewForConfig P config of Some err \<Rightarrow> Inl err | None \<Rightarrow> Inr (config, ko_Master k)))"

record LeaderElection =
  le_ID :: string
  le_LeaseDuration :: duration
  le_RetryPeriod :: duration
  le_RenewDeadline :: duration

record ManagerOptions =
  mo_HealthProbeBindAddress :: string
  mo_MetricsBindAddress :: string
  mo_LeaderElection :: "LeaderElection option"

definition manager_options :: "ControllerOptions \<Rightarrow> ManagerOptions" where
  "manager_options s =
     \<lparr>mo_HealthProbeBindAddress = co_HealthProbeBindAddress s, mo_MetricsBindAddress = co_MetricsBindAddress s,
      mo_LeaderElection =
        (if co_LeaderElect s
         then Some \<lparr>le_ID = ''edge-qos-controller-manager-leader-election'', le_LeaseDuration = co_LeaseDuration s,
                    le_RetryPeriod = co_RetryPeriod s, le_RenewDeadline = co_RenewDeadline s\<rparr>
         else None)\<rparr>"

text \<open>
  The part of \<open>startControllerManager\<close> before the manager runs: an error to return, the end of the process, or a
  manager. \<open>newManager\<close> is \<open>manager.New\<close>, \<open>setups\<close> the results of the controllers' \<open>SetupWithManager\<close> on it.
\<close>

datatype 'm start = StartErr go_error | StartFatal string | Started 'm

definition startControllerManager ::
  "('c, 'mgr) manager_env \<Rightarrow> ('c \<Rightarrow> ManagerOptions \<Rightarrow> 'mgr go_result) \<Rightarrow> ('mgr \<Rightarrow> go_error option list) \<Rightarrow> ControllerOptions \<Rightarrow> 'mgr start" where
  "startControllerManager P newManager setups s =
     (case cc_KubernetesOptions (co_Config s) of
        None \<Rightarrow> StartFatal ''invalid memory address or nil pointer dereference''
      | Some k \<Rightarrow>
          (case NewKubernetesClient P k of
             Inl err \<Rightarrow> StartErr err
           | Inr (config, master) \<Rightarrow>
               (case newManager config (manager_options s) of
                  Inl err \<Rightarrow> StartFatal ''unable to set up overall controller manager''
                | Inr mgr \<Rightarrow>
                    (case addControllers (setups mgr) of
                       Some err \<Rightarrow> StartFatal ''unable to add controllers''
                     | None \<Rightarrow> Started mgr))))"

text \<open>
  The part of \<open>startWebhookServer\<close> before it serves. The port of the configuration is converted to 32 bits; a nil pointer to the
  Kubernetes options is a panic, which ends the process.
\<close>

definition startWebhookServer ::
  "string go_result \<Rightarrow> (string \<Rightarrow> string \<Rightarrow> int32 \<Rightarrow> SidecarConfig option \<Rightarrow> SidecarConfig option \<Rightarrow> string \<Rightarrow> 'w \<Rightarrow> RunningWebhook go_result \<times> 'w)
   \<Rightarrow> ControllerOptions \<Rightarrow> 'w \<Rightarrow> RunningWebhook start \<times> 'w" where
  "startWebhookServer currentNamespace newServer s w =
     (case currentNamespace of
        Inl err \<Rightarrow> (StartErr err, w)
      | Inr namespace \<Rightarrow>
          (case cc_KubernetesOptions (co_Config s) of
             None \<Rightarrow> (StartFatal ''invalid memory address or nil pointer dereference'', w)
           | Some k \<Rightarrow>
               (case newServer (cc_WebhookServiceName (co_Config s)) namespace (word_of_int (cc_WebhookPort (co_Config s)))
                       (cc_ProxySidecar (co_Config s)) (cc_BrokerSidecar (co_Config s)) (ko_KubeConfig k) w of
                  (Inl err, w') \<Rightarrow> (StartErr err, w')
                | (Inr ws, w') \<Rightarrow> (Started ws, w'))))"

section \<open>Running\<close>

datatype ctl_member = CtlSignal | CtlWebhook | CtlManager

text \<open>The goroutine beside the webhook server waits for the context and shuts the server down.\<close>

datatype wh_phase = WhStarting | WhServing | WhShutdown

record ctl_state =
  ct_signal :: "string option"
  ct_cancelled :: "string option"
  ct_ctxDone :: bool
  ct_running :: "ctl_member list"
  ct_err :: "go_error option"
  ct_webhook :: wh_phase
  ct_manager :: bool
  ct_fatal :: "string option"

definition Controller_init :: ctl_state where
  "Controller_init = \<lparr>ct_signal = None, ct_cancelled = None, ct_ctxDone = False, ct_running = [CtlSignal, CtlWebhook, CtlManager],
     ct_err = None, ct_webhook = WhStarting, ct_manager = False, ct_fatal = None\<rparr>"

text \<open>A goroutine of the group returns: the first error is kept and cancels the context.\<close>

definition ctl_end :: "ctl_member \<Rightarrow> go_error option \<Rightarrow> ctl_state \<Rightarrow> ctl_state" where
  "ctl_end m r s =
     s\<lparr>ct_running := remove1 m (ct_running s), ct_err := (case ct_err s of None \<Rightarrow> r | Some e \<Rightarrow> Some e),
       ct_ctxDone := (ct_ctxDone s \<or> r \<noteq> None)\<rparr>"

text \<open>
  \<open>wh\<close> and \<open>mg\<close> are what the starts of webhook and manager give, \<open>fails\<close> says which of the two may end with an error
  of its own while it serves. No step follows the end of the process.
\<close>

inductive ctl_step :: "'a start \<Rightarrow> 'm start \<Rightarrow> (ctl_member \<Rightarrow> bool) \<Rightarrow> ctl_state \<Rightarrow> ctl_state \<Rightarrow> bool" for wh mg fails where
  signal: "ct_fatal s = None \<Longrightarrow> ct_signal s = None \<Longrightarrow> ctl_step wh mg fails s (s\<lparr>ct_signal := Some sig\<rparr>)"
| sig_cancel: "ct_fatal s = None \<Longrightarrow> CtlSignal \<in> set (ct_running s) \<Longrightarrow> ct_cancelled s = None \<Longrightarrow> ct_signal s = Some sig \<Longrightarrow>
    ctl_step wh mg fails s (s\<lparr>ct_signal := None, ct_cancelled := Some sig, ct_ctxDone := True\<rparr>)"
| sig_return: "ct_fatal s = None \<Longrightarrow> CtlSignal \<in> set (ct_running s) \<Longrightarrow> ct_cancelled s = Some sig \<Longrightarrow>
    ctl_step wh mg fails s (ctl_end CtlSignal (Some (Errorf (''received signal '' @ sig))) s)"
| sig_ctx: "ct_fatal s = None \<Longrightarrow> CtlSignal \<in> set (ct_running s) \<Longrightarrow> ct_cancelled s = None \<Longrightarrow> ct_ctxDone s \<Longrightarrow>
    ctl_step wh mg fails s (ctl_end CtlSignal (Some Canceled) s)"
| wh_error: "ct_fatal s = None \<Longrightarrow> CtlWebhook \<in> set (ct_running s) \<Longrightarrow> ct_webhook s = WhStarting \<Longrightarrow> wh = StartErr err \<Longrightarrow>
    ctl_step wh mg fails s (ctl_end CtlWebhook (Some err) s)"
| wh_fatal: "ct_fatal s = None \<Longrightarrow> CtlWebhook \<in> set (ct_running s) \<Longrightarrow> ct_webhook s = WhStarting \<Longrightarrow> wh = StartFatal m \<Longrightarrow>
    ctl_step wh mg fails s (s\<lparr>ct_fatal := Some m\<rparr>)"
| wh_serve: "ct_fatal s = None \<Longrightarrow> CtlWebhook \<in> set (ct_running s) \<Longrightarrow> ct_webhook s = WhStarting \<Longrightarrow> wh = Started ws \<Longrightarrow>
    ctl_step wh mg fails s (s\<lparr>ct_webhook := WhServing\<rparr>)"
| wh_stop: "ct_fatal s = None \<Longrightarrow> ct_webhook s = WhServing \<Longrightarrow> ct_ctxDone s \<Longrightarrow> ctl_step wh mg fails s (s\<lparr>ct_webhook := WhShutdown\<rparr>)"
| wh_closed: "ct_fatal s = None \<Longrightarrow> CtlWebhook \<in> set (ct_running s) \<Longrightarrow> ct_webhook s = WhShutdown \<Longrightarrow>
    ctl_step wh mg fails s (ctl_end CtlWebhook (Some ErrServerClosed) s)"
| wh_fails: "ct_fatal s = None \<Longrightarrow> CtlWebhook \<in> set (ct_running s) \<Longrightarrow> ct_webhook s = WhServing \<Longrightarrow> fails CtlWebhook \<Longrightarrow>
    ctl_step wh mg fails s (ctl_end CtlWebhook (Some err) s)"
| mg_error: "ct_fatal s = None \<Longrightarrow> CtlManager \<in> set (ct_running s) \<Longrightarrow> \<not> ct_manager s \<Longrightarrow> mg = StartErr err \<Longrightarrow>
    ctl_step wh mg fails s (ctl_end CtlManager (Some err) s)"
| mg_fatal: "ct_fatal s = None \<Longrightarrow> CtlManager \<in> set (ct_running s) \<Longrightarrow> \<not> ct_manager s \<Longrightarrow> mg = StartFatal m \<Longrightarrow>
    ctl_step wh mg fails s (s\<lparr>ct_fatal := Some m\<rparr>)"
| mg_start: "ct_fatal s = None \<Longrightarrow> CtlManager \<in> set (ct_running s) \<Longrightarrow> \<not> ct_manager s \<Longrightarrow> mg = Started x \<Longrightarrow>
    ctl_step wh mg fails s (s\<lparr>ct_manager := True\<rparr>)"
| mg_done: "ct_fatal s = None \<Longrightarrow> CtlManager \<in> set (ct_running s) \<Longrightarrow> ct_manager s \<Longrightarrow> ct_ctxDone s \<Longrightarrow>
    ctl_step wh mg fails s (ctl_end CtlManager None s)"
| mg_fails: "ct_fatal s = None \<Longrightarrow> CtlManager \<in> set (ct_running s) \<Longrightarrow> ct_manager s \<Longrightarrow> fails CtlManager \<Longrightarrow>
    ctl_step wh mg fails s (s\<lparr>ct_fatal := Some ''unable to run the manager''\<rparr>)"

inductive ctl_reach :: "'a start \<Rightarrow> 'm start \<Rightarrow> (ctl_member \<Rightarrow> bool) \<Rightarrow> ctl_state \<Rightarrow> ctl_state \<Rightarrow> bool" for wh mg fails s0 where
  init: "ctl_reach wh mg fails s0 s0"
| step: "ctl_reach wh mg fails s0 s \<Longrightarrow> ctl_step wh mg fails s s' \<Longrightarrow> ctl_reach wh mg fails s0 s'"

interpretation ctls: step_system "ctl_step wh mg fails" "ctl_reach wh mg fails" for wh :: "'a start" and mg :: "'m start" and fails
proof unfold_locales
  show "P b" if "ctl_reach wh mg fails a b" "P a" "\<And>x y. P x \<Longrightarrow> ctl_step wh mg fails x y \<Longrightarrow> P y" for a b P
    using that by (induction rule: ctl_reach.induct) auto
qed (auto intro: ctl_reach.intros)

inductive_cases ctl_step_E: "ctl_step wh mg fails s s'"

definition Controller_returns :: "ctl_state \<Rightarrow> go_error option option" where
  "Controller_returns s = (if ct_fatal s = None \<and> ct_running s = [] then Some (ct_err s) else None)"

section \<open>Every run ends\<close>

text \<open>What can still happen: the pending signal, the cancellation, the phases, and the goroutines of the group.\<close>

definition ctl_left :: "ctl_state \<Rightarrow> nat" where
  "ctl_left s = (if ct_fatal s = None then 1 else 0) + (if ct_signal s = None then 1 else 0) + (if ct_cancelled s = None then 2 else 0) +
     length (ct_running s) + (case ct_webhook s of WhStarting \<Rightarrow> 2 | WhServing \<Rightarrow> 1 | WhShutdown \<Rightarrow> 0) + (if ct_manager s then 0 else 1)"

lemma ctl_left_end: "m \<in> set (ct_running s) \<Longrightarrow> ctl_left (ctl_end m r s) < ctl_left s"
  using length_pos_if_in_set [of m "ct_running s"] by (simp add: ctl_left_def ctl_end_def length_remove1)

lemma ctl_left_step: "ctl_step wh mg fails s s' \<Longrightarrow> ctl_left s' < ctl_left s"
  by (erule ctl_step_E) (simp_all add: ctl_left_end, simp_all add: ctl_left_def)

definition ctl_inv :: "ctl_state \<Rightarrow> bool" where
  "ctl_inv s \<longleftrightarrow> (CtlSignal \<in> set (ct_running s) \<or> ct_err s \<noteq> None) \<and> (ct_err s = None \<or> ct_ctxDone s)"

lemma ctl_inv_end: "ctl_inv s \<Longrightarrow> m \<noteq> CtlSignal \<or> r \<noteq> None \<Longrightarrow> ctl_inv (ctl_end m r s)"
  by (auto simp: ctl_inv_def ctl_end_def in_set_remove1 split: option.splits)

lemma ctl_inv_step: "ctl_step wh mg fails s s' \<Longrightarrow> ctl_inv s \<Longrightarrow> ctl_inv s'"
  by (erule ctl_step_E) (simp_all add: ctl_inv_end, auto simp: ctl_inv_def)

lemma ctl_inv_init: "ctl_inv Controller_init"
  by (simp add: ctl_inv_def Controller_init_def)

lemma ctl_inv_reach: "ctl_reach wh mg fails Controller_init s \<Longrightarrow> ctl_inv s"
  by (rule ctls.reach_invariant [where I = ctl_inv]) (auto intro: ctl_inv_step ctl_inv_init)

lemma signal_progress:
  "ct_fatal s = None \<Longrightarrow> CtlSignal \<in> set (ct_running s) \<Longrightarrow> \<exists>s'. ctl_step wh mg fails s s'"
  by (cases "ct_cancelled s"; cases "ct_signal s") (blast intro: ctl_step.intros)+

lemma member_progress:
  assumes "ct_fatal s = None" "ct_ctxDone s"
  shows "CtlWebhook \<in> set (ct_running s) \<Longrightarrow> \<exists>s'. ctl_step wh mg fails s s'"
    and "CtlManager \<in> set (ct_running s) \<Longrightarrow> \<exists>s'. ctl_step wh mg fails s s'"
proof -
  show "\<exists>s'. ctl_step wh mg fails s s'" if "CtlWebhook \<in> set (ct_running s)"
    using assms that by (cases "ct_webhook s"; cases wh) (blast intro: ctl_step.intros)+
  show "\<exists>s'. ctl_step wh mg fails s s'" if "CtlManager \<in> set (ct_running s)"
    using assms that by (cases "ct_manager s"; cases mg) (blast intro: ctl_step.intros)+
qed


text \<open>A webhook that cannot start ends the controllers too: its error is that of \<open>Run\<close>.\<close>

definition webhook_down :: ctl_state where
  "webhook_down =
     (let s1 = ctl_end CtlWebhook (Some (OtherErr ''no namespace'')) Controller_init;
          s2 = ctl_end CtlSignal (Some Canceled) s1;
          s3 = ctl_end CtlManager None (s2\<lparr>ct_manager := True\<rparr>)
      in s3\<lparr>ct_signal := Some ''terminated''\<rparr>)"

lemma webhook_down_reach:
  "ctl_reach (StartErr (OtherErr ''no namespace'') :: unit start) (Started ()) (\<lambda>_. False) Controller_init webhook_down"
proof -
  let ?step = "ctl_step (StartErr (OtherErr ''no namespace'') :: unit start) (Started ()) (\<lambda>_. False)"
  let ?s1 = "ctl_end CtlWebhook (Some (OtherErr ''no namespace'')) Controller_init"
  let ?s2 = "ctl_end CtlSignal (Some Canceled) ?s1"
  let ?s3 = "?s2\<lparr>ct_manager := True\<rparr>"
  have "?step Controller_init ?s1" by (rule ctl_step.wh_error) (simp_all add: Controller_init_def)
  note r1 = ctl_reach.step [OF ctl_reach.init this]
  have "?step ?s1 ?s2" by (rule ctl_step.sig_ctx) (simp_all add: Controller_init_def ctl_end_def)
  note r2 = ctl_reach.step [OF r1 this]
  have "?step ?s2 ?s3" by (rule ctl_step.mg_start) (simp_all add: Controller_init_def ctl_end_def)
  note r3 = ctl_reach.step [OF r2 this]
  have "?step ?s3 (ctl_end CtlManager None ?s3)" by (rule ctl_step.mg_done) (simp_all add: Controller_init_def ctl_end_def)
  note r4 = ctl_reach.step [OF r3 this]
  have "?step (ctl_end CtlManager None ?s3) webhook_down"
    unfolding webhook_down_def Let_def by (rule ctl_step.signal) (simp_all add: Controller_init_def ctl_end_def)
  then show ?thesis by (rule ctl_reach.step [OF r4])
qed


end
