(* ===== verification/Monitor.thy ===== *)
theory Monitor
  imports Broker
begin

text \<open>
  \<open>internal/broker/metrics/metrics.go\<close>: the counters and histograms the broker registers. A vector maps the values of its
  labels (pod, container, method, service group) to a count; a histogram counts its observations, their values
  are not kept. The calls the broker makes are its log \<open>d_metrics\<close>; here they are given their meaning, and the
  numbers an operator sees are related to the requests.
\<close>

section \<open>Vectors\<close>

type_synonym vec = "string list \<Rightarrow> nat"

record counters =
  cv_BrokerReceivedRequestTotal :: vec
  cv_BackendHandledRequestTotal :: vec
  cv_BrokerProcessingDuration :: vec
  cv_BackendProcessingDuration :: vec

definition registered_counters :: counters where
  "registered_counters = \<lparr>cv_BrokerReceivedRequestTotal = (\<lambda>_. 0), cv_BackendHandledRequestTotal = (\<lambda>_. 0),
     cv_BrokerProcessingDuration = (\<lambda>_. 0), cv_BackendProcessingDuration = (\<lambda>_. 0)\<rparr>"

definition vec_inc :: "string list \<Rightarrow> vec \<Rightarrow> vec" where
  "vec_inc labels v = v(labels := v labels + 1)"

text \<open>\<open>ident\<close> is the pair of pod and container name.\<close>

definition label_values :: "string \<times> string \<Rightarrow> string \<Rightarrow> string \<Rightarrow> string list" where
  "label_values ident method serviceGroup = [fst ident, snd ident, method, serviceGroup]"

definition BrokerReceivedRequestTotalRecord :: "string \<times> string \<Rightarrow> string \<Rightarrow> string \<Rightarrow> counters \<Rightarrow> counters" where
  "BrokerReceivedRequestTotalRecord ident method serviceGroup c =
     c\<lparr>cv_BrokerReceivedRequestTotal := vec_inc (label_values ident method serviceGroup) (cv_BrokerReceivedRequestTotal c)\<rparr>"

definition BackendHandledRequestTotalRecord :: "string \<times> string \<Rightarrow> string \<Rightarrow> string \<Rightarrow> counters \<Rightarrow> counters" where
  "BackendHandledRequestTotalRecord ident method serviceGroup c =
     c\<lparr>cv_BackendHandledRequestTotal := vec_inc (label_values ident method serviceGroup) (cv_BackendHandledRequestTotal c)\<rparr>"

definition BrokerProcessingDurationRecord :: "string \<times> string \<Rightarrow> string \<Rightarrow> string \<Rightarrow> counters \<Rightarrow> counters" where
  "BrokerProcessingDurationRecord ident method serviceGroup c =
     c\<lparr>cv_BrokerProcessingDuration := vec_inc (label_values ident method serviceGroup) (cv_BrokerProcessingDuration c)\<rparr>"

definition BackendReceivedRequestTotalRecord :: "string \<times> string \<Rightarrow> string \<Rightarrow> string \<Rightarrow> counters \<Rightarrow> counters" where
  "BackendReceivedRequestTotalRecord ident method serviceGroup c =
     c\<lparr>cv_BackendProcessingDuration := vec_inc (label_values ident method serviceGroup) (cv_BackendProcessingDuration c)\<rparr>"

fun record_call :: "string \<times> string \<Rightarrow> counters \<Rightarrow> metric_call \<Rightarrow> counters" where
  "record_call ident c (BrokerReceivedRequestTotal m g) = BrokerReceivedRequestTotalRecord ident m g c"
| "record_call ident c (BrokerProcessingDuration m g) = BrokerProcessingDurationRecord ident m g c"
| "record_call ident c (BackendHandledRequestTotal m g) = BackendHandledRequestTotalRecord ident m g c"
| "record_call ident c (BackendReceivedRequestTotal m g) = BackendReceivedRequestTotalRecord ident m g c"

definition scraped :: "string \<times> string \<Rightarrow> metric_call list \<Rightarrow> counters" where
  "scraped ident calls = foldl (record_call ident) registered_counters calls"

definition vec_total :: "vec \<Rightarrow> nat" where
  "vec_total v = (\<Sum>l | 0 < v l. v l)"

section \<open>From the log to the vectors\<close>

lemmas record_defs = BrokerReceivedRequestTotalRecord_def BackendHandledRequestTotalRecord_def
  BrokerProcessingDurationRecord_def BackendReceivedRequestTotalRecord_def

fun is_received :: "metric_call \<Rightarrow> bool" where
  "is_received (BrokerReceivedRequestTotal m g) = True" | "is_received _ = False"

fun is_processing :: "metric_call \<Rightarrow> bool" where
  "is_processing (BrokerProcessingDuration m g) = True" | "is_processing _ = False"

fun is_handled :: "metric_call \<Rightarrow> bool" where
  "is_handled (BackendHandledRequestTotal m g) = True" | "is_handled _ = False"

lemma vec_total_inc:
  assumes "finite {l. 0 < v l}"
  shows "vec_total (vec_inc k v) = Suc (vec_total v)" and "finite {l. 0 < vec_inc k v l}"
proof -
  let ?S = "insert k {l. 0 < v l}"
  have s: "{l. 0 < vec_inc k v l} = ?S" by (auto simp: vec_inc_def)
  then show "finite {l. 0 < vec_inc k v l}" using assms by simp
  have "vec_total (vec_inc k v) = (\<Sum>l \<in> ?S. vec_inc k v l)" by (simp add: vec_total_def s)
  also have "\<dots> = vec_inc k v k + (\<Sum>l \<in> ?S - {k}. vec_inc k v l)" using assms by (intro sum.remove) auto
  also have "\<dots> = Suc (v k + (\<Sum>l \<in> ?S - {k}. v l))" by (simp add: vec_inc_def)
  also have "v k + (\<Sum>l \<in> ?S - {k}. v l) = (\<Sum>l \<in> ?S. v l)" using assms by (intro sum.remove [symmetric]) auto
  also have "\<dots> = vec_total v" unfolding vec_total_def using assms by (intro sum.mono_neutral_right) auto
  finally show "vec_total (vec_inc k v) = Suc (vec_total v)" .
qed

lemma scraped_snoc: "scraped ident (calls @ [c]) = record_call ident (scraped ident calls) c"
  by (simp add: scraped_def)

lemma scraped_totals:
  "vec_total (cv_BrokerReceivedRequestTotal (scraped ident calls)) = length (filter is_received calls) \<and>
   vec_total (cv_BrokerProcessingDuration (scraped ident calls)) = length (filter is_processing calls) \<and>
   vec_total (cv_BackendHandledRequestTotal (scraped ident calls)) = length (filter is_handled calls) \<and>
   finite {l. 0 < cv_BrokerReceivedRequestTotal (scraped ident calls) l} \<and>
   finite {l. 0 < cv_BrokerProcessingDuration (scraped ident calls) l} \<and>
   finite {l. 0 < cv_BackendHandledRequestTotal (scraped ident calls) l}"
proof (induction calls rule: rev_induct)
  case Nil
  show ?case by (simp add: scraped_def registered_counters_def vec_total_def)
next
  case (snoc c calls)
  then show ?case by (cases c) (simp_all add: scraped_snoc record_defs vec_total_inc)
qed

lemma scraped_labels:
  "cv_BrokerProcessingDuration (scraped ident calls) (label_values ident m g) =
     length (filter (\<lambda>c. c = BrokerProcessingDuration m g) calls) \<and>
   cv_BrokerReceivedRequestTotal (scraped ident calls) (label_values ident m g) =
     length (filter (\<lambda>c. c = BrokerReceivedRequestTotal m g) calls) \<and>
   cv_BackendHandledRequestTotal (scraped ident calls) (label_values ident m g) =
     length (filter (\<lambda>c. c = BackendHandledRequestTotal m g) calls)"
proof (induction calls rule: rev_induct)
  case Nil
  show ?case by (simp add: scraped_def registered_counters_def)
next
  case (snoc c calls)
  then show ?case by (cases c) (auto simp: scraped_snoc record_defs vec_inc_def label_values_def)
qed

section \<open>The log of a run\<close>

text \<open>
  What the log says of the three lists a run of the broker leaves: the accepted, the popped and the answered
  requests.
\<close>

definition metric_inv :: "string \<Rightarrow> 'x broker_world \<Rightarrow> bool" where
  "metric_inv method w \<longleftrightarrow>
     (let calls = d_metrics (bw_srv w)
      in d_ScheduleMethod (bw_srv w) = method \<and>
         length (filter is_received calls) = length (bw_accepted w) \<and>
         filter is_processing calls = map (\<lambda>i. BrokerProcessingDuration method (ResourceName i)) (bw_served w) \<and>
         filter is_handled calls =
           filter is_handled (concat (map (handle_metrics method) (take (length (bw_closed w)) (bw_served w)))))"

text \<open>The answered requests are the popped ones, less the one in flight.\<close>

definition flight_inv :: "'x broker_world \<Rightarrow> bool" where
  "flight_inv w \<longleftrightarrow> length (bw_closed w) \<le> length (bw_served w) \<and>
     (bw_pc w = Returned \<or> drop (length (bw_closed w)) (bw_served w) = in_flight (bw_pc w))"

lemma handle_metrics_kinds [simp]:
  "filter is_received (handle_metrics method i) = []" "filter is_processing (handle_metrics method i) = []"
  by (simp_all add: handle_metrics_def split: QueueItem.splits)

lemma top_metrics:
  "ProcessRequests_top mine W ks ctx s = (c, s') \<Longrightarrow> d_ScheduleMethod s' = d_ScheduleMethod s \<and>
     d_metrics s' = d_metrics s @ map (\<lambda>i. BrokerProcessingDuration (d_ScheduleMethod s) (ResourceName i)) (popped c)"
  by (auto simp: ProcessRequests_top_def popped_def Let_def split: if_splits prod.splits sum.splits option.splits)

lemma flight_inv_step:
  assumes "broker_step mine w w'" "flight_inv w" shows "flight_inv w'"
  using assms(1)
proof (cases rule: broker_step.cases)
  case (top W ks c s)
  then show ?thesis using assms(2) top_pc [OF top(5)]
    by (auto simp: flight_inv_def in_flight_def popped_def)
next
  case (select item ch c s)
  then show ?thesis using assms(2)
    by (auto simp: flight_inv_def in_flight_def ProcessRequests_select_def split: select_case.splits if_splits)
next
  case (handle item closed s)
  then have d: "drop (length (bw_closed w)) (bw_served w) = [item]" "length closed = Suc (length (bw_closed w))"
    using assms(2) by (auto simp: flight_inv_def in_flight_def HandleRequest_def close_chan_def split: sum.splits if_splits)
  have "length (bw_served w) = Suc (length (bw_closed w))" using arg_cong [OF d(1), of length] by simp
  then show ?thesis using handle d by (simp add: flight_inv_def in_flight_def)
qed (use assms(2) in \<open>auto simp: flight_inv_def in_flight_def\<close>)

lemma flight_take:
  assumes "flight_inv w" "bw_pc w = Handling item"
  shows "take (Suc (length (bw_closed w))) (bw_served w) = take (length (bw_closed w)) (bw_served w) @ [item]"
proof -
  have d: "drop (length (bw_closed w)) (bw_served w) = [item]" using assms by (simp add: flight_inv_def in_flight_def)
  then have "bw_served w = take (length (bw_closed w)) (bw_served w) @ [item]" by (metis append_take_drop_id)
  moreover have "length (bw_served w) = Suc (length (bw_closed w))"
    using arg_cong [OF d, of length] by simp
  ultimately show ?thesis by simp
qed

lemma metric_inv_step:
  assumes "broker_step mine w w'" "flight_inv w" "metric_inv method w" shows "metric_inv method w'"
  using assms(1)
proof (cases rule: broker_step.cases)
  case (http_arrival r res answer item s)
  then show ?thesis using assms(3)
    by (auto simp: metric_inv_def Http_EnqueueRequests_def Let_def split: prod.splits option.splits)
next
  case (grpc_arrival g t res item s)
  then show ?thesis using assms(3)
    by (auto simp: metric_inv_def Grpc_EnqueueRequests_def Let_def split: prod.splits option.splits)
next
  case (top W ks c s)
  have p: "filter is_received (map (\<lambda>i. BrokerProcessingDuration m (ResourceName i)) xs) = []"
    "filter is_handled (map (\<lambda>i. BrokerProcessingDuration m (ResourceName i)) xs) = []"
    "filter is_processing (map (\<lambda>i. BrokerProcessingDuration m (ResourceName i)) xs) =
       map (\<lambda>i. BrokerProcessingDuration m (ResourceName i)) xs" for m xs
    by (induction xs) auto
  have "length (bw_closed w) \<le> length (bw_served w)" using assms(2) by (simp add: flight_inv_def)
  then show ?thesis using assms(3) top(1) top_metrics [OF top(5)] by (simp add: metric_inv_def Let_def p)
next
  case (select item ch c s)
  then show ?thesis using assms(3)
    by (auto simp: metric_inv_def ProcessRequests_select_def Let_def split: select_case.splits if_splits)
next
  case (handle item closed s)
  have s: "d_metrics s = d_metrics (bw_srv w) @ handle_metrics (d_ScheduleMethod (bw_srv w)) item"
    "d_ScheduleMethod s = d_ScheduleMethod (bw_srv w)" "length closed = Suc (length (bw_closed w))"
    using handle(3) by (auto simp: HandleRequest_def close_chan_def split: sum.splits if_splits)
  show ?thesis using assms(3) handle(1) s flight_take [OF assms(2) handle(2)] by (simp add: metric_inv_def Let_def)
qed (use assms(3) in \<open>auto simp: metric_inv_def Stop_def split: if_splits\<close>)

section \<open>Requests and queues\<close>

lemma length_of_groups:
  assumes "finite S" "ResourceName ` set xs \<subseteq> S"
  shows "length xs = (\<Sum>g \<in> S. length (of_group g xs))"
  using assms(2)
proof (induction xs)
  case (Cons i xs)
  have "(\<Sum>g \<in> S. length (of_group g (i # xs))) =
      (\<Sum>g \<in> S. (if g = ResourceName i then 1 else 0) + length (of_group g xs))"
    by (intro sum.cong) (auto simp: of_group_def)
  also have "\<dots> = 1 + (\<Sum>g \<in> S. length (of_group g xs))"
    using Cons.prems assms(1) by (simp add: sum.distrib)
  finally show ?case using Cons by simp
qed (simp add: of_group_def)

text \<open>Every accepted request was popped or waits in one of the finitely many queues.\<close>

lemma accepted_balance:
  assumes "history_inv (pool_view w)" "finite (dom (qp_Queues (d_QueuePool (bw_srv w))))"
  shows "length (bw_accepted w) = length (bw_served w) + waiting (d_QueuePool (bw_srv w))"
proof -
  let ?qp = "d_QueuePool (bw_srv w)"
  let ?S = "dom (qp_Queues ?qp) \<union> ResourceName ` set (bw_accepted w) \<union> ResourceName ` set (bw_served w)"
  have h: "of_group g (bw_accepted w) = of_group g (bw_served w) @ queued ?qp g" for g
    using assms(1) by (simp add: history_inv_def pool_view_def)
  have fin: "finite ?S" using assms(2) by simp
  have "length (bw_accepted w) = (\<Sum>g \<in> ?S. length (of_group g (bw_served w)) + length (queued ?qp g))"
    using length_of_groups [OF fin, of "bw_accepted w"] h by (simp add: sup.coboundedI1)
  also have "\<dots> = length (bw_served w) + (\<Sum>g \<in> ?S. length (queued ?qp g))"
    using length_of_groups [OF fin, of "bw_served w"] by (simp add: sum.distrib)
  also have "(\<Sum>g \<in> ?S. length (queued ?qp g)) = waiting ?qp"
    unfolding waiting_def using fin by (intro sum.mono_neutral_right) (auto simp: queued_def split: option.splits)
  finally show ?thesis .
qed

definition monitored :: "(QueueItem \<Rightarrow> bool) \<Rightarrow> string \<Rightarrow> 'x broker_world \<Rightarrow> bool" where
  "monitored mine method w \<longleftrightarrow> broker_inv mine w \<and> flight_inv w \<and> metric_inv method w \<and>
     finite (dom (qp_Queues (d_QueuePool (bw_srv w))))"

lemma finite_queues_step:
  assumes "broker_step mine w w'" "pool_ok mine w" "finite (dom (qp_Queues (d_QueuePool (bw_srv w))))"
  shows "finite (dom (qp_Queues (d_QueuePool (bw_srv w'))))"
proof -
  have v: "pool_inv (ps_pool (pool_view w))" "scheduler_inv (ps_picker (pool_view w))"
    using assms(2) by (auto simp: pool_ok_def pool_view_def)
  have "dom (qp_Queues (ps_pool (pool_view w'))) = dom (qp_Queues (ps_pool (pool_view w)))"
    using broker_step_view [OF assms(1,2)] pool_step_dom [OF v(1) broker_event_ok v(2)] by metis
  then show ?thesis using assms(3) by (simp add: pool_view_def)
qed

lemma monitored_step:
  "broker_step mine w w' \<Longrightarrow> item_kind mine \<Longrightarrow> monitored mine method w \<Longrightarrow> monitored mine method w'"
  unfolding monitored_def
  using broker_inv_step flight_inv_step metric_inv_step finite_queues_step broker_inv_def by blast

lemma started_monitored:
  assumes "started A ks rnd cfg s" "item_kind mine" "broker_reach mine (init_world s) w"
  shows "monitored mine (sch_Method (cfg_Schedule cfg)) w"
proof (rule brk.reach_invariant [OF assms(3), of "monitored mine (sch_Method (cfg_Schedule cfg))"])
  have st: "attributes_ok A" "map_order ks (pbi_Resources (build_info A (cfg_ServiceGroups cfg)))" "rnd < length ks"
    "make_dispatcher A ks rnd cfg = Inr (dispatcher.truncate s)" using assms(1) by (auto simp: started_def)
  obtain sched p where d: "dispatcher.truncate s =
      new_dispatcher cfg (NewQueuePool (cfg_Queue cfg) (cfg_ServiceGroups cfg)) (sched\<lparr>sd_picker := Some p\<rparr>)"
    by (rule make_dispatcher_cases [OF st(4,1-3)])
  have "d_metrics (dispatcher.truncate s) = d_metrics s" "d_ScheduleMethod (dispatcher.truncate s) = d_ScheduleMethod s"
    by (simp_all add: dispatcher.defs)
  then have "d_metrics s = []" "d_ScheduleMethod s = sch_Method (cfg_Schedule cfg)"
    "d_QueuePool s = NewQueuePool (cfg_Queue cfg) (cfg_ServiceGroups cfg)"
    using d truncate_fields(1) [of s] by (simp_all add: new_dispatcher_def)
  then show "monitored mine (sch_Method (cfg_Schedule cfg)) (init_world s)"
    using started_inv [OF assms(1), of mine] NewQueuePool_dom [of "cfg_Queue cfg" "cfg_ServiceGroups cfg"]
    by (simp add: monitored_def flight_inv_def metric_inv_def init_world_def in_flight_def)
qed (auto intro: monitored_step assms(2))

section \<open>Properties\<close>

lemma processing_label:
  "length (filter (\<lambda>c. c = BrokerProcessingDuration m g) (filter is_processing calls)) =
   length (filter (\<lambda>c. c = BrokerProcessingDuration m g) calls)"
  "length (filter (\<lambda>c. c = BrokerProcessingDuration m g) (map (\<lambda>i. BrokerProcessingDuration m (ResourceName i)) xs)) =
   length (of_group g xs)"
proof -
  show "length (filter (\<lambda>c. c = BrokerProcessingDuration m g) (filter is_processing calls)) =
      length (filter (\<lambda>c. c = BrokerProcessingDuration m g) calls)" by (induction calls) auto
  show "length (filter (\<lambda>c. c = BrokerProcessingDuration m g) (map (\<lambda>i. BrokerProcessingDuration m (ResourceName i)) xs)) =
      length (of_group g xs)" by (induction xs) (auto simp: of_group_def)
qed

lemma handled_http:
  "list_all is_http xs \<Longrightarrow> filter is_handled (concat (map (handle_metrics m) xs)) =
     map (\<lambda>i. BackendHandledRequestTotal m (ResourceName i)) xs"
proof (induction xs)
  case (Cons i xs)
  then show ?case by (cases i) (simp_all add: handle_metrics_def)
qed simp



text \<open>
  The group a request names in its header is the label of the received counter, also when no queue has that
  name; the group its waiting time is recorded under is then the default group. So the difference of the two per
  group is not the backlog of the group, and every name a client invents makes a new series.
\<close>

lemma received_label_unknown:
  assumes "pool_inv (d_QueuePool s)" "request_group r \<notin> dom (qp_Queues (d_QueuePool s))"
    and "Http_EnqueueRequests r c s = (Inr c, answer, item, s')"
  shows "d_metrics s' = d_metrics s @ [BrokerReceivedRequestTotal (d_ScheduleMethod s) (request_group r)] \<and>
    ResourceName item = DefaultServiceGroup"
proof -
  have "ResourceName item = DefaultServiceGroup"
  proof -
    obtain err qp where "QueuePool_Push (d_QueuePool s) (request_group r) (http_request_item r c) = (err, item, qp)"
      using assms(3) by (rule Http_Enqueue_push)
    then show ?thesis using assms(1,2)
      by (auto simp: QueuePool_Push_def http_request_item_def pool_inv_def Let_def domIff split: option.splits prod.splits)
  qed
  then show ?thesis using assms(3)
    by (auto simp: Http_EnqueueRequests_def Let_def split: prod.splits option.splits)
qed

end
