(* ===== verification/Slices.thy ===== *)
theory Slices
  imports Prelude
begin

text \<open>
  Slices of Go over an explicit memory, for the places where sharing of their arrays matters. A slice has the address of an
  array, a length and a capacity; the slices of the modelled code all begin at the start of their arrays. A nil slice is one of
  capacity 0. \<open>append\<close> writes behind the last element when there is capacity left, and into a new, larger array
  otherwise; how much larger is the run-time's choice.
\<close>

section \<open>Memory\<close>

record 'a memory =
  mem_array :: "nat \<Rightarrow> 'a list"
  mem_lim :: nat

record slice =
  sl_ptr :: nat
  sl_len :: nat
  sl_cap :: nat

definition contents :: "'a memory \<Rightarrow> slice \<Rightarrow> 'a list" where
  "contents m s = take (sl_len s) (mem_array m (sl_ptr s))"

definition slice_ok :: "'a memory \<Rightarrow> slice \<Rightarrow> bool" where
  "slice_ok m s \<longleftrightarrow> sl_ptr s < mem_lim m \<and> sl_len s \<le> sl_cap s \<and> length (mem_array m (sl_ptr s)) = sl_cap s"

text \<open>\<open>grow n\<close> is the capacity chosen for \<open>n\<close> elements, \<open>zero\<close> the zero value the rest of a new array has.\<close>

record 'a runtime =
  rt_grow :: "nat \<Rightarrow> nat"
  rt_zero :: 'a

definition runtime_ok :: "'a runtime \<Rightarrow> bool" where
  "runtime_ok R \<longleftrightarrow> (\<forall>n. n \<le> rt_grow R n)"

definition go_append :: "'a runtime \<Rightarrow> 'a \<Rightarrow> 'a memory \<times> slice \<Rightarrow> 'a memory \<times> slice" where
  "go_append R x =
     (\<lambda>(m, s).
        if sl_len s < sl_cap s
        then (m\<lparr>mem_array := (mem_array m)(sl_ptr s := (mem_array m (sl_ptr s))[sl_len s := x])\<rparr>, s\<lparr>sl_len := sl_len s + 1\<rparr>)
        else (let c = rt_grow R (sl_len s + 1);
                  a = contents m s @ [x] @ replicate (c - (sl_len s + 1)) (rt_zero R)
              in (m\<lparr>mem_array := (mem_array m)(mem_lim m := a), mem_lim := mem_lim m + 1\<rparr>,
                  \<lparr>sl_ptr = mem_lim m, sl_len = sl_len s + 1, sl_cap = c\<rparr>)))"

section \<open>Interface\<close>

text \<open>
  What a client of \<open>append\<close> may rely on: the new slice has the old contents and the new element, and a slice that the write does not
  reach keeps its contents. \<open>apart s t\<close> says that appending to \<open>s\<close> does not reach \<open>t\<close>.
\<close>

locale appendable =
  fixes app :: "'a \<Rightarrow> 'm \<times> 's \<Rightarrow> 'm \<times> 's" and view :: "'m \<Rightarrow> 's \<Rightarrow> 'a list" and ok :: "'m \<Rightarrow> 's \<Rightarrow> bool"
    and apart :: "'s \<Rightarrow> 's \<Rightarrow> bool"
  assumes app_view: "ok m s \<Longrightarrow> app x (m, s) = (m', s') \<Longrightarrow> ok m' s' \<and> view m' s' = view m s @ [x]"
    and app_frame: "ok m s \<Longrightarrow> ok m t \<Longrightarrow> apart s t \<Longrightarrow> app x (m, s) = (m', s') \<Longrightarrow> ok m' t \<and> view m' t = view m t \<and> apart s' t"
begin

text \<open>Appending several elements, one after the other.\<close>

lemma apps_view:
  "ok m s \<Longrightarrow> fold app xs (m, s) = (m', s') \<Longrightarrow> ok m' s' \<and> view m' s' = view m s @ xs"
proof (induction xs arbitrary: m s)
  case (Cons x xs)
  obtain m1 s1 where a: "app x (m, s) = (m1, s1)" by (meson prod.exhaust)
  with Cons show ?case using app_view [OF Cons.prems(1) a] by fastforce
qed simp

lemma apps_frame:
  "ok m s \<Longrightarrow> ok m t \<Longrightarrow> apart s t \<Longrightarrow> fold app xs (m, s) = (m', s') \<Longrightarrow> ok m' t \<and> view m' t = view m t \<and> apart s' t"
proof (induction xs arbitrary: m s)
  case (Cons x xs)
  obtain m1 s1 where a: "app x (m, s) = (m1, s1)" by (meson prod.exhaust)
  with Cons show ?case
    using app_view [OF Cons.prems(1) a] app_frame [OF Cons.prems(1-3) a] by fastforce
qed simp

end

text \<open>An append reaches no slice of another array, and of its own array none that is not longer.\<close>

definition apart :: "slice \<Rightarrow> slice \<Rightarrow> bool" where
  "apart s t \<longleftrightarrow> sl_ptr s \<noteq> sl_ptr t \<or> sl_len t \<le> sl_len s"

lemma go_append_view:
  assumes "runtime_ok R" "slice_ok m s" "go_append R x (m, s) = (m', s')"
  shows "slice_ok m' s' \<and> contents m' s' = contents m s @ [x]"
proof (cases "sl_len s < sl_cap s")
  case True
  then show ?thesis using assms by (auto simp: go_append_def slice_ok_def contents_def take_Suc_conv_app_nth)
next
  case False
  then have "sl_len s = sl_cap s" using assms(2) by (simp add: slice_ok_def)
  moreover have "sl_len s + 1 \<le> rt_grow R (sl_len s + 1)" using assms(1) by (simp add: runtime_ok_def)
  ultimately show ?thesis using assms(2,3) by (auto simp: go_append_def slice_ok_def contents_def Let_def)
qed

lemma go_append_frame:
  assumes "slice_ok m s" "slice_ok m t" "apart s t" "go_append R x (m, s) = (m', s')"
  shows "slice_ok m' t \<and> contents m' t = contents m t \<and> apart s' t"
  using assms by (auto simp: go_append_def slice_ok_def contents_def apart_def Let_def split: if_splits)

interpretation mem: appendable "go_append R" contents "\<lambda>m s. runtime_ok R \<and> slice_ok m s" apart for R :: "'a runtime"
proof unfold_locales
  show "(runtime_ok R \<and> slice_ok m' s') \<and> contents m' s' = contents m s @ [x]"
    if "runtime_ok R \<and> slice_ok m s" "go_append R x (m, s) = (m', s')" for m s x m' s'
    using go_append_view [OF _ _ that(2)] that(1) by simp
  show "(runtime_ok R \<and> slice_ok m' t) \<and> contents m' t = contents m t \<and> apart s' t"
    if "runtime_ok R \<and> slice_ok m s" "runtime_ok R \<and> slice_ok m t" "apart s t" "go_append R x (m, s) = (m', s')" for m s t x m' s'
    using go_append_frame [OF _ _ that(3,4)] that(1,2) by simp
qed

text \<open>Where the array of the result is: the old one, or the next free address; a full slice always moves.\<close>

lemma go_append_ptr:
  assumes "slice_ok m s" "go_append R x (m, s) = (m', s')"
  shows "sl_ptr s' = sl_ptr s \<and> mem_lim m' = mem_lim m \<and> sl_len s < sl_cap s \<or>
    sl_ptr s' = mem_lim m \<and> mem_lim m' = Suc (mem_lim m) \<and> sl_len s = sl_cap s"
  using assms by (auto simp: go_append_def slice_ok_def Let_def split: if_splits)

lemma appends_ptr:
  "runtime_ok R \<Longrightarrow> slice_ok m s \<Longrightarrow> fold (go_append R) xs (m, s) = (m', s') \<Longrightarrow>
   (sl_ptr s' = sl_ptr s \<or> mem_lim m \<le> sl_ptr s') \<and> mem_lim m \<le> mem_lim m'"
proof (induction xs arbitrary: m s)
  case (Cons x xs)
  obtain m1 s1 where a: "go_append R x (m, s) = (m1, s1)" by (meson prod.exhaust)
  with Cons go_append_view [OF Cons.prems(1,2) a] go_append_ptr [OF Cons.prems(2) a] show ?case by fastforce
qed simp

text \<open>With room for all of them, several elements are written in place.\<close>

lemma appends_in_place:
  "sl_len s + length xs \<le> sl_cap s \<Longrightarrow> snd (fold (go_append R) xs (m, s)) = s\<lparr>sl_len := sl_len s + length xs\<rparr>"
proof (induction xs arbitrary: m s)
  case (Cons x xs)
  obtain m1 where a: "go_append R x (m, s) = (m1, s\<lparr>sl_len := sl_len s + 1\<rparr>)" using Cons.prems by (simp add: go_append_def)
  show ?case using Cons.IH [of "s\<lparr>sl_len := sl_len s + 1\<rparr>" m1] Cons.prems by (simp add: a)
qed simp

end
