(* ===== verification/Injection.thy ===== *)
theory Injection
  imports Webhook Slices
begin

text \<open>
  The sharing behind \<open>getProxySidecarConfig\<close> and \<open>getBrokerSidecarConfig\<close> of \<open>internal/controller/webhook.go\<close>. \<open>Clone\<close> copies the containers of a
  template, but the slices inside them, so each copy's \<open>Env\<close> shares its array with the template's, and \<open>AddTargetToEnv\<close> appends to it. The
  theory \<open>Webhook\<close> takes the containers as values; here the \<open>Env\<close> slices are slices over a memory, and the requests the HTTP server
  handles at the same time are interleaved, one \<open>append\<close> at a time.
\<close>

section \<open>The loop of AddTargetToEnv over a memory\<close>

text \<open>The elements \<open>es\<close> are appended to the slice of each container; the new slices are collected in a new list.\<close>

fun AddTargetToEnv_mem :: "EnvVar runtime \<Rightarrow> EnvVar list \<Rightarrow> slice list \<Rightarrow> EnvVar memory \<Rightarrow> EnvVar memory \<times> slice list" where
  "AddTargetToEnv_mem R es [] m = (m, [])"
| "AddTargetToEnv_mem R es (s # ss) m =
     (let (m1, s1) = fold (go_append R) es (m, s);
          (m2, ss2) = AddTargetToEnv_mem R es ss m1
      in (m2, s1 # ss2))"

text \<open>A request alone: the clone shares the template's slices \<open>ss\<close>; then the patch is marshalled.\<close>

definition inject_alone :: "EnvVar runtime \<Rightarrow> slice list \<Rightarrow> EnvVar list \<Rightarrow> EnvVar memory \<Rightarrow> EnvVar memory \<times> EnvVar list list" where
  "inject_alone R ss es m = (let (m', ss') = AddTargetToEnv_mem R es ss m in (m', map (contents m') ss'))"

section \<open>Interleaved requests\<close>

text \<open>
  \<open>ad_work\<close> is, for each container, its slice and the elements still to append; \<open>ad_patch\<close> what was marshalled.
\<close>

record admission =
  ad_env :: "EnvVar list"
  ad_work :: "(slice \<times> EnvVar list) list"
  ad_patch :: "EnvVar list list option"

record inject_world =
  iw_mem :: "EnvVar memory"
  iw_reqs :: "admission list"

definition admit :: "slice list \<Rightarrow> EnvVar list \<Rightarrow> admission" where
  "admit ss es = \<lparr>ad_env = es, ad_work = map (\<lambda>s. (s, es)) ss, ad_patch = None\<rparr>"

fun append_next ::
  "EnvVar runtime \<Rightarrow> EnvVar memory \<Rightarrow> (slice \<times> EnvVar list) list \<Rightarrow> (EnvVar memory \<times> (slice \<times> EnvVar list) list) option" where
  "append_next R m [] = None"
| "append_next R m ((s, []) # ws) = map_option (\<lambda>(m', ws'). (m', (s, []) # ws')) (append_next R m ws)"
| "append_next R m ((s, e # es) # ws) = (let (m', s') = go_append R e (m, s) in Some (m', (s', es) # ws))"

inductive inject_step :: "EnvVar runtime \<Rightarrow> slice list \<Rightarrow> inject_world \<Rightarrow> inject_world \<Rightarrow> bool" for R ss where
  arrive: "inject_step R ss w (w\<lparr>iw_reqs := iw_reqs w @ [admit ss es]\<rparr>)"
| extend: "i < length (iw_reqs w) \<Longrightarrow> append_next R (iw_mem w) (ad_work (iw_reqs w ! i)) = Some (m, ws) \<Longrightarrow>
    inject_step R ss w (w\<lparr>iw_mem := m, iw_reqs := (iw_reqs w)[i := (iw_reqs w ! i)\<lparr>ad_work := ws\<rparr>]\<rparr>)"
| marshal: "i < length (iw_reqs w) \<Longrightarrow> append_next R (iw_mem w) (ad_work (iw_reqs w ! i)) = None \<Longrightarrow> ad_patch (iw_reqs w ! i) = None \<Longrightarrow>
    inject_step R ss w (w\<lparr>iw_reqs := (iw_reqs w)[i := (iw_reqs w ! i)\<lparr>ad_patch :=
      Some (map (\<lambda>(s, _). contents (iw_mem w) s) (ad_work (iw_reqs w ! i)))\<rparr>]\<rparr>)"

inductive inject_reach :: "EnvVar runtime \<Rightarrow> slice list \<Rightarrow> inject_world \<Rightarrow> inject_world \<Rightarrow> bool" for R ss w0 where
  init: "inject_reach R ss w0 w0"
| step: "inject_reach R ss w0 w \<Longrightarrow> inject_step R ss w w' \<Longrightarrow> inject_reach R ss w0 w'"

interpretation inj: step_system "inject_step R ss" "inject_reach R ss" for R ss
proof unfold_locales
  show "P b" if "inject_reach R ss a b" "P a" "\<And>x y. P x \<Longrightarrow> inject_step R ss x y \<Longrightarrow> P y" for a b P
    using that by (induction rule: inject_reach.induct) auto
qed (auto intro: inject_reach.intros)

definition idle_webhook :: "EnvVar memory \<Rightarrow> inject_world" where
  "idle_webhook m = \<lparr>iw_mem = m, iw_reqs = []\<rparr>"

text \<open>A template in memory: its slices exist, in arrays of their own.\<close>

definition template_ok :: "EnvVar memory \<Rightarrow> slice list \<Rightarrow> bool" where
  "template_ok m ss \<longleftrightarrow> list_all (slice_ok m) ss \<and> distinct (map sl_ptr ss)"

text \<open>The containers of a configuration, as values.\<close>

definition template_of :: "EnvVar memory \<Rightarrow> slice list \<Rightarrow> SidecarConfig \<Rightarrow> bool" where
  "template_of m ss sc \<longleftrightarrow> map ct_Env (sc_Containers sc) = map (contents m) ss"

lemma template_env:
  "template_of m ss sc \<Longrightarrow>
   map ct_Env (sc_Containers (AddTargetToEnv sc port addr)) = map (\<lambda>s. contents m s @ target_env port addr) ss"
proof -
  assume "template_of m ss sc"
  then have "map (\<lambda>e. e @ target_env port addr) (map ct_Env (sc_Containers sc)) = map (\<lambda>e. e @ target_env port addr) (map (contents m) ss)"
    by (simp add: template_of_def)
  then show ?thesis by (simp add: AddTargetToEnv_def comp_def)
qed

section \<open>One request after the other\<close>

lemma template_ok_Cons:
  "template_ok m (s # ss) \<longleftrightarrow> slice_ok m s \<and> template_ok m ss \<and> sl_ptr s \<notin> sl_ptr ` set ss"
  by (auto simp: template_ok_def)

text \<open>Extending one slice of a template keeps the others.\<close>

lemma extend_one:
  assumes "runtime_ok R" "template_ok m (s # ss)" "fold (go_append R) es (m, s) = (m1, s1)"
  shows "template_ok m1 ss" "map (contents m1) ss = map (contents m) ss"
proof -
  have "slice_ok m1 t \<and> contents m1 t = contents m t" if "t \<in> set ss" for t
  proof -
    have "slice_ok m t" "apart s t" using assms(2) that by (auto simp: template_ok_def list_all_iff apart_def)
    then show ?thesis using mem.apps_frame [of R m s t es m1 s1] assms by (simp add: template_ok_Cons)
  qed
  then show "template_ok m1 ss" "map (contents m1) ss = map (contents m) ss"
    using assms(2) by (auto simp: template_ok_def list_all_iff)
qed

lemma AddTargetToEnv_mem_frame:
  assumes "runtime_ok R" "AddTargetToEnv_mem R es ss m = (m', ss')" "template_ok m ss" "slice_ok m t"
    and "\<And>s. s \<in> set ss \<Longrightarrow> apart s t"
  shows "slice_ok m' t \<and> contents m' t = contents m t"
  using assms(2-)
proof (induction ss arbitrary: m ss')
  case (Cons s ss)
  obtain m1 s1 where a: "fold (go_append R) es (m, s) = (m1, s1)" by (meson prod.exhaust)
  obtain ss2 where b: "AddTargetToEnv_mem R es ss m1 = (m', ss2)" using Cons.prems(1) a by (auto split: prod.splits)
  have "slice_ok m1 t \<and> contents m1 t = contents m t"
    using mem.apps_frame [of R m s t es m1 s1] assms(1) a Cons.prems by (auto simp: template_ok_Cons)
  then show ?case using Cons.IH [OF b extend_one(1) [OF assms(1) Cons.prems(2) a]] Cons.prems(4) by auto
qed simp

lemma AddTargetToEnv_mem_result:
  assumes "runtime_ok R" "AddTargetToEnv_mem R es ss m = (m', ss')" "template_ok m ss"
  shows "map (contents m') ss' = map (\<lambda>s. contents m s @ es) ss \<and> length ss' = length ss"
  using assms(2,3)
proof (induction ss arbitrary: m ss')
  case (Cons s ss)
  obtain m1 s1 where a: "fold (go_append R) es (m, s) = (m1, s1)" by (meson prod.exhaust)
  obtain ss2 where b: "AddTargetToEnv_mem R es ss m1 = (m', ss2)" "ss' = s1 # ss2" using Cons.prems(1) a by (auto split: prod.splits)
  have s: "slice_ok m s" "template_ok m ss" "sl_ptr s \<notin> sl_ptr ` set ss" using Cons.prems(2) by (auto simp: template_ok_Cons)
  have s1: "slice_ok m1 s1" "contents m1 s1 = contents m s @ es"
    using mem.apps_view [of R m s es m1 s1] assms(1) s(1) a by auto
  have ap: "apart t s1" if "t \<in> set ss" for t
  proof -
    have "sl_ptr t \<noteq> sl_ptr s" "sl_ptr t < mem_lim m"
      using s(2,3) that by (metis imageI, auto simp: template_ok_def list_all_iff slice_ok_def)
    then show ?thesis using appends_ptr [OF assms(1) s(1) a] by (auto simp: apart_def)
  qed
  note keep = extend_one [OF assms(1) Cons.prems(2) a]
  have "contents m' s1 = contents m s @ es"
    using AddTargetToEnv_mem_frame [OF assms(1) b(1) keep(1) s1(1) ap] s1(2) by simp
  moreover have "map (\<lambda>t. contents m1 t @ es) ss = map (\<lambda>t. contents m t @ es) ss"
    using keep(2) by (auto simp: map_eq_conv)
  ultimately show ?case using Cons.IH [OF b(1) keep(1)] b(2) by simp
qed simp

lemma AddTargetToEnv_mem_template:
  assumes "runtime_ok R" "AddTargetToEnv_mem R es ss m = (m', ss')" "template_ok m ss"
  shows "template_ok m' ss \<and> map (contents m') ss = map (contents m) ss"
proof -
  have "slice_ok m' t \<and> contents m' t = contents m t" if "t \<in> set ss" for t
  proof (rule AddTargetToEnv_mem_frame [OF assms])
    show "slice_ok m t" using assms(3) that by (simp add: template_ok_def list_all_iff)
    show "apart s t" if "s \<in> set ss" for s
      using assms(3) \<open>t \<in> set ss\<close> that by (auto simp: template_ok_def apart_def distinct_map inj_on_def)
  qed
  then show ?thesis using assms(3) by (auto simp: template_ok_def list_all_iff)
qed

fun inject_all :: "EnvVar runtime \<Rightarrow> slice list \<Rightarrow> (int32 \<times> string) list \<Rightarrow> EnvVar memory \<Rightarrow> EnvVar list list list" where
  "inject_all R ss [] m = []"
| "inject_all R ss ((port, addr) # reqs) m =
     (let (m', patch) = inject_alone R ss (target_env port addr) m in patch # inject_all R ss reqs m')"

lemma foldl_snoc: "foldl (\<lambda>acc c. acc @ [c]) ys xs = ys @ xs"
  by (induction xs arbitrary: ys) auto

lemma Clone_same: "Clone sc = sc"
  by (simp add: Clone_def foldl_snoc)

text \<open>
  C15. Requests handled one after the other. However the run-time grows slices, and whether or not the template's slices have
  capacity left, every request of a sequence gets the patch that the containers-as-values model says, made from the template
  alone, and the template keeps its contents. So the copy that \<open>Clone\<close> makes is deep enough as long as requests do not overlap.
\<close>

theorem sequential_injection:
  assumes "runtime_ok R" "template_ok m ss" "template_of m ss sc"
  shows "inject_all R ss reqs m = map (\<lambda>(port, addr). map ct_Env (sc_Containers (AddTargetToEnv (Clone sc) port addr))) reqs"
  using assms(2,3)
proof (induction reqs arbitrary: m)
  case (Cons r reqs)
  obtain port addr where r: "r = (port, addr)" by force
  let ?es = "target_env port addr"
  obtain m' ss' where a: "AddTargetToEnv_mem R ?es ss m = (m', ss')" by (meson prod.exhaust)
  note res = AddTargetToEnv_mem_result [OF assms(1) a Cons.prems(1)] AddTargetToEnv_mem_template [OF assms(1) a Cons.prems(1)]
  have t: "template_of m' ss sc" using Cons.prems(2) res(2) by (simp add: template_of_def)
  have "map (contents m') ss' = map ct_Env (sc_Containers (AddTargetToEnv (Clone sc) port addr))"
    using res(1) template_env [OF Cons.prems(2), of port addr] by (simp add: Clone_same)
  then show ?case using Cons.IH [of m'] t res(2) by (simp add: r inject_alone_def a)
qed simp

section \<open>A request runs to its end\<close>

definition set_work :: "nat \<Rightarrow> EnvVar memory \<Rightarrow> (slice \<times> EnvVar list) list \<Rightarrow> inject_world \<Rightarrow> inject_world" where
  "set_work i m ws w = w\<lparr>iw_mem := m, iw_reqs := (iw_reqs w)[i := (iw_reqs w ! i)\<lparr>ad_work := ws\<rparr>]\<rparr>"

definition finished :: "slice list \<Rightarrow> (slice \<times> EnvVar list) list" where
  "finished ss = map (\<lambda>s. (s, [])) ss"

lemma set_work_simps [simp]:
  "length (iw_reqs (set_work i m ws w)) = length (iw_reqs w)" "iw_mem (set_work i m ws w) = m"
  "i < length (iw_reqs w) \<Longrightarrow> iw_reqs (set_work i m ws w) ! i = (iw_reqs w ! i)\<lparr>ad_work := ws\<rparr>"
  "i \<noteq> j \<Longrightarrow> iw_reqs (set_work i m ws w) ! j = iw_reqs w ! j"
  "i < length (iw_reqs w) \<Longrightarrow> set_work i m' ws' (set_work i m ws w) = set_work i m' ws' w"
  by (simp_all add: set_work_def)

lemma append_next_finished:
  "append_next R m (finished pre @ ws) = map_option (\<lambda>(m', ws'). (m', finished pre @ ws')) (append_next R m ws)"
proof (induction pre)
  case (Cons s pre)
  then show ?case by (cases "append_next R m ws") (auto simp: finished_def)
qed (simp add: finished_def option.map_ident)

lemma append_next_None: "append_next R m (finished ss) = None"
  by (induction ss) (simp_all add: finished_def)

lemma finish_one:
  assumes "i < length (iw_reqs w)" "fold (go_append R) es (m, s) = (m1, s1)"
  shows "inject_reach R tmpl (set_work i m (finished pre @ (s, es) # ws) w) (set_work i m1 (finished pre @ (s1, []) # ws) w)"
  using assms(2)
proof (induction es arbitrary: m s)
  case Nil
  then show ?case by (auto intro: inject_reach.init)
next
  case (Cons e es)
  obtain m' s' where a: "go_append R e (m, s) = (m', s')" by (meson prod.exhaust)
  let ?w = "set_work i m (finished pre @ (s, e # es) # ws) w" and ?w' = "set_work i m' (finished pre @ (s', es) # ws) w"
  have "append_next R (iw_mem ?w) (ad_work (iw_reqs ?w ! i)) = Some (m', finished pre @ (s', es) # ws)"
    using assms(1) by (simp add: append_next_finished a)
  from inject_step.extend [OF _ this, of tmpl] have "inject_step R tmpl ?w ?w'"
    using assms(1) by (simp add: set_work_def)
  then show ?case using Cons.IH [of m' s'] Cons.prems a inj.reach_trans inj.reach_one by fastforce
qed

lemma finish_all:
  assumes "i < length (iw_reqs w)" "AddTargetToEnv_mem R es ss m = (m', ss')"
  shows "inject_reach R tmpl (set_work i m (finished pre @ map (\<lambda>s. (s, es)) ss) w) (set_work i m' (finished (pre @ ss')) w)"
  using assms(2)
proof (induction ss arbitrary: m pre ss')
  case Nil
  then show ?case by (auto simp: finished_def intro: inject_reach.init)
next
  case (Cons s ss)
  obtain m1 s1 where a: "fold (go_append R) es (m, s) = (m1, s1)" by (meson prod.exhaust)
  obtain ss2 where b: "AddTargetToEnv_mem R es ss m1 = (m', ss2)" "ss' = s1 # ss2" using Cons.prems a by (auto split: prod.splits)
  have "inject_reach R tmpl (set_work i m1 (finished (pre @ [s1]) @ map (\<lambda>s. (s, es)) ss) w) (set_work i m' (finished ((pre @ [s1]) @ ss2)) w)"
    by (rule Cons.IH [OF b(1)])
  moreover have "inject_reach R tmpl (set_work i m (finished pre @ (s, es) # map (\<lambda>s. (s, es)) ss) w)
      (set_work i m1 (finished pre @ (s1, []) # map (\<lambda>s. (s, es)) ss) w)" by (rule finish_one [OF assms(1) a])
  ultimately show ?case using b(2) inj.reach_trans by (fastforce simp: finished_def)
qed

text \<open>The interleaving machine runs a request that is not disturbed as the loop does.\<close>

lemma request_runs:
  assumes "i < length (iw_reqs w)" "ad_work (iw_reqs w ! i) = map (\<lambda>s. (s, es)) ss" "AddTargetToEnv_mem R es ss (iw_mem w) = (m', ss')"
  shows "inject_reach R tmpl w (set_work i m' (finished ss') w)"
proof -
  have "set_work i (iw_mem w) (finished [] @ map (\<lambda>s. (s, es)) ss) w = w"
    using assms(2) by (simp add: set_work_def finished_def flip: assms(2))
  with finish_all [OF assms(1,3), of tmpl "[]"] show ?thesis by simp
qed

section \<open>Overlapping requests\<close>

lemma AddTargetToEnv_in_place:
  assumes "\<forall>s \<in> set ss. sl_len s + length es \<le> sl_cap s"
  shows "snd (AddTargetToEnv_mem R es ss m) = map (\<lambda>s. s\<lparr>sl_len := sl_len s + length es\<rparr>) ss"
  using assms
proof (induction ss arbitrary: m)
  case (Cons s ss)
  then show ?case using appends_in_place [of s es R m] by (auto simp: case_prod_beta)
qed simp


section \<open>Templates without spare capacity\<close>

text \<open>
  A request's slot is untouched, still the template's slice, or moved to an array that no one else has; \<open>lim\<close> is the end of the memory
  at the start.
\<close>

definition slot_ok :: "EnvVar memory \<Rightarrow> slice \<Rightarrow> EnvVar memory \<Rightarrow> EnvVar list \<Rightarrow> slice \<times> EnvVar list \<Rightarrow> bool" where
  "slot_ok m0 t m env slot \<longleftrightarrow> (case slot of (s, rest) \<Rightarrow>
     s = t \<and> rest = env \<or>
     mem_lim m0 \<le> sl_ptr s \<and> slice_ok m s \<and> (\<exists>done. env = done @ rest \<and> contents m s = contents m0 t @ done))"

definition slot :: "inject_world \<Rightarrow> nat \<Rightarrow> nat \<Rightarrow> slice \<times> EnvVar list" where
  "slot w i j = ad_work (iw_reqs w ! i) ! j"

definition private_slots :: "EnvVar memory \<Rightarrow> slice list \<Rightarrow> inject_world \<Rightarrow> bool" where
  "private_slots m0 ss w \<longleftrightarrow>
     (\<forall>i j i' j'. i < length (iw_reqs w) \<and> i' < length (iw_reqs w) \<and> j < length ss \<and> j' < length ss \<and>
        sl_ptr (fst (slot w i j)) = sl_ptr (fst (slot w i' j')) \<and> mem_lim m0 \<le> sl_ptr (fst (slot w i j)) \<longrightarrow> i = i' \<and> j = j')"

definition inject_inv :: "EnvVar memory \<Rightarrow> slice list \<Rightarrow> inject_world \<Rightarrow> bool" where
  "inject_inv m0 ss w \<longleftrightarrow>
     mem_lim m0 \<le> mem_lim (iw_mem w) \<and>
     (\<forall>s \<in> set ss. slice_ok (iw_mem w) s \<and> contents (iw_mem w) s = contents m0 s) \<and>
     (\<forall>r \<in> set (iw_reqs w). length (ad_work r) = length ss \<and>
        (\<forall>p. ad_patch r = Some p \<longrightarrow> p = map (\<lambda>s. contents m0 s @ ad_env r) ss)) \<and>
     (\<forall>i < length (iw_reqs w). \<forall>j < length ss. slot_ok m0 (ss ! j) (iw_mem w) (ad_env (iw_reqs w ! i)) (slot w i j)) \<and>
     private_slots m0 ss w"

lemma append_next_Some:
  "append_next R m ws = Some (m', ws') \<Longrightarrow>
   \<exists>j s e es s'. j < length ws \<and> ws ! j = (s, e # es) \<and> go_append R e (m, s) = (m', s') \<and> ws' = ws[j := (s', es)]"
proof (induction R m ws arbitrary: m' ws' rule: append_next.induct)
  case (2 R m s ws)
  then obtain ws1 where w: "append_next R m ws = Some (m', ws1)" "ws' = (s, []) # ws1" by auto
  from "2.IH" [OF w(1)] obtain j s2 e es s' where j: "j < length ws" "ws ! j = (s2, e # es)" "go_append R e (m, s2) = (m', s')"
    "ws1 = ws[j := (s', es)]" by blast
  then show ?case by (intro exI [of _ "Suc j"]) (simp add: w(2))
next
  case (3 R m s e es ws)
  then show ?case by (intro exI [of _ 0]) (auto split: prod.splits)
qed simp

lemma append_next_NoneD: "append_next R m ws = None \<Longrightarrow> j < length ws \<Longrightarrow> snd (ws ! j) = []"
proof (induction R m ws arbitrary: j rule: append_next.induct)
  case (2 R m s ws)
  then show ?case by (cases j) auto
qed (auto split: prod.splits)

lemma slot_set_work:
  assumes "i < length (iw_reqs w)" "length (ad_work (iw_reqs w ! i)) = n" "j < n"
  shows "slot (set_work i m ((ad_work (iw_reqs w ! i))[j := x]) w) i' j' = (if i' = i \<and> j' = j then x else slot w i' j')"
  using assms by (auto simp: slot_def set_work_def nth_list_update)

text \<open>What one append does to a slice of its own array, and to the slices of the others.\<close>

lemma append_moves:
  assumes "runtime_ok R" "mem_lim m0 \<le> mem_lim m" "slice_ok m t" "contents m t = contents m0 t" "sl_len t = sl_cap t"
    and "slot_ok m0 t m env (s, e # es)" "go_append R e (m, s) = (m', s')"
  shows "slot_ok m0 t m' env (s', es) \<and> mem_lim m0 \<le> sl_ptr s' \<and> mem_lim m \<le> mem_lim m' \<and>
    (sl_ptr s' = sl_ptr s \<and> mem_lim m0 \<le> sl_ptr s \<or> mem_lim m \<le> sl_ptr s')"
proof -
  have s: "slice_ok m s" "\<exists>done. env = done @ e # es \<and> contents m s = contents m0 t @ done"
    using assms(3,4,6) by (auto simp: slot_ok_def)
  have moved: "s = t \<Longrightarrow> mem_lim m \<le> sl_ptr s'" using go_append_ptr [OF s(1) assms(7)] assms(5) by auto
  note v = go_append_view [OF assms(1) s(1) assms(7)] and p = go_append_ptr [OF s(1) assms(7)]
  have far: "mem_lim m0 \<le> sl_ptr s'" using moved p assms(2,6) by (auto simp: slot_ok_def)
  from s(2) obtain d where "env = d @ e # es" "contents m s = contents m0 t @ d" by blast
  then have "env = (d @ [e]) @ es" "contents m' s' = contents m0 t @ (d @ [e])" using v by auto
  then have "slot_ok m0 t m' env (s', es)" using far v unfolding slot_ok_def case_prod_conv by blast
  moreover have "sl_ptr s' = sl_ptr s \<and> mem_lim m0 \<le> sl_ptr s \<or> mem_lim m \<le> sl_ptr s'" using far p by auto
  moreover have "mem_lim m \<le> mem_lim m'" using p by auto
  ultimately show ?thesis using far by blast
qed

lemma slot_ok_kept:
  assumes "slot_ok m0 t m env (u, rest)" "slice_ok m s" "go_append R e (m, s) = (m', s')"
    and "mem_lim m0 \<le> sl_ptr u \<Longrightarrow> sl_ptr s \<noteq> sl_ptr u"
  shows "slot_ok m0 t m' env (u, rest)"
  using assms(1)
  unfolding slot_ok_def case_prod_conv
proof (elim disjE conjE exE)
  fix d assume u: "mem_lim m0 \<le> sl_ptr u" "slice_ok m u" "env = d @ rest" "contents m u = contents m0 t @ d"
  then have "slice_ok m' u \<and> contents m' u = contents m u"
    using go_append_frame [OF assms(2) u(2) _ assms(3)] assms(4) by (auto simp: apart_def)
  with u show "u = t \<and> rest = env \<or> mem_lim m0 \<le> sl_ptr u \<and> slice_ok m' u \<and> (\<exists>done. env = done @ rest \<and> contents m' u = contents m0 t @ done)"
    by auto
qed simp

lemma other_slots:
  assumes "private_slots m0 ss w" "slice_ok m0 (ss ! b)" "slot_ok m0 (ss ! b) (iw_mem w) env (slot w a b)"
    and "i < length (iw_reqs w)" "j < length ss" "slot w i j = (s, rest)" "mem_lim m0 \<le> mem_lim (iw_mem w)"
    and "a < length (iw_reqs w)" "b < length ss" "\<not> (a = i \<and> b = j)" "mem_lim m0 \<le> sl_ptr (fst (slot w a b))"
  shows "sl_ptr s \<noteq> sl_ptr (fst (slot w a b)) \<and> sl_ptr (fst (slot w a b)) < mem_lim (iw_mem w)"
proof
  show "sl_ptr (fst (slot w a b)) < mem_lim (iw_mem w)"
    using assms(2,3,7,11) by (auto simp: slot_ok_def slice_ok_def split: prod.splits)
  show "sl_ptr s \<noteq> sl_ptr (fst (slot w a b))"
  proof (cases "mem_lim m0 \<le> sl_ptr s")
    case True
    then show ?thesis using assms(1) [unfolded private_slots_def, rule_format, of i a j b] assms by auto
  qed (use assms(11) in linarith)
qed

lemma private_upd:
  assumes "private_slots m0 ss w" "length (iw_reqs w') = length (iw_reqs w)"
    and "\<And>a b. slot w' a b = (if a = i \<and> b = j then x else slot w a b)"
    and "\<And>a b. a < length (iw_reqs w) \<Longrightarrow> b < length ss \<Longrightarrow> \<not> (a = i \<and> b = j) \<Longrightarrow> mem_lim m0 \<le> sl_ptr (fst (slot w a b)) \<Longrightarrow>
      sl_ptr (fst x) \<noteq> sl_ptr (fst (slot w a b))"
  shows "private_slots m0 ss w'"
  unfolding private_slots_def
proof (intro allI impI)
  fix a b a' b'
  assume h: "a < length (iw_reqs w') \<and> a' < length (iw_reqs w') \<and> b < length ss \<and> b' < length ss \<and>
    sl_ptr (fst (slot w' a b)) = sl_ptr (fst (slot w' a' b')) \<and> mem_lim m0 \<le> sl_ptr (fst (slot w' a b))"
  note f = assms(3) [of a b] assms(3) [of a' b']
  show "a = a' \<and> b = b'"
  proof (cases "a = i \<and> b = j")
    case True
    show ?thesis
    proof (rule ccontr)
      assume "\<not> (a = a' \<and> b = b')"
      then have ne: "\<not> (a' = i \<and> b' = j)" using True by blast
      show False using h assms(2) assms(4) [OF _ _ ne] unfolding f if_P [OF True] if_not_P [OF ne] by simp
    qed
  next
    case False
    note fa = f(1) [unfolded if_not_P [OF False]]
    have ne: "\<not> (a' = i \<and> b' = j)"
    proof
      assume "a' = i \<and> b' = j"
      from f(2) [unfolded if_P [OF this]] show False using h assms(2) assms(4) [OF _ _ False] unfolding fa by simp
    qed
    show ?thesis using h assms(2) assms(1) [unfolded private_slots_def, rule_format, of a a' b b']
      unfolding fa f(2) [unfolded if_not_P [OF ne]] by simp
  qed
qed

lemma inject_inv_extend:
  assumes "runtime_ok R" "\<forall>s \<in> set ss. slice_ok m0 s \<and> sl_len s = sl_cap s" "inject_inv m0 ss w"
    and "i < length (iw_reqs w)" "append_next R (iw_mem w) (ad_work (iw_reqs w ! i)) = Some (m', ws)"
  shows "inject_inv m0 ss (set_work i m' ws w)"
proof -
  let ?m = "iw_mem w" and ?r = "iw_reqs w ! i"
  have lim: "mem_lim m0 \<le> mem_lim ?m" and tmpl: "\<And>s. s \<in> set ss \<Longrightarrow> slice_ok ?m s \<and> contents ?m s = contents m0 s"
    and len: "\<And>r. r \<in> set (iw_reqs w) \<Longrightarrow> length (ad_work r) = length ss"
    and slots: "\<And>a b. a < length (iw_reqs w) \<Longrightarrow> b < length ss \<Longrightarrow> slot_ok m0 (ss ! b) ?m (ad_env (iw_reqs w ! a)) (slot w a b)"
    and priv: "private_slots m0 ss w"
    using assms(3) by (auto simp: inject_inv_def)
  have len_i: "length (ad_work ?r) = length ss" using len assms(4) nth_mem by blast
  obtain j s e es s' where j: "j < length ss" "slot w i j = (s, e # es)" "go_append R e (?m, s) = (m', s')"
    "ws = (ad_work ?r)[j := (s', es)]"
    using append_next_Some [OF assms(5)] len_i by (auto simp: slot_def)
  let ?w = "set_work i m' ws w" and ?t = "ss ! j"
  have t: "slice_ok ?m ?t" "contents ?m ?t = contents m0 ?t" "sl_len ?t = sl_cap ?t" "slice_ok m0 ?t"
    using tmpl assms(2) nth_mem [OF j(1)] by auto
  have s_ok: "slot_ok m0 ?t ?m (ad_env ?r) (s, e # es)" using slots [OF assms(4) j(1)] j(2) by simp
  note new = append_moves [OF assms(1) lim t(1-3) s_ok j(3)]
  have s: "slice_ok ?m s" "s = ?t \<or> mem_lim m0 \<le> sl_ptr s" using s_ok t(1) by (auto simp: slot_ok_def)
  have at: "slot ?w a b = (if a = i \<and> b = j then (s', es) else slot w a b)" for a b
    using slot_set_work [OF assms(4) len_i j(1)] by (simp add: j(4))
  have other: "sl_ptr s \<noteq> sl_ptr (fst (slot w a b)) \<and> sl_ptr s' \<noteq> sl_ptr (fst (slot w a b))"
    if "a < length (iw_reqs w)" "b < length ss" "\<not> (a = i \<and> b = j)" "mem_lim m0 \<le> sl_ptr (fst (slot w a b))" for a b
    using other_slots [OF priv _ slots assms(4) j(1,2) lim] that assms(2) new by fastforce
  have "slot_ok m0 (ss ! b) m' (ad_env (iw_reqs ?w ! a)) (slot ?w a b)" if ab: "a < length (iw_reqs w)" "b < length ss" for a b
  proof (cases "a = i \<and> b = j")
    case True
    then show ?thesis using new assms(4) at by simp
  next
    case False
    obtain u rest where u: "slot w a b = (u, rest)" by (meson prod.exhaust)
    have "ad_env (iw_reqs ?w ! a) = ad_env (iw_reqs w ! a)" using assms(4) by (cases "a = i") simp_all
    then show ?thesis using slot_ok_kept [OF _ s(1) j(3)] slots [OF ab] other [OF ab False] at [of a b] False u by auto
  qed
  moreover have "private_slots m0 ss ?w"
    by (rule private_upd [OF priv _ at]) (use other in auto)
  moreover have "slice_ok m' x \<and> contents m' x = contents m0 x" if x: "x \<in> set ss" for x
  proof -
    have x': "slice_ok m0 x" "sl_len x = sl_cap x" "slice_ok ?m x" using assms(2) tmpl x by auto
    have "apart s x" using s t x' unfolding apart_def slice_ok_def by (metis le_trans less_le_not_le order_refl)
    then show ?thesis using go_append_frame [OF s(1) x'(3) _ j(3)] tmpl [OF x] by simp
  qed
  moreover have "length (ad_work r) = length ss \<and> (\<forall>p. ad_patch r = Some p \<longrightarrow> p = map (\<lambda>s. contents m0 s @ ad_env r) ss)"
    if "r \<in> set (iw_reqs ?w)" for r
  proof -
    have "r \<in> set (iw_reqs w) \<or> r = ?r\<lparr>ad_work := ws\<rparr>" using that set_update_subset_insert by (fastforce simp: set_work_def)
    then show ?thesis using assms(3,4) len_i j(4) nth_mem [OF assms(4)] by (auto simp: inject_inv_def)
  qed
  ultimately show ?thesis using lim new unfolding inject_inv_def by auto
qed

lemma inject_inv_arrive:
  assumes "\<forall>s \<in> set ss. slice_ok m0 s" "inject_inv m0 ss w"
  shows "inject_inv m0 ss (w\<lparr>iw_reqs := iw_reqs w @ [admit ss es]\<rparr>)" (is "inject_inv m0 ss ?w")
proof -
  have old: "slot ?w i j = slot w i j" if "i < length (iw_reqs w)" for i j using that by (simp add: slot_def nth_append)
  have new: "slot ?w (length (iw_reqs w)) j = (ss ! j, es)" if "j < length ss" for j using that by (simp add: slot_def admit_def)
  have low: "sl_ptr (ss ! j) < mem_lim m0" if "j < length ss" for j using assms(1) that by (auto simp: slice_ok_def)
  have "slot_ok m0 (ss ! j) (iw_mem w) (ad_env (iw_reqs ?w ! i)) (slot ?w i j)" if ij: "i < length (iw_reqs ?w)" "j < length ss" for i j
  proof (cases "i < length (iw_reqs w)")
    case True
    then show ?thesis using assms(2) ij(2) by (simp add: inject_inv_def old nth_append)
  next
    case False
    then have "i = length (iw_reqs w)" using ij(1) by simp
    then show ?thesis using new [OF ij(2)] by (simp add: slot_ok_def admit_def)
  qed
  moreover have "private_slots m0 ss ?w"
    unfolding private_slots_def
  proof (intro allI impI)
    fix a b a' b'
    assume h: "a < length (iw_reqs ?w) \<and> a' < length (iw_reqs ?w) \<and> b < length ss \<and> b' < length ss \<and>
      sl_ptr (fst (slot ?w a b)) = sl_ptr (fst (slot ?w a' b')) \<and> mem_lim m0 \<le> sl_ptr (fst (slot ?w a b))"
    have "a \<noteq> length (iw_reqs w)" using h new [of b] low [of b] by auto
    moreover have "a' \<noteq> length (iw_reqs w)" using h new [of b'] low [of b'] by auto
    ultimately have "a < length (iw_reqs w)" "a' < length (iw_reqs w)" using h by auto
    then show "a = a' \<and> b = b'"
      using assms(2) h old unfolding inject_inv_def private_slots_def by metis
  qed
  ultimately show ?thesis using assms(2) by (auto simp: inject_inv_def admit_def)
qed

lemma inject_inv_marshal:
  assumes "inject_inv m0 ss w" "i < length (iw_reqs w)" "append_next R (iw_mem w) (ad_work (iw_reqs w ! i)) = None"
  shows "inject_inv m0 ss (w\<lparr>iw_reqs := (iw_reqs w)[i := (iw_reqs w ! i)\<lparr>ad_patch :=
      Some (map (\<lambda>(s, _). contents (iw_mem w) s) (ad_work (iw_reqs w ! i)))\<rparr>]\<rparr>)" (is "inject_inv m0 ss ?w")
proof -
  let ?r = "iw_reqs w ! i"
  have len: "length (ad_work ?r) = length ss" using assms(1,2) nth_mem by (auto simp: inject_inv_def)
  have "contents (iw_mem w) (fst (ad_work ?r ! j)) = contents m0 (ss ! j) @ ad_env ?r" if j: "j < length ss" for j
  proof -
    obtain s where s: "ad_work ?r ! j = (s, [])" using append_next_NoneD [OF assms(3), of j] len j by (metis prod.collapse)
    have "slot_ok m0 (ss ! j) (iw_mem w) (ad_env ?r) (s, [])"
      using assms(1,2) j unfolding inject_inv_def slot_def by (metis s)
    moreover have "contents (iw_mem w) (ss ! j) = contents m0 (ss ! j)" using assms(1) j by (simp add: inject_inv_def)
    ultimately show ?thesis using s by (auto simp: slot_ok_def)
  qed
  then have patch: "map (\<lambda>(s, _). contents (iw_mem w) s) (ad_work ?r) = map (\<lambda>s. contents m0 s @ ad_env ?r) ss"
    using len by (intro nth_equalityI) (simp_all add: case_prod_beta)
  have same: "slot ?w a b = slot w a b" "ad_env (iw_reqs ?w ! a) = ad_env (iw_reqs w ! a)" for a b
    using assms(2) by (cases "a = i"; simp add: slot_def)+
  have "length (ad_work r) = length ss \<and> (\<forall>p. ad_patch r = Some p \<longrightarrow> p = map (\<lambda>s. contents m0 s @ ad_env r) ss)"
    if "r \<in> set (iw_reqs ?w)" for r
  proof -
    have "r \<in> set (iw_reqs w) \<or> r = ?r\<lparr>ad_patch := Some (map (\<lambda>(s, _). contents (iw_mem w) s) (ad_work ?r))\<rparr>"
      using that set_update_subset_insert by fastforce
    moreover have "length (ad_work r) = length ss \<and> (\<forall>p. ad_patch r = Some p \<longrightarrow> p = map (\<lambda>s. contents m0 s @ ad_env r) ss)"
      if "r \<in> set (iw_reqs w)" using assms(1) that by (simp add: inject_inv_def)
    ultimately show ?thesis using len patch by fastforce
  qed
  moreover have "private_slots m0 ss ?w"
  proof -
    have p: "private_slots m0 ss w" using assms(1) by (simp add: inject_inv_def)
    have l: "length (iw_reqs ?w) = length (iw_reqs w)" by simp
    show ?thesis unfolding private_slots_def same(1) l by (rule p [unfolded private_slots_def])
  qed
  moreover have "slot_ok m0 (ss ! b) (iw_mem ?w) (ad_env (iw_reqs ?w ! a)) (slot ?w a b)" if "a < length (iw_reqs ?w)" "b < length ss" for a b
    unfolding same using assms(1) that by (simp add: inject_inv_def)
  moreover have "mem_lim m0 \<le> mem_lim (iw_mem ?w)" "\<forall>s \<in> set ss. slice_ok (iw_mem ?w) s \<and> contents (iw_mem ?w) s = contents m0 s"
    using assms(1) by (simp_all add: inject_inv_def)
  ultimately show ?thesis unfolding inject_inv_def by blast
qed

text \<open>
  C14. Without spare capacity overlapping requests are safe. When every \<open>Env\<close> slice of the template is full, the first append of each request
  moves to an array of its own: in every interleaving of any number of requests, every patch is the one the
  containers-as-values model gives for that request, and the template keeps its contents.
\<close>

theorem full_slices_safe:
  assumes "runtime_ok R" "\<forall>s \<in> set ss. slice_ok m s \<and> sl_len s = sl_cap s" "template_of m ss sc"
    and "inject_reach R ss (idle_webhook m) w" "r \<in> set (iw_reqs w)" "ad_env r = target_env port addr" "ad_patch r = Some patch"
  shows "patch = map ct_Env (sc_Containers (AddTargetToEnv (Clone sc) port addr)) \<and> template_of (iw_mem w) ss sc"
proof -
  have "inject_inv m ss w"
    using assms(4)
  proof (rule inj.reach_invariant)
    show "inject_inv m ss (idle_webhook m)" using assms(2) by (simp add: inject_inv_def idle_webhook_def private_slots_def)
    show "inject_inv m ss y" if "inject_step R ss x y" "inject_inv m ss x" for x y
      using that(1)
    proof cases
      case (arrive es)
      then show ?thesis using inject_inv_arrive [OF _ that(2)] assms(2) by simp
    next
      case (extend i m' ws)
      then show ?thesis using inject_inv_extend [OF assms(1,2) that(2) extend(2,3)] by (simp add: set_work_def)
    next
      case (marshal i)
      then show ?thesis using inject_inv_marshal [OF that(2) marshal(2,3)] by simp
    qed
  qed
  then have "patch = map (\<lambda>s. contents m s @ target_env port addr) ss" "map (contents (iw_mem w)) ss = map (contents m) ss"
    using assms(5-7) by (auto simp: inject_inv_def)
  then show ?thesis using assms(3) template_env [OF assms(3), of port addr] by (simp add: template_of_def Clone_same)
qed

section \<open>Concrete templates\<close>

text \<open>One container with one variable, in an array with \<open>spare\<close> free places.\<close>

definition sample_var :: EnvVar where
  "sample_var = \<lparr>ev_Name = ''MODE'', ev_Value = ''edge''\<rparr>"

definition sample_slice :: "nat \<Rightarrow> slice" where
  "sample_slice spare = \<lparr>sl_ptr = 0, sl_len = 1, sl_cap = 1 + spare\<rparr>"

definition sample_memory :: "nat \<Rightarrow> EnvVar memory" where
  "sample_memory spare = \<lparr>mem_array = (\<lambda>_. sample_var # replicate spare \<lparr>ev_Name = [], ev_Value = []\<rparr>), mem_lim = 1\<rparr>"

definition sample_sidecar :: SidecarConfig where
  "sample_sidecar = \<lparr>sc_InitContainers = [], sc_Containers = [\<lparr>ct_Name = ''proxy'', ct_Command = [], ct_Args = [], ct_Env = [sample_var],
     ct_Ports = [], ct_rest = []\<rparr>], sc_Volumes = []\<rparr>"

definition doubling :: "EnvVar runtime" where
  "doubling = \<lparr>rt_grow = (\<lambda>n. 2 * n), rt_zero = \<lparr>ev_Name = [], ev_Value = []\<rparr>\<rparr>"

lemma sample_injection:
  "runtime_ok doubling" "template_ok (sample_memory n) [sample_slice n]" "template_of (sample_memory n) [sample_slice n] sample_sidecar"
  by (simp_all add: runtime_ok_def doubling_def template_ok_def template_of_def slice_ok_def contents_def sample_slice_def
      sample_memory_def sample_sidecar_def)

theorem sequential_injection_witness:
  "inject_all doubling [sample_slice 3] [(8080, []), (9090, [])] (sample_memory 3) =
     map (\<lambda>(port, addr). map ct_Env (sc_Containers (AddTargetToEnv (Clone sample_sidecar) port addr))) [(8080, []), (9090, [])]"
  by (rule sequential_injection [OF sample_injection])


theorem full_slices_safe_witness:
  "\<exists>w r patch. inject_reach doubling [sample_slice 0] (idle_webhook (sample_memory 0)) w \<and> r \<in> set (iw_reqs w) \<and> ad_patch r = Some patch \<and>
     patch = map ct_Env (sc_Containers (AddTargetToEnv (Clone sample_sidecar) 8080 []))"
proof -
  let ?m = "sample_memory 0" and ?ss = "[sample_slice 0]" and ?es = "target_env 8080 []"
  let ?w1 = "\<lparr>iw_mem = ?m, iw_reqs = [admit ?ss ?es]\<rparr>"
  obtain m' ss' where r: "AddTargetToEnv_mem doubling ?es ?ss ?m = (m', ss')" by (meson prod.exhaust)
  let ?w2 = "set_work 0 m' (finished ss') ?w1"
  let ?w3 = "?w2\<lparr>iw_reqs := (iw_reqs ?w2)[0 := (iw_reqs ?w2 ! 0)\<lparr>ad_patch := Some (map (\<lambda>(s, _). contents (iw_mem ?w2) s) (ad_work (iw_reqs ?w2 ! 0)))\<rparr>]\<rparr>"
  have "inject_reach doubling ?ss (idle_webhook ?m) ?w1"
    using inject_reach.step [OF inject_reach.init inject_step.arrive, of doubling ?ss "idle_webhook ?m" ?es] by (simp add: idle_webhook_def)
  moreover have "inject_reach doubling ?ss ?w1 ?w2" by (rule request_runs [of 0 ?w1 ?es ?ss]) (simp_all add: admit_def r del: AddTargetToEnv_mem.simps)
  moreover have "inject_step doubling ?ss ?w2 ?w3"
    by (rule inject_step.marshal) (simp_all add: append_next_None, simp add: set_work_def admit_def)
  ultimately have reach: "inject_reach doubling ?ss (idle_webhook ?m) ?w3" using inj.reach_trans inject_reach.step by blast
  have r3: "iw_reqs ?w3 ! 0 \<in> set (iw_reqs ?w3)" by (rule nth_mem) (simp add: set_work_def)
  have full: "\<forall>s \<in> set ?ss. slice_ok ?m s \<and> sl_len s = sl_cap s"
    using sample_injection(2) [of 0] by (simp add: template_ok_def sample_slice_def)
  have "ad_env (iw_reqs ?w3 ! 0) = ?es" by (simp add: set_work_def admit_def)
  moreover obtain patch where p: "ad_patch (iw_reqs ?w3 ! 0) = Some patch" by (simp add: set_work_def)
  ultimately have "patch = map ct_Env (sc_Containers (AddTargetToEnv (Clone sample_sidecar) 8080 []))"
    using full_slices_safe [OF sample_injection(1) full sample_injection(3) reach r3] by blast
  then show ?thesis using reach r3 p by blast
qed

end
