(* ===== verification/Grpc_Call.thy ===== *)
theory Grpc_Call
  imports Handler Grpc_Pool
begin

text \<open>
  The gRPC calls of a broker, many at a time: \<open>handler\<close> of \<open>pkg/endpoint/pool/handler.go\<close> with the \<open>GetConn\<close> of
  \<open>internal/broker/endpoint/grpc/endpoint.go\<close>, the dispatcher of the theory \<open>Broker\<close> and the connection
  pool of the theory \<open>Grpc_Pool\<close>. A call is a goroutine: it puts an item into a queue, waits for
  the dispatcher to close its channel, takes a client from the pool, relays its messages and gives the client back; a
  \<open>GetConn\<close> that fails is repeated from the start, which queues the call again. The steps of the calls and of the dispatcher are interleaved.

  The state has the dispatcher's world, the pool the server's field \<open>Pool\<close> points to, and the list of calls,
  in the order they arrived. The wait channels a call has been given are kept with it, for the statements.
\<close>

section \<open>The service group of a call\<close>

text \<open>
  The server has a method \<open>ServiceGroupFromContext\<close> of its own, which \<open>GetConn\<close> does not call; it reads the same key as the
  function of \<open>pkg/utils\<close>, under another name, and agrees with it.
\<close>

definition Broker_ServiceGroupFromContext :: "ctx \<Rightarrow> string" where
  "Broker_ServiceGroupFromContext c =
     (case FromIncomingContext c ServiceGroupContext of
        None \<Rightarrow> ''default''
      | Some t \<Rightarrow> foldl (\<lambda>serviceGroup e. e) ''default'' t)"

lemma ServiceGroup_agree: "Broker_ServiceGroupFromContext c = ServiceGroupFromContext c"
  by (simp add: Broker_ServiceGroupFromContext_def ServiceGroupFromContext_def ServiceGroupContext_def ServiceGroupTag_def)

section \<open>Calls\<close>

text \<open>
  Where a call is: before its \<open>n\<close>th retry of \<open>GetConn\<close> (the first attempt has \<open>n = 0\<close>), at \<open><-waitChan\<close>, at
  \<open>Pool.Acquire\<close>, relaying messages on a client, returned with the goroutine of \<open>conn.Close\<close> not done, and done.
\<close>

datatype call_pc =
    Attempt nat
  | Waiting nat nat
  | Acquiring nat
  | Connected nat
  | Closing nat "go_error option"
  | Finished "go_error option"

record grpc_call =
  gc_ctx :: ctx
  gc_pc :: call_pc
  gc_chans :: "nat list"

record 'x call_world =
  gw_broker :: "'x broker_world"
  gw_pool :: pool_world
  gw_calls :: "grpc_call list"

text \<open>What \<open>handler\<close> does after its \<open>n\<close>th retry has failed: the next one, or the return of the last error.\<close>

definition GetConn_failed :: "nat \<Rightarrow> go_error \<Rightarrow> call_pc" where
  "GetConn_failed n err = (if n < grpcRetryTimesInt then Attempt (Suc n) else Finished (Some err))"

text \<open>\<open>GetConn\<close> up to \<open><-waitChan\<close>; the counter of the wait channels is the world's.\<close>

definition GetConn_enqueue :: "int \<Rightarrow> nat \<Rightarrow> grpc_call \<Rightarrow> 'x broker_world \<Rightarrow> grpc_call \<times> 'x broker_world" where
  "GetConn_enqueue now n k b =
     (if \<not> d_EnableFlowControl (bw_srv b) then (k\<lparr>gc_pc := Acquiring n\<rparr>, b)
      else case Grpc_EnqueueRequests (ServiceGroupFromContext (gc_ctx k)) now (bw_next b) (bw_srv b) of
             (Inl err, item, s) \<Rightarrow>
               (k\<lparr>gc_pc := GetConn_failed n err\<rparr>, b\<lparr>bw_srv := s, bw_next := bw_next b + 1\<rparr>)
           | (Inr waitChan, item, s) \<Rightarrow>
               (k\<lparr>gc_pc := Waiting n waitChan, gc_chans := gc_chans k @ [waitChan]\<rparr>,
                b\<lparr>bw_srv := s, bw_next := bw_next b + 1, bw_accepted := bw_accepted b @ [item]\<rparr>))"

text \<open>\<open>GetConn\<close> from \<open>Pool.Acquire\<close> on; \<open>None\<close> while no client can be received.\<close>

definition GetConn_acquire ::
  "acquire_case \<Rightarrow> int \<Rightarrow> dial \<Rightarrow> nat \<Rightarrow> grpc_call \<Rightarrow> pool_world \<Rightarrow> (grpc_call \<times> pool_world) option" where
  "GetConn_acquire choice now dial n k p =
     (case Acquire choice now dial p of
        None \<Rightarrow> None
      | Some (Inr conn, p') \<Rightarrow> Some (k\<lparr>gc_pc := Connected conn\<rparr>, p')
      | Some (Inl _, p') \<Rightarrow> Some (k\<lparr>gc_pc := GetConn_failed n (StatusErr Unimplemented ''unknown method'')\<rparr>, p'))"

section \<open>The dispatcher of a gRPC broker\<close>

text \<open>
  \<open>ProcessRequests\<close> and \<open>HandleRequest\<close> of the gRPC server. Their code repeats that of the HTTP server, for the other type of
  item and without forwarding: the caller is woken and forwards its call itself.
\<close>

definition Grpc_ProcessRequests_top ::
  "(QueueItem, 'c) weightedrand_pkg \<Rightarrow> string list \<Rightarrow> bool \<Rightarrow> 'x dispatcher_scheme \<Rightarrow> pc \<times> 'x dispatcher_scheme" where
  "Grpc_ProcessRequests_top W ks ctxDone s =
     (if ctxDone \<or> d_stopChan s then (Returned, s)
      else case QueuePool_Pop (Scheduler_Pick W ResourceName) ks (d_Scheduler s) (d_QueuePool s) of
             (res, sched, qp) \<Rightarrow>
               (let s1 = s\<lparr>d_Scheduler := sched, d_QueuePool := qp\<rparr>
                in case res of
                     Inr (Some (GRPC grpcItem)) \<Rightarrow>
                       (HaveItem (GRPC grpcItem),
                        s1\<lparr>d_metrics := d_metrics s1 @
                             [BrokerProcessingDuration (d_ScheduleMethod s1) (ResourceName (GRPC grpcItem))]\<rparr>)
                   | _ \<Rightarrow> (AtTop, s1)))"

definition Grpc_HandleRequest ::
  "GRPCItem \<Rightarrow> nat list \<Rightarrow> 'x dispatcher_scheme \<Rightarrow> (nat list \<times> 'x dispatcher_scheme) go_result" where
  "Grpc_HandleRequest grpcItem closed s =
     (case close_chan (gi_WaitChan grpcItem) closed of
        Inl e \<Rightarrow> Inl e
      | Inr closed' \<Rightarrow> Inr (closed', s\<lparr>d_WorkPool := d_WorkPool s - 1\<rparr>))"

inductive Grpc_ProcessRequests :: "'x broker_world \<Rightarrow> 'x broker_world \<Rightarrow> bool" where
  top:
    "bw_pc b = AtTop \<Longrightarrow> weightedrand_ok (W :: (QueueItem, QueueItem) weightedrand_pkg) \<Longrightarrow>
     map_order ks (qp_Queues (d_QueuePool (bw_srv b))) \<Longrightarrow>
     Grpc_ProcessRequests_top W ks (bw_ctxDone b) (bw_srv b) = (c, s) \<Longrightarrow>
     Grpc_ProcessRequests b (b\<lparr>bw_srv := s, bw_pc := c, bw_served := bw_served b @ popped c\<rparr>)"
| select:
    "bw_pc b = HaveItem item \<Longrightarrow>
     ProcessRequests_select ch (bw_ctxDone b) item (bw_srv b) = Some (c, s) \<Longrightarrow>
     Grpc_ProcessRequests b (b\<lparr>bw_srv := s, bw_pc := c\<rparr>)"
| handle:
    "bw_pc b = Handling (GRPC grpcItem) \<Longrightarrow> Grpc_HandleRequest grpcItem (bw_closed b) (bw_srv b) = Inr (closed, s) \<Longrightarrow>
     Grpc_ProcessRequests b (b\<lparr>bw_srv := s, bw_pc := AtTop, bw_closed := closed\<rparr>)"

text \<open>A gRPC broker queues gRPC items only, and its dispatcher is the one of the theory \<open>Broker\<close> for these items.\<close>

abbreviation grpc_item :: "QueueItem \<Rightarrow> bool" where
  "grpc_item i \<equiv> \<not> is_http i"

lemma grpc_kind: "item_kind grpc_item"
  by (rule item_kind_http)

lemma Grpc_top_eq: "Grpc_ProcessRequests_top W ks ctxDone s = ProcessRequests_top grpc_item W ks ctxDone s"
  by (auto simp: Grpc_ProcessRequests_top_def ProcessRequests_top_def Let_def
      split: prod.splits sum.splits option.splits QueueItem.splits)

lemma Grpc_handle_eq: "Grpc_HandleRequest g closed s = HandleRequest (GRPC g) closed s"
  by (simp add: Grpc_HandleRequest_def HandleRequest_def handle_metrics_def split: sum.split)

lemma Grpc_ProcessRequests_step:
  "Grpc_ProcessRequests b b' \<Longrightarrow> broker_step grpc_item b b' \<and> bw_next b' = bw_next b"
  by (induction rule: Grpc_ProcessRequests.induct)
    (auto simp: Grpc_top_eq Grpc_handle_eq intro: broker_step.top broker_step.select broker_step.handle)

text \<open>Conversely, the steps of that theory that take no new wait channel are steps of this dispatcher, a cancellation or a stop.\<close>

definition hand_ok :: "(QueueItem \<Rightarrow> bool) \<Rightarrow> 'x broker_world \<Rightarrow> bool" where
  "hand_ok mine b \<longleftrightarrow> list_all mine (in_flight (bw_pc b))"

lemma hand_ok_step: "broker_step mine b b' \<Longrightarrow> hand_ok mine b \<Longrightarrow> hand_ok mine b'"
proof (induction rule: broker_step.induct)
  case (top b W ks c s)
  then show ?case
    by (auto simp: hand_ok_def in_flight_def ProcessRequests_top_def Let_def split: if_splits prod.splits sum.splits option.splits)
next
  case (select b item ch c s)
  then show ?case
    by (auto simp: hand_ok_def in_flight_def ProcessRequests_select_def split: select_case.splits if_splits)
qed (auto simp: hand_ok_def in_flight_def)

lemma grpc_step_cases:
  assumes "broker_step grpc_item b b'" "bw_next b' = bw_next b" "hand_ok grpc_item b"
  shows "Grpc_ProcessRequests b b' \<or> b' = b\<lparr>bw_ctxDone := True\<rparr> \<or> (\<exists>s. Stop (bw_srv b) = Inr s \<and> b' = b\<lparr>bw_srv := s\<rparr>)"
  using assms(1)
proof (cases rule: broker_step.cases)
  case (top W ks c s)
  then show ?thesis using Grpc_ProcessRequests.top [of b W ks c s] by (simp add: Grpc_top_eq)
next
  case (select item ch c s)
  then show ?thesis using Grpc_ProcessRequests.select by blast
next
  case (handle item closed s)
  then obtain g where "item = GRPC g" using assms(3) by (cases item) (auto simp: hand_ok_def in_flight_def)
  then show ?thesis using handle Grpc_ProcessRequests.handle [of b g closed s] by (simp add: Grpc_handle_eq)
qed (use assms(2) in auto)

section \<open>Interleavings\<close>

definition set_call :: "nat \<Rightarrow> grpc_call \<Rightarrow> 'x call_world \<Rightarrow> 'x call_world" where
  "set_call i k w = w\<lparr>gw_calls := (gw_calls w)[i := k]\<rparr>"

text \<open>
  The steps. What a connected call returns, after \<open>NewClientStream\<close> and the relay, is the subject of the theory
  \<open>Handler\<close>; here it is any result.
\<close>

inductive call_step :: "'x call_world \<Rightarrow> 'x call_world \<Rightarrow> bool" where
  arrive: "call_step w (w\<lparr>gw_calls := gw_calls w @ [\<lparr>gc_ctx = c, gc_pc = Attempt 0, gc_chans = []\<rparr>]\<rparr>)"
| enqueue:
    "i < length (gw_calls w) \<Longrightarrow> gc_pc (gw_calls w ! i) = Attempt n \<Longrightarrow>
     GetConn_enqueue now n (gw_calls w ! i) (gw_broker w) = (k, b) \<Longrightarrow>
     call_step w (set_call i k (w\<lparr>gw_broker := b\<rparr>))"
| wake:
    "i < length (gw_calls w) \<Longrightarrow> gc_pc (gw_calls w ! i) = Waiting n waitChan \<Longrightarrow>
     waitChan \<in> set (bw_closed (gw_broker w)) \<Longrightarrow>
     call_step w (set_call i ((gw_calls w ! i)\<lparr>gc_pc := Acquiring n\<rparr>) w)"
| acquire:
    "i < length (gw_calls w) \<Longrightarrow> gc_pc (gw_calls w ! i) = Acquiring n \<Longrightarrow>
     GetConn_acquire choice now dial n (gw_calls w ! i) (gw_pool w) = Some (k, p) \<Longrightarrow>
     call_step w (set_call i k (w\<lparr>gw_pool := p\<rparr>))"
| return:
    "i < length (gw_calls w) \<Longrightarrow> gc_pc (gw_calls w ! i) = Connected conn \<Longrightarrow>
     call_step w (set_call i ((gw_calls w ! i)\<lparr>gc_pc := Closing conn res\<rparr>) w)"
| release:
    "i < length (gw_calls w) \<Longrightarrow> gc_pc (gw_calls w ! i) = Closing conn res \<Longrightarrow>
     Client_Close conn now (gw_pool w) = Some p \<Longrightarrow>
     call_step w (set_call i ((gw_calls w ! i)\<lparr>gc_pc := Finished res\<rparr>) (w\<lparr>gw_pool := p\<rparr>))"
| dispatch: "Grpc_ProcessRequests (gw_broker w) b \<Longrightarrow> call_step w (w\<lparr>gw_broker := b\<rparr>)"
| cancel: "call_step w (w\<lparr>gw_broker := (gw_broker w)\<lparr>bw_ctxDone := True\<rparr>\<rparr>)"
| stop: "Stop (bw_srv (gw_broker w)) = Inr s \<Longrightarrow> call_step w (w\<lparr>gw_broker := (gw_broker w)\<lparr>bw_srv := s\<rparr>\<rparr>)"

inductive call_reach :: "'x call_world \<Rightarrow> 'x call_world \<Rightarrow> bool" for w0 where
  init: "call_reach w0 w0"
| step: "call_reach w0 w \<Longrightarrow> call_step w w' \<Longrightarrow> call_reach w0 w'"

interpretation calls: step_system call_step call_reach
proof unfold_locales
  show "P b" if "call_reach a b" "P a" "\<And>x y. P x \<Longrightarrow> call_step x y \<Longrightarrow> P y" for a b :: "'x call_world" and P
    using that by (induction rule: call_reach.induct) auto
qed (auto intro: call_reach.intros)

definition call_init :: "GRPCBrokerServer \<Rightarrow> \<lparr>gb_Addr :: string, gb_Pool :: pool_world\<rparr> call_world" where
  "call_init srv = \<lparr>gw_broker = init_world srv, gw_pool = gb_Pool srv, gw_calls = []\<rparr>"

section \<open>Agreement with the handler\<close>

text \<open>
  The steps of a call are those of the definitions of the theory \<open>Handler\<close>: its retry loop, unrolled once, goes where
  \<open>GetConn_failed\<close> goes, and the end of \<open>GetConn\<close> has the result of \<open>Broker_GetConn\<close>.
\<close>

lemma retry_GetConn_failed:
  "n \<le> grpcRetryTimesInt \<Longrightarrow>
   retry (grpcRetryTimesInt - n) ms f err s =
     (case GetConn_failed n err of
        Attempt m \<Rightarrow>
          (case f s of
             (Inr a, s') \<Rightarrow> (Inr a, s', 0)
           | (Inl e, s') \<Rightarrow> (let (r, s'', t) = retry (grpcRetryTimesInt - m) ms f e s' in (r, s'', ms + t)))
      | _ \<Rightarrow> (Inl err, s, 0))"
  by (cases "grpcRetryTimesInt - n") (auto simp: GetConn_failed_def Suc_diff_Suc [symmetric] split: sum.splits prod.splits)

lemma GetConn_acquire_result:
  "Acquire choice now dial p = Some (acq, p') \<Longrightarrow>
   GetConn_acquire choice now dial n k p =
     Some (k\<lparr>gc_pc := (case Broker_GetConn flow (gc_ctx k) (Inr c) acq of
                         Inl err \<Rightarrow> GetConn_failed n err | Inr (md, conn) \<Rightarrow> Connected conn)\<rparr>, p')"
  by (cases flow; cases acq) (simp_all add: GetConn_acquire_def Broker_GetConn_def)

section \<open>Every step is a step of its parts\<close>

text \<open>The part of \<open>GetConn\<close> before the wait is an arrival of the broker, or nothing when there is no flow control.\<close>

lemma enqueue_cases:
  assumes "GetConn_enqueue now n k b = (k', b')"
  obtains (off) "\<not> d_EnableFlowControl (bw_srv b)" "b' = b" "k' = k\<lparr>gc_pc := Acquiring n\<rparr>"
  | (full) err where "d_EnableFlowControl (bw_srv b)" "broker_step grpc_item b b'" "k' = k\<lparr>gc_pc := GetConn_failed n err\<rparr>"
      "bw_accepted b' = bw_accepted b" "bw_closed b' = bw_closed b"
  | (queued) i where "d_EnableFlowControl (bw_srv b)" "broker_step grpc_item b b'" "bw_accepted b' = bw_accepted b @ [i]"
      "WaitChan i = bw_next b" "k' = k\<lparr>gc_pc := Waiting n (bw_next b), gc_chans := gc_chans k @ [bw_next b]\<rparr>"
      "bw_closed b' = bw_closed b"
proof (cases "d_EnableFlowControl (bw_srv b)")
  case True
  let ?g = "ServiceGroupFromContext (gc_ctx k)"
  obtain res item s where e: "Grpc_EnqueueRequests ?g now (bw_next b) (bw_srv b) = (res, item, s)" by (metis prod_cases3)
  have m: "grpc_item (grpc_request_item ?g now (bw_next b))" by (simp add: grpc_request_item_def)
  note st = broker_step.grpc_arrival [where mine = grpc_item, OF m e]
  have inr: "res = Inr c \<Longrightarrow> c = bw_next b" for c
    using e by (auto simp: Grpc_EnqueueRequests_def split: prod.splits option.splits)
  have chan: "WaitChan item = bw_next b"
    using e push_item [of "d_QueuePool (bw_srv b)" ?g "grpc_request_item ?g now (bw_next b)"] item_group(4) [of ?g now "bw_next b"]
    by (auto simp: Grpc_EnqueueRequests_def split: prod.splits option.splits)
  show thesis
  proof (cases res)
    case (Inl err)
    have b': "b' = b\<lparr>bw_srv := s, bw_next := bw_next b + 1\<rparr>" "k' = k\<lparr>gc_pc := GetConn_failed n err\<rparr>"
      using assms True e Inl by (auto simp: GetConn_enqueue_def)
    then show thesis using True st Inl by (intro full [of err]) simp_all
  next
    case (Inr c)
    have b': "b' = b\<lparr>bw_srv := s, bw_next := bw_next b + 1, bw_accepted := bw_accepted b @ [item]\<rparr>"
      "k' = k\<lparr>gc_pc := Waiting n (bw_next b), gc_chans := gc_chans k @ [bw_next b]\<rparr>"
      using assms True e Inr inr by (auto simp: GetConn_enqueue_def)
    then show thesis using True st Inr inr chan by (intro queued [of item]) simp_all
  qed
next
  case False
  then show thesis using assms by (intro off) (auto simp: GetConn_enqueue_def)
qed

lemma acquire_cases:
  assumes "GetConn_acquire choice now dial n k p = Some (k', p')"
  obtains (none) err where "pool_trans p p'" "k' = k\<lparr>gc_pc := GetConn_failed n err\<rparr>" "w_out p' = w_out p"
  | (client) conn where "pool_trans p p'" "k' = k\<lparr>gc_pc := Connected conn\<rparr>" "w_out p' = conn # w_out p"
proof -
  obtain r where a: "Acquire choice now dial p = Some (r, p')"
    using assms by (auto simp: GetConn_acquire_def split: option.splits sum.splits prod.splits)
  note t = pool_trans.acquire [OF a]
  from a show thesis
  proof (cases rule: Acquire_cases)
    case (refused e)
    then show thesis using assms a t by (intro none) (auto simp: GetConn_acquire_def)
  next
    case (reused c cs)
    then show thesis using assms a t client [of c] by (simp add: GetConn_acquire_def hand_out_def)
  next
    case (renewed c cs d w2)
    then have "w_out p' = d # w_out p"
      using createClient_Inr [OF renewed(5)] by (simp add: hand_out_def)
    then show thesis using assms a t renewed client [of d] by (simp add: GetConn_acquire_def)
  next
    case (failed c cs)
    then show thesis using assms a t by (intro none) (auto simp: GetConn_acquire_def)
  qed
qed

lemma Client_Close_out: "Client_Close a now p = Some p' \<Longrightarrow> w_out p' = remove1 a (w_out p)"
  by (auto simp: Client_Close_def Let_def split: if_splits option.splits)

text \<open>What the dispatcher leaves as it is, and what only grows.\<close>

lemma step_closed: "broker_step mine b b' \<Longrightarrow> set (bw_closed b) \<subseteq> set (bw_closed b')"
  by (induction rule: broker_step.induct) (auto simp: HandleRequest_def close_chan_def split: sum.splits if_splits)

lemma step_flow: "broker_step mine b b' \<Longrightarrow> d_EnableFlowControl (bw_srv b') = d_EnableFlowControl (bw_srv b)"
proof (induction rule: broker_step.induct)
  case (select b item ch c s)
  then show ?case by (auto simp: ProcessRequests_select_def split: select_case.splits if_splits)
next
  case (top b W ks c s)
  then show ?case
    by (auto simp: ProcessRequests_top_def Let_def split: if_splits prod.splits sum.splits option.splits)
qed (auto simp: Http_EnqueueRequests_def Grpc_EnqueueRequests_def Let_def HandleRequest_def Stop_def
    split: prod.splits option.splits sum.splits if_splits)

section \<open>Invariant\<close>

text \<open>The clients a call holds, and the number of times it may have been queued.\<close>

fun held :: "call_pc \<Rightarrow> nat list" where
  "held (Connected conn) = [conn]"
| "held (Closing conn res) = [conn]"
| "held _ = []"

fun attempts :: "call_pc \<Rightarrow> nat" where
  "attempts (Attempt n) = n"
| "attempts (Waiting n c) = Suc n"
| "attempts (Acquiring n) = Suc n"
| "attempts _ = Suc grpcRetryTimesInt"

text \<open>
  What is known of one call, for the closed channels \<open>closed\<close>: the dispatcher has let it through at every attempt but the one it waits for,
  and a call at the pool or beyond was let through at least once when there is flow control.
\<close>

fun admitted :: "nat set \<Rightarrow> bool \<Rightarrow> call_pc \<Rightarrow> nat list \<Rightarrow> bool" where
  "admitted closed flow (Waiting n c) chans \<longleftrightarrow> (\<exists>cs. chans = cs @ [c] \<and> set cs \<subseteq> closed)"
| "admitted closed flow (Attempt n) chans \<longleftrightarrow> n \<le> grpcRetryTimesInt \<and> set chans \<subseteq> closed"
| "admitted closed flow (Finished r) chans \<longleftrightarrow> set chans \<subseteq> closed"
| "admitted closed flow _ chans \<longleftrightarrow> set chans \<subseteq> closed \<and> (flow \<longrightarrow> chans \<noteq> [])"

definition call_ok :: "'x broker_world \<Rightarrow> grpc_call \<Rightarrow> bool" where
  "call_ok b k \<longleftrightarrow> length (gc_chans k) \<le> attempts (gc_pc k) \<and> attempts (gc_pc k) \<le> Suc grpcRetryTimesInt \<and>
     admitted (set (bw_closed b)) (d_EnableFlowControl (bw_srv b)) (gc_pc k) (gc_chans k)"

definition call_inv :: "'x call_world \<Rightarrow> bool" where
  "call_inv w \<longleftrightarrow> broker_inv grpc_item (gw_broker w) \<and> world_inv (gw_pool w) \<and>
     mset (w_out (gw_pool w)) = mset (concat (map (held \<circ> gc_pc) (gw_calls w))) \<and>
     mset (map WaitChan (bw_accepted (gw_broker w))) = mset (concat (map gc_chans (gw_calls w))) \<and>
     list_all (call_ok (gw_broker w)) (gw_calls w)"

lemma mset_concat_update:
  "i < length ks \<Longrightarrow> mset (concat (map f (ks[i := k]))) + mset (f (ks ! i)) = mset (concat (map f ks)) + mset (f k)"
  by (induction ks arbitrary: i) (auto split: nat.split simp: less_Suc_eq_0_disj)

lemma list_all_update: "list_all P ks \<Longrightarrow> P k \<Longrightarrow> list_all P (ks[i := k])"
  by (auto simp: list_all_iff dest!: subsetD [OF set_update_subset_insert])

lemma admitted_mono: "admitted C f pc cs \<Longrightarrow> C \<subseteq> C' \<Longrightarrow> admitted C' f pc cs"
  by (cases pc) auto

lemma call_ok_step:
  assumes "call_ok b k" "broker_step mine b b'" shows "call_ok b' k"
  using assms(1) admitted_mono [OF _ step_closed [OF assms(2)]] by (simp add: call_ok_def step_flow [OF assms(2)])

lemma GetConn_failed_simps [simp]:
  "held (GetConn_failed n err) = []" "n \<le> grpcRetryTimesInt \<Longrightarrow> attempts (GetConn_failed n err) = Suc n"
  "admitted C f (GetConn_failed n err) cs \<longleftrightarrow> set cs \<subseteq> C"
  by (auto simp: GetConn_failed_def)

text \<open>One call moves: what it holds and what it was given change by the difference of its two states.\<close>

lemma call_inv_update:
  assumes "call_inv w" "i < length (gw_calls w)" "broker_inv grpc_item b" "world_inv p"
    and "mset (w_out p) + mset (held (gc_pc (gw_calls w ! i))) = mset (w_out (gw_pool w)) + mset (held (gc_pc k))"
    and "mset (map WaitChan (bw_accepted b)) + mset (gc_chans (gw_calls w ! i)) =
         mset (map WaitChan (bw_accepted (gw_broker w))) + mset (gc_chans k)"
    and "list_all (call_ok b) (gw_calls w)" "call_ok b k"
  shows "call_inv (set_call i k (w\<lparr>gw_broker := b, gw_pool := p\<rparr>))"
proof -
  note c = mset_concat_update [OF assms(2), where k = k]
  have cancel: "x = y" if "y + h = o1 + h'" "x + h = o2 + h'" "o2 = o1" for x y h h' o1 o2 :: "nat multiset"
    using that by (metis add_right_cancel)
  have inv: "mset (w_out (gw_pool w)) = mset (concat (map (held \<circ> gc_pc) (gw_calls w)))"
    "mset (map WaitChan (bw_accepted (gw_broker w))) = mset (concat (map gc_chans (gw_calls w)))"
    using assms(1) by (simp_all add: call_inv_def)
  have "mset (w_out p) = mset (concat (map (held \<circ> gc_pc) ((gw_calls w)[i := k])))"
    by (rule cancel [OF c [where f = "held \<circ> gc_pc", unfolded comp_def] assms(5) inv(1) [unfolded comp_def], folded comp_def])
  moreover have "mset (map WaitChan (bw_accepted b)) = mset (concat (map gc_chans ((gw_calls w)[i := k])))"
    by (rule cancel [OF c assms(6) inv(2)])
  ultimately show ?thesis
    using assms(3,4,7,8) by (simp add: call_inv_def set_call_def list_all_update)
qed

lemma call_inv_at: "call_inv w \<Longrightarrow> i < length (gw_calls w) \<Longrightarrow> call_ok (gw_broker w) (gw_calls w ! i)"
  by (simp add: call_inv_def list_all_length)

lemma held_out:
  assumes "call_inv w" "i < length (gw_calls w)"
  shows "set (held (gc_pc (gw_calls w ! i))) \<subseteq> set (w_out (gw_pool w))"
proof -
  have "set (w_out (gw_pool w)) = set (concat (map (held \<circ> gc_pc) (gw_calls w)))"
    by (rule mset_eq_setD) (use assms(1) in \<open>simp add: call_inv_def\<close>)
  then show ?thesis using nth_mem [OF assms(2)] by auto
qed

lemma world_inv_trans: "pool_trans p p' \<Longrightarrow> world_inv p \<Longrightarrow> world_inv p'"
  using world_inv_reach [OF pools.reach_one] .

text \<open>A step of the broker that takes no new wait channel.\<close>

lemma call_inv_broker:
  assumes "call_inv w" "broker_step grpc_item (gw_broker w) b" "bw_next b = bw_next (gw_broker w)"
  shows "call_inv (w\<lparr>gw_broker := b\<rparr>)"
proof -
  have "bw_accepted b = bw_accepted (gw_broker w)" using step_accepted [OF assms(2) grpc_kind] assms(3) by auto
  then show ?thesis using assms(1) call_ok_step [OF _ assms(2)] broker_inv_step [OF assms(2) grpc_kind]
    by (auto simp: call_inv_def list_all_iff)
qed

lemma call_inv_step [inv_intros]:
  assumes "call_step w w'" "call_inv w" shows "call_inv w'"
  using assms(1)
proof (cases rule: call_step.cases)
  case (arrive c)
  then show ?thesis using assms(2) by (simp add: call_inv_def call_ok_def)
next
  case (enqueue i n now k b)
  note ok = call_inv_at [OF assms(2) enqueue(2)] and inv = assms(2) [unfolded call_inv_def]
  have "call_inv (set_call i k (w\<lparr>gw_broker := b, gw_pool := gw_pool w\<rparr>))"
    using enqueue(4)
  proof (cases rule: enqueue_cases)
    case off
    then show ?thesis using inv ok enqueue(3)
      by (intro call_inv_update [OF assms(2) enqueue(2)]) (auto simp: call_ok_def)
  next
    case (full err)
    then show ?thesis using inv ok enqueue(3) call_ok_step [OF _ full(2)] call_ok_step [OF ok full(2)] broker_inv_step [OF full(2) grpc_kind]
      by (intro call_inv_update [OF assms(2) enqueue(2)]) (auto simp: call_ok_def list_all_iff)
  next
    case (queued item)
    then show ?thesis using inv ok enqueue(3) call_ok_step [OF _ queued(2)] broker_inv_step [OF queued(2) grpc_kind]
      by (intro call_inv_update [OF assms(2) enqueue(2)]) (auto simp: call_ok_def list_all_iff)
  qed
  then show ?thesis using enqueue(1) by simp
next
  case (wake i n c)
  note ok = call_inv_at [OF assms(2) wake(2)] and inv = assms(2) [unfolded call_inv_def]
  have "call_inv (set_call i ((gw_calls w ! i)\<lparr>gc_pc := Acquiring n\<rparr>) (w\<lparr>gw_broker := gw_broker w, gw_pool := gw_pool w\<rparr>))"
    using inv ok wake(3,4) by (intro call_inv_update [OF assms(2) wake(2)]) (auto simp: call_ok_def)
  then show ?thesis using wake(1) by simp
next
  case (acquire i n choice now dial k p)
  note ok = call_inv_at [OF assms(2) acquire(2)] and inv = assms(2) [unfolded call_inv_def]
  have "call_inv (set_call i k (w\<lparr>gw_broker := gw_broker w, gw_pool := p\<rparr>))"
    using acquire(4)
  proof (cases rule: acquire_cases)
    case (none err)
    then show ?thesis using inv ok acquire(3) world_inv_trans [OF none(1)]
      by (intro call_inv_update [OF assms(2) acquire(2)]) (auto simp: call_ok_def)
  next
    case (client conn)
    then show ?thesis using inv ok acquire(3) world_inv_trans [OF client(1)]
      by (intro call_inv_update [OF assms(2) acquire(2)]) (auto simp: call_ok_def)
  qed
  then show ?thesis using acquire(1) by simp
next
  case (return i conn res)
  note ok = call_inv_at [OF assms(2) return(2)] and inv = assms(2) [unfolded call_inv_def]
  have "call_inv (set_call i ((gw_calls w ! i)\<lparr>gc_pc := Closing conn res\<rparr>) (w\<lparr>gw_broker := gw_broker w, gw_pool := gw_pool w\<rparr>))"
    using inv ok return(3) by (intro call_inv_update [OF assms(2) return(2)]) (auto simp: call_ok_def)
  then show ?thesis using return(1) by simp
next
  case (release i conn res now p)
  note ok = call_inv_at [OF assms(2) release(2)] and inv = assms(2) [unfolded call_inv_def]
  have mem: "conn \<in> set (w_out (gw_pool w))" using held_out [OF assms(2) release(2)] release(3) by simp
  have out: "mset (w_out p) + {#conn#} = mset (w_out (gw_pool w))"
    using mem by (simp add: Client_Close_out [OF release(4)])
  have "call_inv (set_call i ((gw_calls w ! i)\<lparr>gc_pc := Finished res\<rparr>) (w\<lparr>gw_broker := gw_broker w, gw_pool := p\<rparr>))"
    using inv ok release(3) world_inv_trans [OF pool_trans.release [OF mem release(4)]] out
    by (intro call_inv_update [OF assms(2) release(2)]) (auto simp: call_ok_def)
  then show ?thesis using release(1) by simp
next
  case (dispatch b)
  then show ?thesis using call_inv_broker [OF assms(2)] Grpc_ProcessRequests_step by blast
next
  case cancel
  then show ?thesis using call_inv_broker [OF assms(2) broker_step.cancel] by simp
next
  case (stop s)
  then show ?thesis using call_inv_broker [OF assms(2) broker_step.stop [OF stop(2)]] by simp
qed

lemma call_inv_reach: "call_reach w0 w \<Longrightarrow> call_inv w0 \<Longrightarrow> call_inv w"
  using calls.reach_invariant [of w0 w call_inv] call_inv_step by blast

text \<open>Seen by the broker and by the pool, a run of calls is a run of theirs.\<close>

lemma call_step_parts:
  assumes "call_step w w'" "call_inv w"
  shows "broker_reach grpc_item (gw_broker w) (gw_broker w') \<and> pool_reach (gw_pool w) (gw_pool w')"
  using assms(1)
proof (cases rule: call_step.cases)
  case (enqueue i n now k b)
  have "b = gw_broker w \<or> broker_step grpc_item (gw_broker w) b"
    using enqueue(4) by (cases rule: enqueue_cases) auto
  then show ?thesis using enqueue(1) by (auto simp: set_call_def intro: broker_reach.init brk.reach_one pool_reach.start)
next
  case (acquire i n choice now dial k p)
  have "pool_trans (gw_pool w) p" using acquire(4) by (cases rule: acquire_cases) auto
  then show ?thesis using acquire(1) by (auto simp: set_call_def intro: broker_reach.init pools.reach_one)
next
  case (release i conn res now p)
  have "conn \<in> set (w_out (gw_pool w))" using held_out [OF assms(2) release(2)] release(3) by simp
  then show ?thesis using release(1) pools.reach_one [OF pool_trans.release [OF _ release(4)]]
    by (simp add: set_call_def broker_reach.init)
next
  case (dispatch b)
  then show ?thesis using Grpc_ProcessRequests_step [OF dispatch(2)] by (simp add: brk.reach_one pool_reach.start)
qed (auto simp: set_call_def intro: broker_reach.init brk.reach_one pool_reach.start broker_step.cancel broker_step.stop)

lemma call_reach_parts:
  assumes "call_reach w0 w" "call_inv w0"
  shows "broker_reach grpc_item (gw_broker w0) (gw_broker w) \<and> pool_reach (gw_pool w0) (gw_pool w)"
  using assms(1)
proof (induction rule: call_reach.induct)
  case init
  then show ?case by (simp add: broker_reach.init pool_reach.start)
next
  case (step w w')
  then show ?case using call_step_parts [OF step(2) call_inv_reach [OF step(1) assms(2)]]
    by (meson brk.reach_trans pools.reach_trans)
qed

text \<open>A gRPC broker as \<open>NewGRPCBrokerServer\<close> makes it.\<close>

definition grpc_started ::
  "'a attributes_pkg \<Rightarrow> ServiceGroup list \<Rightarrow> nat \<Rightarrow> int \<Rightarrow> (nat \<Rightarrow> dial) \<Rightarrow> BrokerConfig \<Rightarrow> GRPCBrokerServer \<Rightarrow> bool" where
  "grpc_started A ks rnd now dials cfg srv \<longleftrightarrow> attributes_ok A \<and>
     map_order ks (pbi_Resources (build_info A (cfg_ServiceGroups cfg))) \<and> rnd < length ks \<and>
     NewGRPCBrokerServer A ks rnd now dials cfg = Inr srv"

lemma grpc_started_parts:
  assumes "grpc_started A ks rnd now dials cfg srv"
  shows "started A ks rnd cfg srv" "initPool (ms_GRPC (cfg_Broker cfg)) now dials = (None, Some (gb_Pool srv))"
    "d_EnableFlowControl srv = sch_EnableFlowControl (cfg_Schedule cfg)"
proof -
  let ?m = "\<lambda>pool. \<lparr>gb_Addr = ms_Addr (cfg_Broker cfg), gb_Pool = pool\<rparr>"
  obtain d pool where d: "make_dispatcher A ks rnd cfg = Inr d" "srv = dispatcher.extend d (?m pool)"
    "initPool (ms_GRPC (cfg_Broker cfg)) now dials = (None, Some pool)"
    using assms by (auto simp: grpc_started_def NewGRPCBrokerServer_def split: prod.splits option.splits sum.splits)
  show s: "started A ks rnd cfg srv" using assms d by (simp add: started_def grpc_started_def dispatcher.defs)
  show "initPool (ms_GRPC (cfg_Broker cfg)) now dials = (None, Some (gb_Pool srv))"
    using d by (simp add: dispatcher.defs)
  have m: "map_order ks (pbi_Resources (build_info A (cfg_ServiceGroups cfg)))" "attributes_ok A" "rnd < length ks"
    using assms by (simp_all add: grpc_started_def)
  have "d_EnableFlowControl d = sch_EnableFlowControl (cfg_Schedule cfg)"
    by (rule make_dispatcher_cases [OF d(1) m(2,1,3)]) (simp add: new_dispatcher_def)
  then show "d_EnableFlowControl srv = sch_EnableFlowControl (cfg_Schedule cfg)" using d(2) by (simp add: dispatcher.defs)
qed

lemma call_inv_init:
  assumes "grpc_started A ks rnd now dials cfg srv" shows "call_inv (call_init srv)"
proof -
  have "bw_accepted (init_world srv) = []" by (simp add: init_world_def)
  then show ?thesis
    using started_inv [OF grpc_started_parts(1) [OF assms]] initPool_cases(1) [OF grpc_started_parts(2) [OF assms]]
    by (simp add: call_inv_def call_init_def)
qed

lemma flow_reach:
  "broker_reach mine b b' \<Longrightarrow> d_EnableFlowControl (bw_srv b') = d_EnableFlowControl (bw_srv b)"
  by (induction rule: broker_reach.induct) (auto dest: step_flow)

section \<open>Properties\<close>

text \<open>
  C7. Concurrent gRPC calls of a broker do not interfere on the way to the backend. Over every interleaving of calls, their
  retries, the dispatcher, cancellation and stop, and whatever dials and timeouts do: no two calls hold
  the same client; the calls that hold one are at most \<open>ConnectionNum\<close>, which is the only bound on the calls the
  backend gets at a time; the client of a call has an open connection and giving it back does not block; and with flow control a call with a client has been let
  through by the dispatcher, which has taken it out of a queue.
\<close>

theorem grpc_calls_isolated:
  assumes "grpc_started A ks rnd now dials cfg srv" "call_reach (call_init srv) w"
  shows "distinct (concat (map (held \<circ> gc_pc) (gw_calls w))) \<and>
    length (concat (map (held \<circ> gc_pc) (gw_calls w))) \<le> nat (sint (grpc_ConnectionNum (ms_GRPC (cfg_Broker cfg)))) \<and>
    (\<forall>k \<in> set (gw_calls w). \<forall>conn \<in> set (held (gc_pc k)).
       conn \<in> w_open (gw_pool w) \<and> (\<forall>t. Client_Close conn t (gw_pool w) \<noteq> None) \<and>
       (sch_EnableFlowControl (cfg_Schedule cfg) \<longrightarrow>
          (\<exists>item \<in> set (bw_served (gw_broker w)). WaitChan item \<in> set (gc_chans k))))"
proof -
  let ?held = "concat (map (held \<circ> gc_pc) (gw_calls w))" and ?p = "gw_pool w" and ?b = "gw_broker w"
  note start = call_inv_init [OF assms(1)] and parts = grpc_started_parts [OF assms(1)]
  have inv: "call_inv w" by (rule call_inv_reach [OF assms(2) start])
  have reach: "pool_reach (gb_Pool srv) ?p" "broker_reach grpc_item (init_world srv) ?b"
    using call_reach_parts [OF assms(2) start] by (simp_all add: call_init_def)
  have flow: "d_EnableFlowControl (bw_srv ?b) = sch_EnableFlowControl (cfg_Schedule cfg)"
    using flow_reach [OF reach(2)] parts(3) by (simp add: init_world_def)
  have out: "mset (w_out ?p) = mset ?held" "world_inv ?p" using inv by (simp_all add: call_inv_def)
  have live: "distinct (w_out ?p)" "length (w_out ?p) \<le> length (live ?p)" "set (w_out ?p) \<subseteq> w_open ?p"
    using out(2) by (auto simp: world_inv_def live_def)
  have "int (length (live ?p)) \<le> sint (grpc_ConnectionNum (ms_GRPC (cfg_Broker cfg)))"
    using out(2) reach_capacity [OF reach(1)] initPool_cases(1) [OF parts(2)] by (simp add: world_inv_def)
  then have "length ?held \<le> nat (sint (grpc_ConnectionNum (ms_GRPC (cfg_Broker cfg))))"
    using live(2) mset_eq_length [OF out(1)] by linarith
  moreover have "distinct ?held" using live(1) mset_eq_imp_distinct_iff [OF out(1)] by simp
  moreover have "conn \<in> w_open ?p \<and> (\<forall>t. Client_Close conn t ?p \<noteq> None) \<and>
      (sch_EnableFlowControl (cfg_Schedule cfg) \<longrightarrow> (\<exists>item \<in> set (bw_served ?b). WaitChan item \<in> set (gc_chans k)))"
    if k: "k \<in> set (gw_calls w)" "conn \<in> set (held (gc_pc k))" for k conn
  proof -
    obtain i where i: "i < length (gw_calls w)" "k = gw_calls w ! i" using k(1) by (metis in_set_conv_nth)
    have "conn \<in> set (w_out ?p)" using held_out [OF inv i(1)] k(2) i(2) by auto
    moreover have "\<exists>item \<in> set (bw_served ?b). WaitChan item \<in> set (gc_chans k)"
      if f: "sch_EnableFlowControl (cfg_Schedule cfg)"
    proof -
      have "set (gc_chans k) \<subseteq> set (bw_closed ?b)" "gc_chans k \<noteq> []"
        using call_inv_at [OF inv i(1)] k(2) f flow i(2) by (cases "gc_pc k"; simp add: call_ok_def)+
      moreover have "set (bw_closed ?b) \<subseteq> WaitChan ` set (bw_served ?b)"
        using inv unfolding call_inv_def broker_inv_def served_inv_def by (metis set_append set_map sup.cobounded1)
      ultimately show ?thesis by (cases "gc_chans k") auto
    qed
    ultimately show ?thesis using live(3) Client_Close_ready [OF out(2)] by blast
  qed
  ultimately show ?thesis by blast
qed

text \<open>
  C8. Retries are bounded, and every one takes a place in a queue. A call is queued at most once more than \<open>grpcRetryTimesInt\<close> times, under
  wait channels of its own that no other call has; so the broker never accepts more items than eleven times the calls it got, and the channels
  of its accepted items are exactly those of the calls. Each channel of a call has been closed, apart from the one it waits for.
\<close>

theorem grpc_retries_bounded:
  assumes "grpc_started A ks rnd now dials cfg srv" "call_reach (call_init srv) w"
  shows "length (bw_accepted (gw_broker w)) \<le> Suc grpcRetryTimesInt * length (gw_calls w) \<and>
    distinct (concat (map gc_chans (gw_calls w))) \<and>
    set (concat (map gc_chans (gw_calls w))) = WaitChan ` set (bw_accepted (gw_broker w)) \<and>
    (\<forall>k \<in> set (gw_calls w). length (gc_chans k) \<le> Suc grpcRetryTimesInt \<and>
       (\<forall>c \<in> set (gc_chans k). c \<in> set (bw_closed (gw_broker w)) \<or> (\<exists>n. gc_pc k = Waiting n c)))"
proof -
  let ?chans = "concat (map gc_chans (gw_calls w))" and ?b = "gw_broker w"
  have inv: "call_inv w" by (rule call_inv_reach [OF assms(2) call_inv_init [OF assms(1)]])
  then have m: "mset (map WaitChan (bw_accepted ?b)) = mset ?chans" by (simp add: call_inv_def)
  have ok: "length (gc_chans k) \<le> Suc grpcRetryTimesInt"
    "\<forall>c \<in> set (gc_chans k). c \<in> set (bw_closed ?b) \<or> (\<exists>n. gc_pc k = Waiting n c)"
    if "k \<in> set (gw_calls w)" for k
  proof -
    have "call_ok ?b k" using inv that by (simp add: call_inv_def list_all_iff)
    then show "length (gc_chans k) \<le> Suc grpcRetryTimesInt"
      "\<forall>c \<in> set (gc_chans k). c \<in> set (bw_closed ?b) \<or> (\<exists>n. gc_pc k = Waiting n c)"
      by (simp add: call_ok_def, cases "gc_pc k", auto simp: call_ok_def)
  qed
  have "distinct ?chans"
    using inv mset_eq_imp_distinct_iff [OF m] by (simp add: call_inv_def broker_inv_def chan_inv_def)
  moreover have "set ?chans = WaitChan ` set (bw_accepted ?b)" using mset_eq_setD [OF m] by simp
  moreover have "length (bw_accepted ?b) \<le> Suc grpcRetryTimesInt * length (gw_calls w)"
  proof -
    have "length (concat (map gc_chans xs)) \<le> Suc grpcRetryTimesInt * length xs" if "set xs \<subseteq> set (gw_calls w)" for xs
      using that by (induction xs) (use ok(1) add_mono in \<open>fastforce\<close>)+
    from this [of "gw_calls w"] show ?thesis using mset_eq_length [OF m] by simp
  qed
  ultimately show ?thesis using ok by blast
qed

section \<open>Progress\<close>

text \<open>Every step of a call brings it closer to its end; a call is held up by the dispatcher only.\<close>

fun rank :: "call_pc \<Rightarrow> nat" where
  "rank (Finished r) = 0"
| "rank (Closing conn r) = 1"
| "rank (Connected conn) = 2"
| "rank (Acquiring n) = 3 + 3 * (grpcRetryTimesInt - n)"
| "rank (Waiting n c) = 4 + 3 * (grpcRetryTimesInt - n)"
| "rank (Attempt n) = 5 + 3 * (grpcRetryTimesInt - n)"

lemma rank_failed: "rank (GetConn_failed n err) < 3 + 3 * (grpcRetryTimesInt - n)"
  by (auto simp: GetConn_failed_def)

text \<open>A run of the dispatcher alone is a run of the whole.\<close>

lemma dispatch_run:
  assumes "broker_reach grpc_item b b'" "bw_next b' = bw_next b" "gw_broker w = b" "hand_ok grpc_item b"
  shows "call_reach w (w\<lparr>gw_broker := b'\<rparr>)"
proof -
  have "bw_next b \<le> bw_next b' \<and> hand_ok grpc_item b' \<and> (bw_next b' = bw_next b \<longrightarrow> call_reach w (w\<lparr>gw_broker := b'\<rparr>))"
    using assms(1)
  proof (induction rule: broker_reach.induct)
    case init
    then show ?case using assms(3,4) by (auto intro: call_reach.init)
  next
    case (step b1 b2)
    have le: "bw_next b1 \<le> bw_next b2" using step_accepted [OF step(2) grpc_kind] by auto
    have "call_step (w\<lparr>gw_broker := b1\<rparr>) (w\<lparr>gw_broker := b2\<rparr>)" if "bw_next b2 = bw_next b1"
      using grpc_step_cases [OF step(2) that] step(3) call_step.dispatch [of "w\<lparr>gw_broker := b1\<rparr>" b2]
        call_step.cancel [of "w\<lparr>gw_broker := b1\<rparr>"] call_step.stop [of "w\<lparr>gw_broker := b1\<rparr>"] by auto
    then show ?case using step(3) hand_ok_step [OF step(2)] le by (auto intro: call_reach.step)
  qed
  then show ?thesis using assms(2) by blast
qed

lemma rounds_next: "bw_next (dispatch_rounds mine rs b) = bw_next b"
proof (induction rs arbitrary: b)
  case (Cons r rs)
  obtain W ks where "r = (W, ks)" by (cases r)
  then show ?case using Cons [of "handle_round (select_round (top_round mine W ks b))"]
    by (auto simp: top_round_def select_round_def handle_round_def split: pc.splits prod.splits option.splits sum.splits)
qed simp

lemma enqueue_drain:
  assumes "GetConn_enqueue now n k b = (k', b')" "drain_state grpc_item names b"
  shows "drain_state grpc_item names b'"
proof -
  have frame: "bw_pc b' = bw_pc b" "bw_ctxDone b' = bw_ctxDone b" "d_stopChan (bw_srv b') = d_stopChan (bw_srv b)"
    using assms(1) by (auto simp: GetConn_enqueue_def Grpc_EnqueueRequests_def split: if_splits prod.splits option.splits)
  have "b' = b \<or> broker_step grpc_item b b'" using assms(1) by (cases rule: enqueue_cases) auto
  then show ?thesis
  proof
    assume st: "broker_step grpc_item b b'"
    have live: "live_state names (d_WorkPoolCap (bw_srv b)) b" "broker_inv grpc_item b"
      using assms(2) by (auto simp: drain_state_def live_state_def)
    then show ?thesis
      using assms(2) frame broker_inv_step [OF st grpc_kind live(2)] live_state_step [OF st live(2,1)]
      by (simp add: drain_state_def live_state_def)
  qed (use assms(2) in simp)
qed

text \<open>Only the call \<open>i\<close> and the dispatcher move, and the dispatcher gets back to the top of its loop.\<close>

definition only_call :: "string set \<Rightarrow> nat \<Rightarrow> grpc_call list \<Rightarrow> 'x call_world \<Rightarrow> bool" where
  "only_call names i ks w \<longleftrightarrow> call_inv w \<and> drain_state grpc_item names (gw_broker w) \<and> i < length ks \<and>
     (\<exists>k. gw_calls w = ks[i := k])"

lemma only_call_set:
  assumes "only_call names i ks w" "call_step w w'" "w' = set_call i k (w\<lparr>gw_broker := b, gw_pool := p\<rparr>)"
    and "drain_state grpc_item names b"
  shows "call_reach w w' \<and> only_call names i ks w' \<and> gw_calls w' ! i = k"
  using assms call_inv_step [OF assms(2)] calls.reach_one [OF assms(2)]
  by (auto simp: only_call_def set_call_def)

lemma pass_queue:
  assumes "only_call names i ks w" "finite names" "card names < 2 ^ 31" "gc_pc (gw_calls w ! i) = Waiting n c"
  shows "\<exists>w'. call_reach w w' \<and> only_call names i ks w' \<and> gc_pc (gw_calls w' ! i) = Acquiring n \<and> gw_pool w' = gw_pool w"
proof -
  let ?b = "gw_broker w"
  have w: "call_inv w" "drain_state grpc_item names ?b" "i < length (gw_calls w)"
    using assms(1) by (auto simp: only_call_def)
  obtain order where o: "set order = names" "distinct order" using finite_distinct_list [OF assms(2)] by blast
  then have "round_ok names (first_positive, order)"
    using first_positive_ok assms(3) distinct_card [of order] by (simp add: round_ok_def)
  then obtain rs where rs: "\<forall>r \<in> set rs. round_ok names r" "waiting (d_QueuePool (bw_srv ?b)) \<le> length rs"
    by (metis in_set_replicate le_refl length_replicate)
  let ?b' = "dispatch_rounds grpc_item rs ?b"
  note d = drain_answers [OF grpc_kind w(2) assms(2) rs]
  let ?w1 = "w\<lparr>gw_broker := ?b'\<rparr>"
  have "hand_ok grpc_item ?b" using w(2) by (simp add: drain_state_def hand_ok_def in_flight_def)
  then have run: "call_reach w ?w1" using dispatch_run [OF _ rounds_next refl] d by blast
  have o1: "only_call names i ks ?w1"
    using assms(1) d call_inv_reach [OF run w(1)] by (simp add: only_call_def)
  have "c \<in> set (gc_chans (gw_calls w ! i))"
    using call_inv_at [OF w(1,3)] assms(4) by (auto simp: call_ok_def)
  then have "c \<in> set (concat (map gc_chans (gw_calls w)))" using nth_mem [OF w(3)] by auto
  moreover have "set (map WaitChan (bw_accepted ?b)) = set (concat (map gc_chans (gw_calls w)))"
    by (rule mset_eq_setD) (use w(1) in \<open>simp add: call_inv_def\<close>)
  ultimately have "c \<in> set (bw_closed ?b')" using d by auto
  then have st: "call_step ?w1 (set_call i ((gw_calls w ! i)\<lparr>gc_pc := Acquiring n\<rparr>) (?w1\<lparr>gw_broker := ?b', gw_pool := gw_pool w\<rparr>))"
    using call_step.wake [of i ?w1 n c] w(3) assms(4) by simp
  show ?thesis using only_call_set [OF o1 st refl] d calls.reach_trans [OF _ run]
    by (intro exI [of _ "set_call i ((gw_calls w ! i)\<lparr>gc_pc := Acquiring n\<rparr>) (?w1\<lparr>gw_broker := ?b', gw_pool := gw_pool w\<rparr>)"])
      (auto simp: set_call_def)
qed

lemma call_progress:
  assumes "only_call names i ks w" "finite names" "card names < 2 ^ 31" "rank (gc_pc (gw_calls w ! i)) \<noteq> 0"
  shows "\<exists>w'. call_reach w w' \<and> only_call names i ks w' \<and> rank (gc_pc (gw_calls w' ! i)) < rank (gc_pc (gw_calls w ! i))"
proof -
  let ?k = "gw_calls w ! i" and ?b = "gw_broker w"
  have w: "call_inv w" "drain_state grpc_item names ?b" "i < length (gw_calls w)"
    using assms(1) by (auto simp: only_call_def)
  show ?thesis
  proof (cases "gc_pc ?k")
    case (Attempt n)
    obtain k b where e: "GetConn_enqueue 0 n ?k ?b = (k, b)" by (meson prod.exhaust)
    have "rank (gc_pc k) < rank (Attempt n)"
      using e by (cases rule: enqueue_cases) (use rank_failed in \<open>auto intro: less_trans\<close>)
    then show ?thesis
      using only_call_set [OF assms(1) call_step.enqueue [OF w(3) Attempt e], where k = k and b = b and p = "gw_pool w"] enqueue_drain [OF e w(2)] Attempt
      by auto
  next
    case (Waiting n c)
    then show ?thesis using pass_queue [OF assms(1-3) Waiting] by auto
  next
    case (Acquiring n)
    obtain k p where a: "GetConn_acquire AcquireTimeout 0 None n ?k (gw_pool w) = Some (k, p)" "gc_pc k = GetConn_failed n (StatusErr Unimplemented ''unknown method'')"
      by (simp add: GetConn_acquire_def Acquire_def split: if_splits)
    then show ?thesis
      using only_call_set [OF assms(1) call_step.acquire [OF w(3) Acquiring a(1)], where k = k and b = ?b and p = p] w(2) Acquiring rank_failed by auto
  next
    case (Connected conn)
    then show ?thesis
      using only_call_set [OF assms(1) call_step.return [OF w(3) Connected], where b = ?b and p = "gw_pool w" and
          k = "?k\<lparr>gc_pc := Closing conn None\<rparr>"] w(2) by fastforce
  next
    case (Closing conn res)
    have "conn \<in> set (w_out (gw_pool w))" using held_out [OF w(1,3)] Closing by simp
    then obtain p where p: "Client_Close conn 0 (gw_pool w) = Some p"
      using Client_Close_ready [of "gw_pool w" conn 0] w(1) by (auto simp: call_inv_def)
    then show ?thesis
      using only_call_set [OF assms(1) call_step.release [OF w(3) Closing p], where b = ?b and p = p and
          k = "?k\<lparr>gc_pc := Finished res\<rparr>"] w(2) Closing by fastforce
  qed (use assms(4) in simp)
qed

lemma step_rank:
  assumes "call_step w w'" "i < length (gw_calls w)"
  shows "gw_calls w' ! i = gw_calls w ! i \<or> rank (gc_pc (gw_calls w' ! i)) < rank (gc_pc (gw_calls w ! i))"
  using assms(1)
proof (cases rule: call_step.cases)
  case (enqueue j n now k b)
  have "rank (gc_pc k) < rank (Attempt n)"
    using enqueue(4) by (cases rule: enqueue_cases) (use rank_failed in \<open>auto intro: less_trans\<close>)
  then show ?thesis using enqueue by (cases "i = j") (simp_all add: set_call_def)
next
  case (acquire j n choice now dial k p)
  have "rank (gc_pc k) < rank (Acquiring n)"
    using acquire(4) by (cases rule: acquire_cases) (use rank_failed in auto)
  then show ?thesis using acquire by (cases "i = j") (simp_all add: set_call_def)
next
  case (wake j n c)
  then show ?thesis by (cases "i = j") (simp_all add: set_call_def)
next
  case (return j conn res)
  then show ?thesis by (cases "i = j") (simp_all add: set_call_def)
next
  case (release j conn res now p)
  then show ?thesis by (cases "i = j") (simp_all add: set_call_def)
qed (use assms(2) in \<open>simp_all add: nth_append\<close>)

lemma step_length: "call_step w w' \<Longrightarrow> length (gw_calls w) \<le> length (gw_calls w')"
  by (induction rule: call_step.induct) (simp_all add: set_call_def)

text \<open>
  C9. A gRPC call returns. Whatever the others do, each step of a call brings it closer to its end, so that it makes at most
  thirty-five of them; and from every state a broker reaches with its dispatcher at the top of the loop, neither
  stopped nor cancelled, the call and the dispatcher alone can go on until the call has returned and given its
  client back, when weights and work pool are positive (with an error, when it gets no client in time). No call depends on a step of
  another call.
\<close>

theorem grpc_call_returns:
  assumes "grpc_started A ks rnd now dials cfg srv" "call_reach (call_init srv) w" "i < length (gw_calls w)"
    and "\<forall>g \<in> set (cfg_ServiceGroups cfg). 0 < sint (sg_Weight g)" "0 < ms_WorkPoolSize (cfg_Broker cfg)"
    and "card (group_names (cfg_ServiceGroups cfg)) < 2 ^ 31"
    and "bw_pc (gw_broker w) = AtTop" "\<not> bw_ctxDone (gw_broker w)" "\<not> d_stopChan (bw_srv (gw_broker w))"
  shows "(\<exists>w' r. call_reach w w' \<and> gc_pc (gw_calls w' ! i) = Finished r \<and> length (gw_calls w') = length (gw_calls w) \<and>
       (\<forall>j. j \<noteq> i \<longrightarrow> gw_calls w' ! j = gw_calls w ! j)) \<and>
    (\<forall>w1 w2. call_reach w w1 \<and> call_step w1 w2 \<longrightarrow> rank (gc_pc (gw_calls w1 ! i)) \<le> 35 \<and>
       (gw_calls w2 ! i = gw_calls w1 ! i \<or> rank (gc_pc (gw_calls w2 ! i)) < rank (gc_pc (gw_calls w1 ! i))))"
proof -
  let ?names = "group_names (cfg_ServiceGroups cfg)" and ?m = "\<lambda>w. rank (gc_pc (gw_calls w ! i))"
  note start = call_inv_init [OF assms(1)]
  have b: "broker_reach grpc_item (init_world srv) (gw_broker w)"
    using call_reach_parts [OF assms(2) start] by (simp add: call_init_def)
  have "drain_state grpc_item ?names (gw_broker w)"
    using started_drain [OF grpc_started_parts(1) [OF assms(1)] grpc_kind b] assms(4,5,7-9) by blast
  moreover have "gw_calls w = (gw_calls w)[i := gw_calls w ! i]" by simp
  ultimately have "only_call ?names i (gw_calls w) w"
    using call_inv_reach [OF assms(2) start] assms(3) unfolding only_call_def by blast
  then obtain w' where w': "call_reach w w'" "only_call ?names i (gw_calls w) w'" "?m w' = 0"
    using calls.reach_goal_runs [of "only_call ?names i (gw_calls w)" w "\<lambda>w. ?m w = 0" ?m]
      call_progress [OF _ finite_group_names assms(6)] by blast
  then have "\<exists>r. gc_pc (gw_calls w' ! i) = Finished r" by (cases "gc_pc (gw_calls w' ! i)") auto
  moreover have "\<exists>k. gw_calls w' = (gw_calls w)[i := k]" using w'(2) by (simp add: only_call_def)
  then have "length (gw_calls w') = length (gw_calls w) \<and> (\<forall>j. j \<noteq> i \<longrightarrow> gw_calls w' ! j = gw_calls w ! j)" by auto
  moreover have "rank c \<le> 35" for c by (cases c) (auto simp: grpcRetryTimesInt_def)
  moreover have "gw_calls w2 ! i = gw_calls w1 ! i \<or> ?m w2 < ?m w1" if "call_reach w w1" "call_step w1 w2" for w1 w2
  proof (rule step_rank [OF that(2)])
    have "length (gw_calls w) \<le> length (gw_calls w1)"
      using that(1) by (induction rule: call_reach.induct) (auto dest: step_length)
    then show "i < length (gw_calls w1)" using assms(3) by simp
  qed
  ultimately show ?thesis using w'(1) by blast
qed

text \<open>Nothing in a broker closes the pool.\<close>

lemma calls_keep_open:
  assumes "call_reach w w'" shows "IsClose (w_pool (gw_pool w')) = IsClose (w_pool (gw_pool w))"
  using assms
proof (induction rule: call_reach.induct)
  case (step w1 w2)
  from step(2) have "IsClose (w_pool (gw_pool w2)) = IsClose (w_pool (gw_pool w1))"
  proof (cases rule: call_step.cases)
    case (acquire i n choice now dial k p)
    obtain r where "Acquire choice now dial (gw_pool w1) = Some (r, p)"
      using acquire(4) by (auto simp: GetConn_acquire_def split: option.splits sum.splits prod.splits)
    then have "IsClose (w_pool p) = IsClose (w_pool (gw_pool w1))"
      by (cases rule: Acquire_cases) (auto simp: IsClose_def hand_out_def dest: createClient_Inr)
    then show ?thesis using acquire(1) by (simp add: set_call_def)
  next
    case (release i conn res now p)
    then show ?thesis by (auto simp: set_call_def Client_Close_def IsClose_def Let_def split: if_splits option.splits)
  qed (auto simp: set_call_def)
  then show ?case using step(3) by simp
qed simp

section \<open>An unreachable backend\<close>

definition no_client :: go_error where
  "no_client = StatusErr Unimplemented ''unknown method''"

text \<open>
  A call whose attempts all find a stale client and fail to dial: what is left of the idle clients after each attempt. No
  call holds a client meanwhile.
\<close>

definition wearing :: "int \<Rightarrow> nat \<Rightarrow> nat list \<Rightarrow> 'x call_world \<Rightarrow> bool" where
  "wearing t i as w \<longleftrightarrow> call_inv w \<and> \<not> d_EnableFlowControl (bw_srv (gw_broker w)) \<and> i < length (gw_calls w) \<and>
     \<not> IsClose (w_pool (gw_pool w)) \<and> w_out (gw_pool w) = [] \<and>
     (\<forall>a \<in> set (idle (gw_pool w)). \<not> reusable (w_pool (gw_pool w)) (w_store (gw_pool w) a) t) \<and>
     (case gc_pc (gw_calls w ! i) of
        Attempt n \<Rightarrow> n \<le> grpcRetryTimesInt \<and> idle (gw_pool w) = drop n as
      | Acquiring n \<Rightarrow> n \<le> grpcRetryTimesInt \<and> idle (gw_pool w) = drop n as
      | Finished r \<Rightarrow> r = Some no_client \<and> idle (gw_pool w) = drop (Suc grpcRetryTimesInt) as
      | _ \<Rightarrow> False)"

text \<open>One attempt at the pool.\<close>

lemma stale_acquire:
  assumes "world_inv p" "\<not> IsClose (w_pool p)" "\<forall>a \<in> set (idle p). \<not> reusable (w_pool p) (w_store p a) t"
  shows "\<exists>choice p'. GetConn_acquire choice t (Some EOF) n k p = Some (k\<lparr>gc_pc := GetConn_failed n no_client\<rparr>, p') \<and>
    idle p' = tl (idle p) \<and> w_out p' = w_out p \<and> \<not> IsClose (w_pool p') \<and>
    (\<forall>a \<in> set (idle p'). \<not> reusable (w_pool p') (w_store p' a) t)"
proof (cases "idle p")
  case Nil
  then show ?thesis using assms(2)
    by (intro exI [of _ AcquireTimeout]) (simp add: GetConn_acquire_def Acquire_def no_client_def)
next
  case (Cons a cs)
  then have cs: "p_clients (w_pool p) = Some (a # cs)" by (simp add: idle_def split: option.splits)
  have "a \<notin> set cs" using assms(1) Cons by (auto simp: world_inv_def live_def)
  then show ?thesis using assms(3) Cons
    by (intro exI [of _ RecvClient])
      (auto simp: GetConn_acquire_def Acquire_def IsClose_def cs createClient_def Let_def no_client_def idle_def reusable_def)
qed

lemma wearing_step:
  assumes "wearing t i as w" "rank (gc_pc (gw_calls w ! i)) \<noteq> 0"
  shows "\<exists>w'. call_step w w' \<and> wearing t i as w' \<and> rank (gc_pc (gw_calls w' ! i)) < rank (gc_pc (gw_calls w ! i))"
proof -
  let ?k = "gw_calls w ! i" and ?p = "gw_pool w"
  have w: "call_inv w" "i < length (gw_calls w)" "\<not> d_EnableFlowControl (bw_srv (gw_broker w))"
    using assms(1) by (auto simp: wearing_def)
  consider (attempt) n where "gc_pc ?k = Attempt n" | (acquiring) n where "gc_pc ?k = Acquiring n"
    using assms by (cases "gc_pc ?k") (auto simp: wearing_def)
  then show ?thesis
  proof cases
    case attempt
    have e: "GetConn_enqueue 0 n ?k (gw_broker w) = (?k\<lparr>gc_pc := Acquiring n\<rparr>, gw_broker w)"
      using w(3) by (simp add: GetConn_enqueue_def)
    note st = call_step.enqueue [OF w(2) attempt e]
    then show ?thesis using assms(1) call_inv_step [OF st w(1)] attempt
      by (intro exI [of _ "set_call i (?k\<lparr>gc_pc := Acquiring n\<rparr>) (w\<lparr>gw_broker := gw_broker w\<rparr>)"])
        (auto simp: wearing_def set_call_def)
  next
    case acquiring
    have p: "world_inv ?p" "\<not> IsClose (w_pool ?p)" "\<forall>a \<in> set (idle ?p). \<not> reusable (w_pool ?p) (w_store ?p a) t"
      using assms(1) by (auto simp: wearing_def call_inv_def)
    from stale_acquire [OF p, of n ?k] obtain choice p' where a:
      "GetConn_acquire choice t (Some EOF) n ?k ?p = Some (?k\<lparr>gc_pc := GetConn_failed n no_client\<rparr>, p')"
      and p': "idle p' = tl (idle ?p)" "w_out p' = w_out ?p" "\<not> IsClose (w_pool p')"
        "\<forall>a \<in> set (idle p'). \<not> reusable (w_pool p') (w_store p' a) t" by blast
    note st = call_step.acquire [OF w(2) acquiring a]
    have n: "n \<le> grpcRetryTimesInt" "idle ?p = drop n as" using assms(1) acquiring by (auto simp: wearing_def)
    then have "wearing t i as (set_call i (?k\<lparr>gc_pc := GetConn_failed n no_client\<rparr>) (w\<lparr>gw_pool := p'\<rparr>))"
      using assms(1) call_inv_step [OF st w(1)] p' by (auto simp: wearing_def set_call_def GetConn_failed_def drop_Suc tl_drop)
    then show ?thesis using st acquiring rank_failed [of n no_client] w(2) by (auto simp: set_call_def)
  qed
qed


section \<open>A small gRPC broker\<close>

text \<open>The default configuration with one queue, with and without flow control.\<close>

definition flow_cfg :: "bool \<Rightarrow> BrokerConfig" where
  "flow_cfg f = small_cfg\<lparr>cfg_Schedule := \<lparr>sch_Method = ''RR'', sch_EnableFlowControl = f\<rparr>\<rparr>"

definition grpc_broker :: "bool \<Rightarrow> GRPCBrokerServer" where
  "grpc_broker f = dispatcher.extend (small_broker\<lparr>d_EnableFlowControl := f\<rparr>)
     \<lparr>gb_Addr = ms_Addr (cfg_Broker small_cfg),
      gb_Pool = the (snd (initPool (ms_GRPC (cfg_Broker small_cfg)) 0 (\<lambda>_. None)))\<rparr>"

lemma flow_cfg_simps [simp]:
  "cfg_ServiceGroups (flow_cfg f) = []" "cfg_Broker (flow_cfg f) = cfg_Broker small_cfg" "cfg_Queue (flow_cfg f) = cfg_Queue small_cfg"
  "sch_EnableFlowControl (cfg_Schedule (flow_cfg f)) = f" "sint (grpc_ConnectionNum (ms_GRPC (cfg_Broker small_cfg))) = 10"
  "0 < ms_WorkPoolSize (cfg_Broker small_cfg)"
  by (simp_all add: flow_cfg_def small_cfg_def BrokerConfig_New_def default_GRPCConfig_def)

lemma small_pool_init: "\<exists>p. initPool (ms_GRPC (cfg_Broker small_cfg)) 0 (\<lambda>_. None) = (None, Some p)"
proof -
  let ?c = "ms_GRPC (cfg_Broker small_cfg)"
  have "config_valid ?c"
    by (simp add: config_valid_def) (simp add: small_cfg_def BrokerConfig_New_def default_GRPCConfig_def time_Second_def)
  then have "fst (initPool ?c 0 (\<lambda>_. None)) = None" by (simp add: initPool_cases(2))
  then show ?thesis by (auto simp: initPool_def split: if_splits prod.splits option.splits)
qed

lemma grpc_broker_started: "grpc_started alist_attributes [default_group] 0 0 (\<lambda>_. None) (flow_cfg f) (grpc_broker f)"
proof -
  have n: "NewScheduler (cfg_Schedule (flow_cfg f)) = Inr \<lparr>sd_builder = RRPickerBuilder, sd_picker = None,
      sd_errPicker = ErrPicker (Errorf ''picker is nil'')\<rparr>"
    by (simp add: flow_cfg_def NewScheduler_def NewErrPicker_def Builder_def pickers_def)
  have "0 \<le> ms_WorkPoolSize (cfg_Broker small_cfg)" using flow_cfg_simps(6) by linarith
  then have "make_dispatcher alist_attributes [default_group] 0 (flow_cfg f) = Inr (small_broker\<lparr>d_EnableFlowControl := f\<rparr>)"
    using Build_picker [OF alist_attributes_ok order_nil, of 0 RRPickerBuilder]
    by (simp add: make_dispatcher_def n RegeneratePicker_def small_broker_def new_dispatcher_def) (simp add: flow_cfg_def small_cfg_def)
  moreover obtain p where "initPool (ms_GRPC (cfg_Broker small_cfg)) 0 (\<lambda>_. None) = (None, Some p)" using small_pool_init by blast
  ultimately show ?thesis using alist_attributes_ok order_nil
    by (simp add: grpc_started_def NewGRPCBrokerServer_def grpc_broker_def)
qed

text \<open>A first call arrives.\<close>

abbreviation first_call :: grpc_call where
  "first_call \<equiv> \<lparr>gc_ctx = \<lparr>ctx_in = None, ctx_out = None\<rparr>, gc_pc = Attempt 0, gc_chans = []\<rparr>"

definition first_world :: "bool \<Rightarrow> \<lparr>gb_Addr :: string, gb_Pool :: pool_world\<rparr> call_world" where
  "first_world f = (call_init (grpc_broker f))\<lparr>gw_calls := [first_call]\<rparr>"

lemma first_reach: "call_reach (call_init (grpc_broker f)) (first_world f)"
  using calls.reach_one [OF call_step.arrive, of "call_init (grpc_broker f)" "gc_ctx first_call"]
  by (simp add: first_world_def call_init_def)

lemma first_simps [simp]:
  "gw_calls (first_world f) = [first_call]" "gw_broker (first_world f) = init_world (grpc_broker f)"
  "gw_pool (first_world f) = gb_Pool (grpc_broker f)"
  by (simp_all add: first_world_def call_init_def)

lemma first_only: "only_call (group_names []) 0 [first_call] (first_world f)"
proof -
  note st = grpc_started_parts(1) [OF grpc_broker_started [of f]]
  have i: "bw_pc (init_world (grpc_broker f)) = AtTop" "\<not> bw_ctxDone (init_world (grpc_broker f))"
    "\<not> d_stopChan (bw_srv (init_world (grpc_broker f)))"
    by (simp_all add: init_world_def grpc_broker_def dispatcher.defs small_broker_def new_dispatcher_def)
  have "drain_state grpc_item (group_names []) (init_world (grpc_broker f))"
    using started_drain [OF st grpc_kind broker_reach.init _ _ i] by simp
  moreover have "call_inv (first_world f)" using call_inv_reach [OF first_reach call_inv_init [OF grpc_broker_started]] .
  ultimately show ?thesis by (simp add: only_call_def)
qed

text \<open>It is queued, let through, and gets a client.\<close>

lemma connected_run:
  "\<exists>w k conn. call_reach (call_init (grpc_broker True)) w \<and> gw_calls w = [k] \<and> gc_pc k = Connected conn"
proof -
  let ?w = "first_world True" and ?N = "group_names []"
  have q: "d_QueuePool (grpc_broker True) = \<lparr>qp_Queues = [DefaultServiceGroup \<mapsto> \<lparr>q_maxSize = 200, q_list = []\<rparr>]\<rparr>"
    "d_EnableFlowControl (grpc_broker True)"
    using small_pool by (simp_all add: grpc_broker_def dispatcher.defs)
  obtain k b where e: "GetConn_enqueue 0 0 first_call (init_world (grpc_broker True)) = (k, b)" by (meson prod.exhaust)
  then have k: "gc_pc k = Waiting 0 0"
    by (auto simp: GetConn_enqueue_def init_world_def q Grpc_EnqueueRequests_def QueuePool_Push_def Queue_Push_def Let_def
        split: option.splits prod.splits if_splits)
  let ?w1 = "set_call 0 k (?w\<lparr>gw_broker := b\<rparr>)"
  have st: "call_step ?w ?w1" using call_step.enqueue [of 0 ?w 0 0 k b] e by simp
  have drain: "drain_state grpc_item ?N b"
    using enqueue_drain [OF e] first_only [of True] by (simp add: only_call_def)
  have w1: "call_reach ?w ?w1" "only_call ?N 0 [first_call] ?w1" "gw_calls ?w1 ! 0 = k"
    using only_call_set [OF first_only st, where k = k and b = b and p = "gw_pool ?w", OF _ drain] by (auto simp: first_world_def)
  then obtain w2 where w2: "call_reach ?w1 w2" "only_call ?N 0 [first_call] w2" "gc_pc (gw_calls w2 ! 0) = Acquiring 0"
    "gw_pool w2 = gb_Pool (grpc_broker True)"
    using pass_queue [OF w1(2) finite_group_names _] k by (auto simp: group_names_def set_call_def)
  have "length (idle (gb_Pool (grpc_broker True))) = 10" "\<not> IsClose (w_pool (gb_Pool (grpc_broker True)))"
    using initPool_cases(1) [OF grpc_started_parts(2) [OF grpc_broker_started [of True]]] by simp_all
  then obtain a cs where cs: "p_clients (w_pool (gw_pool w2)) = Some (a # cs)"
    unfolding w2(4) by (auto simp: idle_def IsClose_def numeral_eq_Suc length_Suc_conv split: option.splits)
  let ?k2 = "gw_calls w2 ! 0"
  have "\<exists>conn p. Acquire RecvClient 0 None (gw_pool w2) = Some (Inr conn, p)"
    using cs by (cases "reusable (w_pool (gw_pool w2)) (w_store (gw_pool w2) a) 0")
      (simp_all add: Acquire_def IsClose_def Let_def createClient_def)
  then obtain conn p where a: "GetConn_acquire RecvClient 0 None 0 ?k2 (gw_pool w2) = Some (?k2\<lparr>gc_pc := Connected conn\<rparr>, p)"
    by (auto simp: GetConn_acquire_def)
  have len: "0 < length (gw_calls w2)" "length (gw_calls w2) = 1" using w2(2) by (auto simp: only_call_def)
  have "call_step w2 (set_call 0 (?k2\<lparr>gc_pc := Connected conn\<rparr>) (w2\<lparr>gw_pool := p\<rparr>))"
    by (rule call_step.acquire [OF len(1) w2(3) a])
  then have "call_reach (call_init (grpc_broker True)) (set_call 0 (?k2\<lparr>gc_pc := Connected conn\<rparr>) (w2\<lparr>gw_pool := p\<rparr>))"
    using first_reach w1(1) w2(1) by (meson calls.reach_trans call_reach.step)
  moreover obtain k2 where "gw_calls w2 = [k2]" using len(2) by (auto simp: length_Suc_conv)
  then have "gw_calls (set_call 0 (?k2\<lparr>gc_pc := Connected conn\<rparr>) (w2\<lparr>gw_pool := p\<rparr>)) = [?k2\<lparr>gc_pc := Connected conn\<rparr>]"
    by (simp add: set_call_def)
  ultimately show ?thesis by (metis grpc_call.select_convs(2) grpc_call.surjective grpc_call.update_convs(2))
qed

theorem grpc_calls_isolated_witness:
  "\<exists>w k conn. call_reach (call_init (grpc_broker True)) w \<and> gw_calls w = [k] \<and> gc_pc k = Connected conn \<and>
     conn \<in> w_open (gw_pool w) \<and> (\<exists>item \<in> set (bw_served (gw_broker w)). WaitChan item \<in> set (gc_chans k))"
proof -
  obtain w k conn where w: "call_reach (call_init (grpc_broker True)) w" "gw_calls w = [k]" "gc_pc k = Connected conn"
    using connected_run by blast
  with grpc_calls_isolated [OF grpc_broker_started w(1)] show ?thesis by auto
qed

theorem grpc_retries_bounded_witness:
  "\<exists>w k. call_reach (call_init (grpc_broker True)) w \<and> gw_calls w = [k] \<and> length (gc_chans k) \<le> 11 \<and>
     set (gc_chans k) \<subseteq> set (bw_closed (gw_broker w))"
proof -
  obtain w k conn where w: "call_reach (call_init (grpc_broker True)) w" "gw_calls w = [k]" "gc_pc k = Connected conn"
    using connected_run by blast
  with grpc_retries_bounded [OF grpc_broker_started w(1)] show ?thesis by (auto simp: grpcRetryTimesInt_def)
qed

theorem grpc_call_returns_witness:
  "\<exists>w r. call_reach (first_world True) w \<and> gc_pc (gw_calls w ! 0) = Finished r"
proof -
  have "bw_pc (init_world (grpc_broker True)) = AtTop" "\<not> bw_ctxDone (init_world (grpc_broker True))"
    "\<not> d_stopChan (bw_srv (init_world (grpc_broker True)))"
    using first_only [of True] by (simp_all add: only_call_def drain_state_def)
  with grpc_call_returns [OF grpc_broker_started first_reach, of 0 True] show ?thesis
    by (auto simp: group_names_def)
qed


end
