(* ===== verification/Spec2Isabelle.thy ===== *)
theory Spec2Isabelle
  imports Priority_Queue Proxy Webhook Im_Service Im_Template Im_Deployment Api Lifecycle Command Api_Server Controller_Run Monitor Injection Grpc_Call
begin

text \<open>
  A verification library of edgeQ, a quality-of-service layer for inference servers on edge nodes.

  \<^bold>\<open>The program.\<close> A client pod gets a \<^emph>\<open>proxy\<close> sidecar, a model's pod a \<^emph>\<open>broker\<close> sidecar. The proxy tags every request with a
  service group and forwards it (HTTP or gRPC) to the broker; the broker files it in the bounded queue of its
  group, a dispatcher picks a group (round robin or by weight), takes the front request of its queue, and lets it
  through to the model server. The control plane is a \<^emph>\<open>webhook\<close>, which injects the sidecars and writes their
  configuration, three \<^emph>\<open>controllers\<close> (infer model services, templates, deployments) and an \<^emph>\<open>API server\<close>. Broker,
  proxy and API server are processes that reload their configuration.

  \<^bold>\<open>The theories\<close>, in the order in which they build on each other:

  \<^item> \<open>Prelude\<close>: errors as values of \<open>go_error\<close>, results as \<open>go_error + 'a\<close>, the functions of Go's strings and strconv
    packages the code uses, orders of ranges over maps (\<open>map_order\<close>), and the contract \<open>step_system\<close> of the step
    relations, interpreted on those of the pool, the broker, its life cycle, the gRPC calls, the commands and the controller; \<open>self_simulation\<close> extends it, for the broker.
  \<^item> \<open>Xconfig\<close> (\<open>pkg/config\<close>, \<open>pkg/constants\<close>, the configurations of broker and proxy): structures, defaults, the
    loader that runs once, the watcher's callback.
  \<^item> \<open>Picker\<close>, \<open>Scheduler\<close> (\<open>internal/broker/picker\<close>, \<open>scheduler\<close>): the pickers under the contract \<open>picker_contract\<close>;
    round robin is fair, weighted picking is sound, a scheduler always has a working picker.
  \<^item> \<open>Queues\<close> (\<open>pkg/queue\<close>): one queue under the contract \<open>bounded_fifo\<close>, the pool of queues; every push and pop on every
    branch, order within a group. \<open>Priority_Queue\<close> (\<open>internal/broker/picker/priorityqueue\<close>): the heap over shared
    items refines a minimum queue, handles stay valid.
  \<^item> \<open>Grpc_Pool\<close>, \<open>Handler\<close> (\<open>pkg/endpoint/pool\<close>): the connection pool as a transition system with its
    bound on connections; the transparent handler relays messages in order and completely.
  \<^item> \<open>Broker\<close> (\<open>internal/broker/endpoint\<close>): admission and the dispatcher as interleaved steps; no request is lost or
    answered twice, every queued request is answered when rounds follow, the broker refines the pool machine, and
    brokers with work pools of different sizes simulate each other. \<open>Grpc_Call\<close> puts the gRPC server together: the calls of many clients,
    each with its retries, over the dispatcher and the connection pool; every step is one of the parts, calls do not share clients, the
    retries are bounded, a call returns, and one call can empty the pool.
    \<open>Lifecycle\<close> (\<open>internal/broker/server.go\<close>): the goroutines of \<open>Run\<close> and the stop sequence; when \<open>Run\<close> can return.
  \<^item> \<open>Metrics\<close> (\<open>internal/broker/metrics\<close>): the translation of scraped metrics to a write request equals a
    reference that has no shared maps; the collector's loop. \<open>Monitor\<close>: the registered vectors as a fold of the broker's
    calls; what is read from them agrees with the queues and the answered requests.
  \<^item> \<open>Utils\<close>, \<open>Holder\<close>, \<open>Proxy\<close> (\<open>pkg/utils\<close>, \<open>internal/proxy\<close>): identifiers, addresses, labels; the registry of waiting
    callers never blocks a sender; the proxy endpoints.
  \<^item> \<open>Kube\<close> (\<open>pkg/apis/apps/v1alpha1\<close>, the fields of platform objects that are used): objects, the typed client and
    its laws, and the contract \<open>finalized\<close> of a controller with a finalizer.
  \<^item> \<open>Webhook\<close>, \<open>Webhook_Server\<close> (\<open>internal/controller\<close>): admission, sidecar configuration, the JSON patch and
    what the API server makes of it (contract \<open>patched_array\<close>), registration and certificates.
    \<open>Slices\<close>, \<open>Injection\<close>: Go's slices over an explicit memory (contract \<open>appendable\<close>), and the arrays that admission requests
    share: one request after the other refines the model of \<open>Webhook\<close>, overlapping requests do so only when the slices of the
    template are full.
  \<^item> \<open>Im_Service\<close>, \<open>Im_Template\<close>, \<open>Im_Deployment\<close> (\<open>pkg/controllers\<close>): reconciliation; convergence, and that the finalizer
    is released once.
  \<^item> \<open>Query\<close>, \<open>Deploy\<close>, \<open>Api\<close> (\<open>pkg/apiserver/query\<close>, \<open>pkg/models/apps\<close>, \<open>pkg/kapis\<close>, \<open>pkg/api\<close>): list queries with 64-bit
    page arithmetic, the operations on deployments and templates, the REST handlers and their error answers. \<open>Api_Server\<close>
    (\<open>register.go\<close>, \<open>pkg/apiserver/apiserver.go\<close>): the table of routes, the container, the construction of the server; every
    request has one handler, and what a reload does to the server.
  \<^item> \<open>Command\<close>, \<open>Options\<close> (\<open>cmd\<close>, \<open>pkg/server/options\<close> and the configurations of API server and controller): the run
    loop with reload as a step relation; defaults, merging and validation. \<open>Controller_Run\<close> (\<open>cmd/controller/app/server.go\<close>): the
    error group of the controller process, every run of which ends.

  This theory has what spans components: the service group of a request from the proxy to the broker's queue
  for both protocols, the pods of a deployed model and the webhook, and the deletion of deployments with the
  workloads the controller made.

  \<^bold>\<open>How the code is modelled.\<close> A struct is a record, an interface value the constructor of a datatype, a method a function
  that returns the changed state; every early return and error is a value, a run-time panic is the error
  \<open>GoPanic\<close>. Sized integers whose overflow can matter are words or reduced explicitly (\<open>i64\<close>). A range over a map takes
  the order of its keys as an argument, subject to \<open>map_order\<close>; a random number, the clock and the choice of a
  select are arguments too. Goroutines are steps of an \<open>inductive\<close> relation at the granularity of the critical
  sections and channel operations. Code that is not in the repository (grpc, viper, the Kubernetes client,
  weightedrand, x509) is an argument; what is relied on is a named predicate (\<open>weightedrand_ok\<close>, \<open>client_ok\<close>,
  \<open>sort_ok\<close>, \<open>x509_ok\<close> and so on), and each theorem with such a hypothesis has a witness with a concrete instance.

  \<^bold>\<open>Fuel.\<close> Only the forwarding loops of \<open>Handler\<close> may run for ever; their fuel counts messages, and \<open>relay_complete\<close> shows
  that fuel beyond the length of the stream gives its end. All other loops are structural or have a measure.

  \<^bold>\<open>Not modelled.\<close> Generated code (clients, informers, listers, deep copies, protocol buffers), which has no logic of the
  project; command lines, flags, help texts and the registration of controllers with the manager, which
  are calls of those frameworks; the HTTP and TLS servers themselves and the reverse proxy;
  viper; the bucket contents of the Prometheus histograms; the parser
  \<open>parsePrometheusResponse\<close> and the setters of the query processor, which nothing calls; logging.
\<close>

section \<open>The service group of a request, end to end\<close>

text \<open>
  C22. HTTP, proxy to broker. A client's request passes the proxy's \<open>Rewrite\<close> and reaches the broker, which files
  it under the group of its \<open>X-Service-Group\<close> header. When the client sends no such header, that is the service
  group of the proxy's configuration (or "default" when it is empty); when the client sends one, the client's
  value prevails. A group without a queue is filed under "default".
\<close>

theorem http_group_end_to_end:
  assumes "NewHttpProxyServer urlParse env pcfg = Inr p"
    and "xForwarded h ServiceGroupHeader = h ServiceGroupHeader"
    and "rq_Header r = Header_Get (snd (Rewrite xForwarded p h))"
    and "pool_inv (d_QueuePool s)" and "Http_EnqueueRequests r c s = (res, answer, item, s')"
    and "u = (if h ServiceGroupHeader \<in> {None, Some []} then sg_Name (pcfg_ServiceGroup pcfg)
              else Header_Get h ServiceGroupHeader)"
    and "g = (if u = [] then DefaultServiceGroup else u)"
  shows "ResourceName item = (if g \<in> dom (qp_Queues (d_QueuePool s)) then g else DefaultServiceGroup)"
proof -
  have "hp_GroupName p = sg_Name (pcfg_ServiceGroup pcfg)"
    using assms(1) by (auto simp: NewHttpProxyServer_def Let_def split: sum.splits)
  then have "rq_Header r ServiceGroupHeader = u"
    using assms(2,3,6)
    by (auto simp: Rewrite_def ServiceGroupHeader_def Header_Add_def Header_Get_def split: option.splits list.splits)
  then show ?thesis using http_admit [OF assms(4,5) refl refl] assms(7) by auto
qed

theorem http_group_end_to_end_witness:
  "\<exists>p r res answer item s'. NewHttpProxyServer Inr (\<lambda>_. ''80'') ProxyConfig_New = Inr p \<and>
     rq_Header r = Header_Get (snd (Rewrite id p Map.empty)) \<and>
     Http_EnqueueRequests r 0 small_broker = (res, answer, item, s') \<and> ResourceName item = DefaultServiceGroup"
proof -
  obtain p where p: "NewHttpProxyServer Inr (\<lambda>_. ''80'') ProxyConfig_New = Inr p"
    by (simp add: NewHttpProxyServer_def GetTargetURL_def Atoi_def parse_nat_def is_digit_def digit_val_def Let_def)
  let ?r = "\<lparr>rq_id = 1, rq_Header = Header_Get (snd (Rewrite id p Map.empty)), rq_now = 0\<rparr>"
  obtain res answer item s' where e: "Http_EnqueueRequests ?r 0 small_broker = (res, answer, item, s')"
    using prod_cases4 by blast
  have inv: "pool_inv (d_QueuePool small_broker)"
    using started_inv [OF small_started, of is_http] by (simp add: broker_inv_def pool_ok_def init_world_def)
  have "ResourceName item = DefaultServiceGroup"
    using http_group_end_to_end [OF p, of id Map.empty ?r, OF _ _ inv e refl refl]
    by (simp add: small_pool split: if_splits)
  with p e show ?thesis by (intro exI [of _ p] exI [of _ ?r] exI conjI) (assumption | simp)+
qed

text \<open>
  C23. gRPC, proxy to broker. The service group of the proxy's configuration never reaches the broker: the context
  that \<open>GetConn\<close> marked with it is overwritten, so the broker reads the group the client sent, or "default".
\<close>

theorem grpc_group_dropped:
  assumes "Proxy_GetConn ps c acq = Inr (c', conn)"
  shows "ServiceGroupFromContext (transmit c') = ServiceGroupFromContext c"
  using assms
  by (auto simp: Proxy_GetConn_def transmit_def ServiceGroupFromContext_def FromIncomingContext_def Let_def
      split: sum.splits)

theorem grpc_group_dropped_witness:
  "\<exists>ps c'. gp_ServiceGroupName ps = ''gold'' \<and>
     Proxy_GetConn ps \<lparr>ctx_in = None, ctx_out = None\<rparr> (Inr 3) = Inr (c', 3) \<and>
     ServiceGroupFromContext (transmit c') = ''default''"
proof -
  obtain w where "initPool cfg2 0 (\<lambda>_. None) = (None, Some w)" using cfg2_init by auto
  define ps where "ps = \<lparr>gp_Addr = '':15051'', gp_StopChan = False, gp_Pool = w, gp_ServiceGroupName = ''gold''\<rparr>"
  obtain c' where c': "Proxy_GetConn ps \<lparr>ctx_in = None, ctx_out = None\<rparr> (Inr 3) = Inr (c', 3)"
    by (simp add: Proxy_GetConn_def)
  have "gp_ServiceGroupName ps = ''gold''" by (simp add: ps_def)
  moreover have "ServiceGroupFromContext (transmit c') = ''default''"
    using grpc_group_dropped [OF c'] by (simp add: ServiceGroupFromContext_def FromIncomingContext_def)
  ultimately show ?thesis using c' by blast
qed

section \<open>From the deployment of a model to its broker sidecar\<close>

text \<open>
  A pod of a deployment, as the platform's deployment and replica set controllers make it: with the labels of the
  template and the template hash, generated name, and a replica set named after the deployment as its controller.
\<close>

definition pod_of_deployment :: "K8sDeployment \<Rightarrow> string \<Rightarrow> Pod \<Rightarrow> bool" where
  "pod_of_deployment d hash pod \<longleftrightarrow>
     pod_Namespace pod = dp_Namespace d \<and> hash \<noteq> [] \<and> dp_Name d \<noteq> [] \<and> pod_GenerateName pod \<noteq> [] \<and> pod_Annotations pod = None \<and>
     pod_Labels pod = (case pt_Labels (dp_Template d) of None \<Rightarrow> Map.empty | Some m \<Rightarrow> m)(''pod-template-hash'' \<mapsto> hash) \<and>
     (\<exists>ref. find_controller (pod_OwnerReferences pod) = Some ref \<and> or_Kind ref = ''ReplicaSet'' \<and>
        or_Name ref = dp_Name d @ ''-'' @ hash)"

lemma pod_of_deployment_meta:
  assumes "pod_of_deployment d hash pod"
  shows "dm_Name (GetDeployMetaFromPod pod) = dp_Name d"
proof -
  from assms obtain ref where ref: "find_controller (pod_OwnerReferences pod) = Some ref" "or_Kind ref = ''ReplicaSet''"
      "or_Name ref = dp_Name d @ ''-'' @ hash" by (auto simp: pod_of_deployment_def)
  have "TrimSuffix (dp_Name d @ ''-'' @ hash) (''-'' @ hash) = dp_Name d" by (rule TrimSuffix_append)
  moreover have "HasSuffix (dp_Name d @ ''-'' @ hash) hash" using HasSuffix_append [of "dp_Name d @ ''-''" hash] by simp
  ultimately show ?thesis
    using assms ref by (simp add: pod_of_deployment_def GetDeployMetaFromPod_def from_controller_def label_of_def Let_def)
qed

lemma pod_of_new_deployment_required:
  assumes "pod_of_deployment (new_deployment inst name sel) hash pod" and "imd_Namespace inst \<notin> set ignoredNamespaces"
    and "api_getIMS K s (imd_Namespace inst) name = r"
  shows "mutationRequired K ignoredNamespaces pod s \<longleftrightarrow> (\<exists>x. r = Inr x)"
proof -
  have m: "dm_Name (GetDeployMetaFromPod pod) = name" "name \<noteq> []"
    using pod_of_deployment_meta [OF assms(1)] assms(1) by (simp_all add: pod_of_deployment_def)
  have ns: "pod_Namespace pod = imd_Namespace inst" using assms(1) by (simp add: pod_of_deployment_def)
  have l: "pod_Labels pod WebhookBrokerInjectLabel = Some WebhookInjectEnable"
    using assms(1) injected_label [of inst sel name "tlabels inst"]
    by (simp add: pod_of_deployment_def new_deployment_template label_defs)
  then have "pod_Labels pod \<noteq> Map.empty" by auto
  moreover have "annotation_of pod k = []" for k using assms(1) by (simp add: pod_of_deployment_def annotation_of_def)
  ultimately show ?thesis
    using m ns l assms(2,3) by (auto simp: mutationRequired_def Let_def ToLower_def split: sum.splits)
qed


definition sample_cluster_api :: "sample_cluster kube_api" where
  "sample_cluster_api =
     \<lparr>api_getIMS = cl_Get (ie_services sample_env), api_getDeployment = cl_Get (ie_workloads sample_env),
      api_getNode = (\<lambda>s n. Inl (NotFound n)), api_getConfigMap = (\<lambda>s ns n. Inl (NotFound n)),
      api_createConfigMap = (\<lambda>s ns cm. (Some (OtherErr ''read only''), s))\<rparr>"

definition sample_model_pod :: "K8sDeployment \<Rightarrow> Pod" where
  "sample_model_pod d =
     \<lparr>pod_Name = [], pod_GenerateName = dp_Name d @ ''-77f-'', pod_Namespace = dp_Namespace d,
      pod_Labels = (case pt_Labels (dp_Template d) of None \<Rightarrow> Map.empty | Some m \<Rightarrow> m)(''pod-template-hash'' \<mapsto> ''77f''),
      pod_Annotations = None,
      pod_OwnerReferences = [\<lparr>or_APIVersion = ''apps/v1'', or_Kind = ''ReplicaSet'', or_Name = dp_Name d @ ''-77f'',
        or_UID = ''u3'', or_Controller = Some True\<rparr>],
      pod_InitContainers = [], pod_Containers = [], pod_Volumes = []\<rparr>"

lemma sample_model_pod_of: "dp_Name d \<noteq> [] \<Longrightarrow> pod_of_deployment d ''77f'' (sample_model_pod d)"
  by (simp add: pod_of_deployment_def sample_model_pod_def)


section \<open>Deleting a deployment with its workloads\<close>

lemma new_deployment_meta:
  "dp_Namespace (new_deployment inst name sel) = imd_Namespace inst"
  "dp_Labels (new_deployment inst name sel) LabelIMDeployment = Some (imd_Name inst)"
  by (simp_all add: new_deployment_def injectAdditionalLabels_def common_labels_def Let_def label_defs)

text \<open>
  C38. Deleting an infer model deployment with its workloads removes a workload the controller created for it exactly
  when the deployment's own namespace is the project of one of its node selectors: the controller creates
  workloads in that namespace, the API deletes them in the selectors' projects.
\<close>

theorem deletion_leaves_workloads:
  assumes "delete_ok D dps" and "rd_Get (op_imd D s) namespace name = Inr imd"
    and "imd_Name imd = name" and "imd_Namespace imd = namespace"
    and "DeleteInferModelDeployment D s namespace name True = (Inr v, s')"
    and "d \<in> set (dps s)" and "K8sDeployment.truncate d = new_deployment (InferModelDeployment.truncate imd) wname sel"
  shows "d \<in> set (dps s') \<longleftrightarrow> namespace \<notin> projects imd"
proof -
  have "dp_Namespace d = dp_Namespace (K8sDeployment.truncate d)" "dp_Labels d = dp_Labels (K8sDeployment.truncate d)"
    by (simp_all add: K8sDeployment.defs)
  then have "dp_Namespace d = namespace" "dp_Labels d LabelIMDeployment = Some name"
    using assms(3,4) unfolding assms(7) new_deployment_meta by (simp_all add: InferModelDeployment.defs new_deployment_meta)
  then show ?thesis using delete_filter [OF assms(1,2,5)] assms(6) by simp
qed

definition with_conditions :: "K8sDeployment \<Rightarrow> (string \<times> string) list \<Rightarrow> StatusDeployment" where
  "with_conditions d cs = K8sDeployment.extend d (StatusDeployment.fields cs)"

theorem deletion_leaves_workloads_witness:
  "\<exists>d v s'. DeleteInferModelDeployment sample_operator [d] ''edge'' ''cam'' True = (Inr v, s') \<and>
     K8sDeployment.truncate d = new_deployment (InferModelDeployment.truncate sample_stamped) ''cam-g-n1'' (hd (imd_NodeSelectors sample_stamped)) \<and>
     d \<in> set s'"
proof -
  let ?n = "new_deployment (InferModelDeployment.truncate sample_stamped) ''cam-g-n1'' (hd (imd_NodeSelectors sample_stamped))"
  let ?d = "with_conditions ?n []"
  have t: "K8sDeployment.truncate ?d = ?n" by (cases ?n) (simp add: with_conditions_def K8sDeployment.defs StatusDeployment.defs)
  have g: "rd_Get (op_imd sample_operator [?d]) ''edge'' ''cam'' = Inr sample_stamped"
    by (simp add: sample_operator_def one_object_def)
  have m: "imd_Name sample_stamped = ''cam''" "imd_Namespace sample_stamped = ''edge''" "''edge'' \<notin> projects sample_stamped"
    by (simp_all add: sample_stamped_def projects_def)
  obtain v s' where r: "DeleteInferModelDeployment sample_operator [?d] ''edge'' ''cam'' True = (Inr v, s')"
    by (simp add: DeleteInferModelDeployment_def g) (simp add: sample_operator_def sample_stamped_def)
  from deletion_leaves_workloads [OF sample_delete_ok g m(1,2) r _ t] m(3) r t show ?thesis by (intro exI conjI) auto
qed

end
